(* ===== verification/Prelude.thy ===== *)
theory Prelude
  imports Main "HOL-Library.AList" "HOL-Library.Multiset" "HOL-Library.Sublist"
    "HOL-Library.Signed_Division"
begin

unbundle bit_operations_syntax

text \<open>
  What the components share: Go's fixed-width integers (an \<open>int64\<close> is an \<open>int\<close> with its
  wrap-around written out), Go's maps (association lists with distinct keys, whose list order is
  the order in which a \<open>range\<close> loop happens to visit the entries), the contract of a map as a
  locale, the contract of a \<open>range\<close> loop whose result does not depend on that order, and
  \<open>sort.Slice\<close>.
\<close>

named_theorems wf_intros \<open>how the operations keep the well-formedness of maps and states\<close>

section \<open>64-bit integers\<close>

definition in_i64 :: "int \<Rightarrow> bool" where
  "in_i64 x \<longleftrightarrow> - (2 ^ 63) \<le> x \<and> x < 2 ^ 63"

definition max_i64 :: int where
  "max_i64 = 2 ^ 63 - 1"

definition min_i64 :: int where
  "min_i64 = - (2 ^ 63)"

definition wrap64 :: "int \<Rightarrow> int" where
  "wrap64 x = signed_take_bit 63 x"

lemma in_i64_alt: "in_i64 x \<longleftrightarrow> min_i64 \<le> x \<and> x \<le> max_i64"
  by (auto simp: in_i64_def min_i64_def max_i64_def)

lemma wrap64_id [simp]: "in_i64 x \<Longrightarrow> wrap64 x = x"
  by (simp add: wrap64_def in_i64_def signed_take_bit_int_eq_self)

lemma in_i64_wrap64 [simp]: "in_i64 (wrap64 x)"
  using signed_take_bit_int_greater_eq_minus_exp [of 63 x]
    signed_take_bit_int_less_exp [of 63 x]
  by (simp add: wrap64_def in_i64_def)

lemma wrap64_add_left [simp]: "wrap64 (wrap64 a + b) = wrap64 (a + b)"
  by (simp add: wrap64_def signed_take_bit_add [symmetric, of 63 "signed_take_bit 63 a" b]
      signed_take_bit_add [symmetric, of 63 a b])

lemma wrap64_wrap64 [simp]: "wrap64 (wrap64 a) = wrap64 a"
  by simp

lemma wrap64_cong: "wrap64 x = wrap64 y \<longleftrightarrow> x mod 2 ^ 64 = y mod 2 ^ 64"
proof -
  have "wrap64 x = wrap64 y \<longleftrightarrow> take_bit (Suc 63) x = take_bit (Suc 63) y"
    by (simp add: wrap64_def signed_take_bit_eq_iff_take_bit_eq)
  then show ?thesis by (simp add: take_bit_eq_mod)
qed

text \<open>Go's conversion of an \<open>int64\<close> to an \<open>int\<close> that clamps to the platform's range: the
  platform's \<open>int\<close> has \<open>w\<close> bits.\<close>

definition clamp_int :: "nat \<Rightarrow> int \<Rightarrow> int" where
  "clamp_int w v = (if v > 2 ^ (w - 1) - 1 then 2 ^ (w - 1) - 1
     else if v < - (2 ^ (w - 1)) then - (2 ^ (w - 1)) else v)"

lemma clamp_int_64 [simp]: "in_i64 v \<Longrightarrow> clamp_int 64 v = v"
  by (simp add: clamp_int_def in_i64_def)

lemma clamp_int_bounds: "- (2 ^ (w - 1)) \<le> clamp_int w v \<and> clamp_int w v < 2 ^ (w - 1)"
  by (auto simp: clamp_int_def not_less intro: order_trans [where y = 0])

text \<open>Go's division rounds towards zero.\<close>

lemma sdiv_nonneg: "0 \<le> (a :: int) \<Longrightarrow> 0 < u \<Longrightarrow> a sdiv u = a div u \<and> a smod u = a mod u"
  by (auto simp: signed_divide_int_def signed_modulo_int_def sgn_if)

lemma sdiv_neg: "(a :: int) < 0 \<Longrightarrow> 0 < u \<Longrightarrow> a sdiv u = - ((- a) div u) \<and> a smod u = - ((- a) mod u)"
  by (simp add: signed_divide_int_def signed_modulo_int_def)

lemma div_less_int: "0 < (u :: int) \<Longrightarrow> d < k * u \<Longrightarrow> d div u < k"
proof -
  assume u: "0 < u" and d: "d < k * u"
  have "d div u * u \<le> d" using pos_mod_sign [OF u, of d] div_mult_mod_eq [of d u] by linarith
  with d have "d div u * u < k * u" by simp
  with u show ?thesis by simp
qed

section \<open>Maps\<close>

type_synonym ('k, 'v) gomap = "('k \<times> 'v) list"

definition wf_gomap :: "('k, 'v) gomap \<Rightarrow> bool" where
  "wf_gomap m \<longleftrightarrow> distinct (map fst m)"

definition gm_put :: "'k \<Rightarrow> 'v \<Rightarrow> ('k, 'v) gomap \<Rightarrow> ('k, 'v) gomap" where
  "gm_put k v m = AList.update k v m"

definition gm_del :: "'k \<Rightarrow> ('k, 'v) gomap \<Rightarrow> ('k, 'v) gomap" where
  "gm_del k m = AList.delete k m"

abbreviation gm_get :: "('k, 'v) gomap \<Rightarrow> 'k \<Rightarrow> 'v option" where
  "gm_get \<equiv> map_of"

definition gm_mem :: "'k \<Rightarrow> ('k, 'v) gomap \<Rightarrow> bool" where
  "gm_mem k m \<longleftrightarrow> gm_get m k \<noteq> None"

text \<open>\<open>maps.Copy(dst, src)\<close> and the loop that deletes, while ranging over a map, the entries a
  condition holds of.\<close>

definition gm_copy :: "('k, 'v) gomap \<Rightarrow> ('k, 'v) gomap \<Rightarrow> ('k, 'v) gomap" where
  "gm_copy dst src = fold (\<lambda>(k, v) m. gm_put k v m) src dst"

definition gm_expire :: "('v \<Rightarrow> bool) \<Rightarrow> ('k, 'v) gomap \<Rightarrow> ('k, 'v) gomap" where
  "gm_expire old m = fold (\<lambda>(k, v) m'. if old v then gm_del k m' else m') m m"

definition gm_map :: "('v \<Rightarrow> 'w) \<Rightarrow> ('k, 'v) gomap \<Rightarrow> ('k, 'w) gomap" where
  "gm_map f m = map (\<lambda>(k, v). (k, f v)) m"

lemma wf_gomap_Nil [simp, wf_intros]: "wf_gomap []"
  by (simp add: wf_gomap_def)

lemma wf_gomap_Cons [simp]: "wf_gomap ((k, v) # m) \<longleftrightarrow> k \<notin> fst ` set m \<and> wf_gomap m"
  by (auto simp: wf_gomap_def)

lemma gm_get_put [simp]: "gm_get (gm_put k v m) = (gm_get m)(k \<mapsto> v)"
  by (simp add: gm_put_def update_conv')

lemma gm_get_del [simp]: "gm_get (gm_del k m) = (gm_get m)(k := None)"
  by (simp add: gm_del_def delete_conv')

lemma wf_gm_put [wf_intros]: "wf_gomap m \<Longrightarrow> wf_gomap (gm_put k v m)"
  by (simp add: wf_gomap_def gm_put_def distinct_update)

lemma wf_gm_del [wf_intros]: "wf_gomap m \<Longrightarrow> wf_gomap (gm_del k m)"
  by (simp add: wf_gomap_def gm_del_def distinct_delete)

lemma gm_get_map [simp]: "gm_get (gm_map f m) k = map_option f (gm_get m k)"
  by (induction m) (auto simp: gm_map_def)

lemma wf_gm_map [wf_intros, simp]: "wf_gomap (gm_map f m) \<longleftrightarrow> wf_gomap m"
  by (simp add: wf_gomap_def gm_map_def comp_def case_prod_unfold)

lemma gm_get_in: "wf_gomap m \<Longrightarrow> (k, v) \<in> set m \<longleftrightarrow> gm_get m k = Some v"
  by (simp add: wf_gomap_def)

lemma gm_get_dom: "dom (gm_get m) = fst ` set m"
  by (rule dom_map_of_conv_image_fst)

lemma map_of_rev_distinct: "distinct (map fst kvs) \<Longrightarrow> map_of (rev kvs) = map_of kvs"
  by (rule map_of_eqI) (auto simp: rev_map [symmetric])

subsection \<open>The contract of a map\<close>

text \<open>What the clients of a map rely on: the caches and tables of the model, and the loops that
  copy a map and that delete while ranging, use no more than this.\<close>

locale map_contract =
  fixes emp :: "'m"
    and get :: "'m \<Rightarrow> 'k \<Rightarrow> 'v option"
    and put :: "'k \<Rightarrow> 'v \<Rightarrow> 'm \<Rightarrow> 'm"
    and del :: "'k \<Rightarrow> 'm \<Rightarrow> 'm"
    and entries :: "'m \<Rightarrow> ('k \<times> 'v) list"
    and ok :: "'m \<Rightarrow> bool"
  assumes ok_emp: "ok emp"
    and get_emp: "get emp = (\<lambda>_. None)"
    and ok_put: "ok m \<Longrightarrow> ok (put k v m)"
    and get_put: "ok m \<Longrightarrow> get (put k v m) = (get m)(k \<mapsto> v)"
    and ok_del: "ok m \<Longrightarrow> ok (del k m)"
    and get_del: "ok m \<Longrightarrow> get (del k m) = (get m)(k := None)"
    and get_entries: "ok m \<Longrightarrow> map_of (entries m) = get m"
    and distinct_entries: "ok m \<Longrightarrow> distinct (map fst (entries m))"
begin

lemma copy_loop:
  assumes "ok m"
  shows "ok (fold (\<lambda>(k, v). put k v) kvs m) \<and>
    get (fold (\<lambda>(k, v). put k v) kvs m) = get m ++ map_of (rev kvs)"
  using assms
proof (induction kvs arbitrary: m)
  case Nil
  then show ?case by simp
next
  case (Cons kv kvs)
  obtain k v where kv: "kv = (k, v)" by (cases kv)
  from Cons.IH [OF ok_put [OF Cons.prems, of k v]] Cons.prems show ?case
    by (simp add: kv get_put fun_eq_iff map_add_def split: option.splits)
qed

lemma copy_loop_distinct:
  assumes "ok m" and "distinct (map fst kvs)"
  shows "get (fold (\<lambda>(k, v). put k v) kvs m) = get m ++ map_of kvs"
  using copy_loop [OF assms(1), of kvs] map_of_rev_distinct [OF assms(2)] by simp

lemma expire_loop_aux:
  assumes "ok m"
  shows "ok (fold (\<lambda>(k, v) m'. if old v then del k m' else m') kvs m) \<and>
    get (fold (\<lambda>(k, v) m'. if old v then del k m' else m') kvs m) =
      (\<lambda>k. if \<exists>v. (k, v) \<in> set kvs \<and> old v then None else get m k)"
  using assms
proof (induction kvs arbitrary: m)
  case Nil
  then show ?case by simp
next
  case (Cons kv kvs)
  obtain k v where kv: "kv = (k, v)" by (cases kv)
  show ?case
    using Cons.IH [OF Cons.prems] Cons.IH [OF ok_del [OF Cons.prems, of k]] Cons.prems
    by (auto simp: kv get_del fun_eq_iff)
qed

lemma expire_loop:
  assumes "ok m"
  shows "get (fold (\<lambda>(k, v) m'. if old v then del k m' else m') (entries m) m) k =
    (case get m k of None \<Rightarrow> None | Some v \<Rightarrow> if old v then None else Some v)"
proof -
  have mem: "(k, v) \<in> set (entries m) \<longleftrightarrow> get m k = Some v" for v
    using get_entries [OF assms] distinct_entries [OF assms] by (metis map_of_eq_Some_iff)
  have "get (fold (\<lambda>(k, v) m'. if old v then del k m' else m') (entries m) m) k =
      (if \<exists>v. (k, v) \<in> set (entries m) \<and> old v then None else get m k)"
    by (simp add: expire_loop_aux [OF assms])
  then show ?thesis by (auto simp: mem split: option.splits)
qed

end

interpretation gm: map_contract "[]" "map_of" gm_put gm_del "\<lambda>m. m" wf_gomap
  by unfold_locales (simp_all add: wf_gm_put wf_gm_del, simp_all add: wf_gomap_def)

lemma gm_get_copy: "wf_gomap src \<Longrightarrow> wf_gomap dst \<Longrightarrow> gm_get (gm_copy dst src) = gm_get dst ++ gm_get src"
  unfolding gm_copy_def by (rule gm.copy_loop_distinct) (simp_all add: wf_gomap_def)

lemma wf_gm_copy [wf_intros]: "wf_gomap dst \<Longrightarrow> wf_gomap (gm_copy dst src)"
  unfolding gm_copy_def using gm.copy_loop by blast

lemma gm_get_expire: "wf_gomap m \<Longrightarrow>
  gm_get (gm_expire old m) k =
    (case gm_get m k of None \<Rightarrow> None | Some v \<Rightarrow> if old v then None else Some v)"
  unfolding gm_expire_def by (rule gm.expire_loop)

lemma wf_gm_expire [wf_intros]: "wf_gomap m \<Longrightarrow> wf_gomap (gm_expire old m)"
  unfolding gm_expire_def using gm.expire_loop_aux by blast

lemma gm_get_fresh: "k \<notin> fst ` set m \<Longrightarrow> gm_get m k = None"
  by (simp add: map_of_eq_None_iff)

lemma gm_get_copy_any: "wf_gomap src \<Longrightarrow> gm_get (gm_copy dst src) k = (gm_get dst ++ gm_get src) k"
proof (induction src arbitrary: dst)
  case (Cons x src)
  obtain a b where x: "x = (a, b)" by (cases x)
  with Cons.prems have "gm_get src a = None" "wf_gomap src" by (simp_all add: gm_get_fresh)
  with Cons.IH [of "gm_put a b dst"] show ?case
    by (simp add: gm_copy_def x map_add_def split: option.splits)
qed (simp add: gm_copy_def)

lemma fold_invariant:
  assumes "P s" and "\<And>x s. x \<in> set xs \<Longrightarrow> P s \<Longrightarrow> P (f x s)"
  shows "P (fold f xs s)"
  using assms by (induction xs arbitrary: s) auto

lemma fold_preserves:
  assumes "\<And>x s. x \<in> set xs \<Longrightarrow> g (f x s) = g s"
  shows "g (fold f xs s) = g s"
  using assms by (induction xs arbitrary: s) auto

subsection \<open>Loops that write one row per entry\<close>

lemma fold_rows:
  assumes "wf_gomap m" and "inj f"
    and ins: "\<And>k v s x. (k, v) \<in> set m \<Longrightarrow>
      gm_get (tab (ins k v s)) x = (if x = f k \<and> ok k v then Some (row v) else gm_get (tab s) x)"
  shows "gm_get (tab (fold (\<lambda>(k, v) s. ins k v s) m s)) (f k) =
    (case gm_get m k of Some v \<Rightarrow> if ok k v then Some (row v) else gm_get (tab s) (f k)
     | None \<Rightarrow> gm_get (tab s) (f k))"
  using assms(1) ins
proof (induction m arbitrary: s)
  case (Cons e m)
  obtain k' v' where e: "e = (k', v')" by (cases e)
  with Cons.prems(1) have "gm_get m k' = None" "wf_gomap m" by (simp_all add: gm_get_fresh)
  with Cons.IH [OF _ Cons.prems(2), of "ins k' v' s"] Cons.prems(2) [of k' v'] show ?case
    by (cases "k = k'") (auto simp: e inj_eq [OF assms(2)] split: option.split)
qed simp

lemma fold_rows_other:
  assumes "\<And>k v s. (k, v) \<in> set m \<Longrightarrow> gm_get (tab (ins k v s)) x = gm_get (tab s) x"
  shows "gm_get (tab (fold (\<lambda>(k, v) s. ins k v s) m s)) x = gm_get (tab s) x"
  using fold_preserves [where g = "\<lambda>s. gm_get (tab s) x" and f = "\<lambda>(k, v) s. ins k v s"] assms
  by (metis (mono_tags, lifting) case_prod_conv surj_pair)

subsection \<open>Loops over a map whose result does not depend on the order\<close>

locale range_loop =
  fixes step :: "'k \<times> 'v \<Rightarrow> 's \<Rightarrow> 's"
  assumes step_comm: "fst p \<noteq> fst q \<Longrightarrow> step p (step q s) = step q (step p s)"
begin

lemma order_irrelevant:
  assumes "mset xs = mset ys" and "distinct (map fst xs)"
  shows "fold step xs s = fold step ys s"
proof -
  have inj: "inj_on fst (set xs)"
    using assms(2) by (simp add: distinct_map)
  have "fold step xs = fold step ys"
  proof (rule fold_multiset_equiv [OF _ assms(1)])
    fix p q assume pq: "p \<in> set xs" "q \<in> set xs"
    show "step p \<circ> step q = step q \<circ> step p"
    proof (cases "p = q")
      case False
      with inj pq have "fst p \<noteq> fst q" by (meson inj_onD)
      then show ?thesis by (simp add: fun_eq_iff step_comm)
    qed simp
  qed
  then show ?thesis by simp
qed

end

section \<open>sort.Slice\<close>

text \<open>\<open>sort.Slice\<close> sorts by a \<open>less\<close> function and leaves the order of equal elements open. The
  model inserts each element after those not greater than it, one of the results \<open>sort.Slice\<close>
  may give; the laws of \<open>slice_sorter\<close> are all it promises and all the clients use.\<close>

fun insert_by :: "('a \<Rightarrow> 'a \<Rightarrow> bool) \<Rightarrow> 'a \<Rightarrow> 'a list \<Rightarrow> 'a list" where
  "insert_by lt x [] = [x]"
| "insert_by lt x (y # ys) = (if lt y x then y # insert_by lt x ys else x # y # ys)"

definition sort_slice :: "('a \<Rightarrow> 'a \<Rightarrow> bool) \<Rightarrow> 'a list \<Rightarrow> 'a list" where
  "sort_slice lt xs = foldr (insert_by lt) xs []"

definition weak_order :: "('a \<Rightarrow> 'a \<Rightarrow> bool) \<Rightarrow> bool" where
  "weak_order lt \<longleftrightarrow> (\<forall>x. \<not> lt x x) \<and>
     (\<forall>x y z. \<not> lt x y \<longrightarrow> \<not> lt y z \<longrightarrow> \<not> lt x z) \<and>
     (\<forall>x y. lt x y \<longrightarrow> \<not> lt y x)"

lemma weak_order_irrefl: "weak_order lt \<Longrightarrow> \<not> lt x x"
  by (simp add: weak_order_def)

lemma weak_order_asym: "weak_order lt \<Longrightarrow> lt x y \<Longrightarrow> \<not> lt y x"
  unfolding weak_order_def by metis

lemma weak_order_trans: "weak_order lt \<Longrightarrow> \<not> lt x y \<Longrightarrow> \<not> lt y z \<Longrightarrow> \<not> lt x z"
  unfolding weak_order_def by metis

locale slice_sorter =
  fixes srt :: "('a \<Rightarrow> 'a \<Rightarrow> bool) \<Rightarrow> 'a list \<Rightarrow> 'a list"
  assumes srt_mset: "mset (srt lt xs) = mset xs"
    and srt_sorted: "weak_order lt \<Longrightarrow> sorted_wrt (\<lambda>x y. \<not> lt y x) (srt lt xs)"
begin

lemma srt_set: "set (srt lt xs) = set xs"
  by (metis srt_mset set_mset_mset)

lemma srt_length: "length (srt lt xs) = length xs"
  by (metis srt_mset size_mset)

lemma srt_head_least:
  assumes "weak_order lt" and "x \<in> set xs"
  shows "\<not> lt x (hd (srt lt xs))"
proof -
  from assms(2) have x: "x \<in> set (srt lt xs)" by (simp add: srt_set)
  then obtain y ys where e: "srt lt xs = y # ys" by (cases "srt lt xs") auto
  from srt_sorted [OF assms(1), of xs] x weak_order_irrefl [OF assms(1), of y] show ?thesis
    by (auto simp: e)
qed

lemma srt_Nil [simp]: "srt lt xs = [] \<longleftrightarrow> xs = []"
  by (metis srt_mset mset_zero_iff)

end

lemma mset_insert_by: "mset (insert_by lt x ys) = add_mset x (mset ys)"
  by (induction ys) auto

lemma set_insert_by [simp]: "set (insert_by lt x ys) = insert x (set ys)"
  by (induction ys) auto

lemma sorted_insert_by:
  assumes w: "weak_order lt" and "sorted_wrt (\<lambda>x y. \<not> lt y x) ys"
  shows "sorted_wrt (\<lambda>x y. \<not> lt y x) (insert_by lt x ys)"
  using assms(2)
proof (induction ys)
  case Nil
  then show ?case by simp
next
  case (Cons y ys)
  then have y: "\<forall>z \<in> set ys. \<not> lt z y" and IH: "sorted_wrt (\<lambda>x y. \<not> lt y x) (insert_by lt x ys)"
    by simp_all
  show ?case
  proof (cases "lt y x")
    case True
    with y IH weak_order_asym [OF w True] show ?thesis by simp
  next
    case False
    with y have "\<forall>z \<in> set ys. \<not> lt z x" using weak_order_trans [OF w] by blast
    with False Cons.prems show ?thesis by simp
  qed
qed

interpretation ss: slice_sorter sort_slice
proof
  show "mset (sort_slice lt xs) = mset xs" for lt :: "'a \<Rightarrow> 'a \<Rightarrow> bool" and xs
    by (induction xs) (auto simp: sort_slice_def mset_insert_by)
  show "sorted_wrt (\<lambda>x y. \<not> lt y x) (sort_slice lt xs)"
    if "weak_order lt" for lt :: "'a \<Rightarrow> 'a \<Rightarrow> bool" and xs
    by (induction xs) (simp_all add: sort_slice_def sorted_insert_by [OF that])
qed

lemma weak_order_key: "weak_order (\<lambda>x y. (f x :: 'b :: linorder) < f y)"
  by (auto simp: weak_order_def)

lemma weak_order_key_desc: "weak_order (\<lambda>x y. (f x :: 'b :: linorder) > f y)"
  by (auto simp: weak_order_def)

section \<open>Lists and options\<close>

lemma find_app: "find P (xs @ ys) = (case find P xs of None \<Rightarrow> find P ys | Some x \<Rightarrow> Some x)"
  by (induction xs) auto

lemma fold_append_map: "fold (\<lambda>x acc. acc @ [f x]) xs acc = acc @ map f xs"
  by (induction xs arbitrary: acc) auto

end
