(* ===== verification/GoFloat.thy ===== *)
theory GoFloat
  imports Complex_Main Prelude "HOL-Library.Log_Nat"
begin

text \<open>
  Go's \<open>float64\<close>: a finite value is the rational number it stands for, and each operation is the
  exact one followed by rounding to binary64 (53 significant bits, exponents from -1074, ties to
  even, infinity from \<open>2 ^ 1024\<close> on). The sign of a zero is not kept. The lemmas are the ones
  the components need: rounding is monotone, it leaves what a \<open>float64\<close> can hold unchanged, and
  so the comparisons of the code follow the comparisons of the numbers.
\<close>

section \<open>Rounding to an integer and to binary64\<close>

definition rhe :: "rat \<Rightarrow> int" where
  "rhe q = (let f = \<lfloor>q\<rfloor>; d = q - of_int f
     in if d < 1 / 2 then f else if d > 1 / 2 then f + 1 else if even f then f else f + 1)"

lemma rhe_of_int [simp]: "rhe (of_int i) = i"
  by (simp add: rhe_def)

lemma rhe_bounds: "\<lfloor>q\<rfloor> \<le> rhe q \<and> rhe q \<le> \<lfloor>q\<rfloor> + 1"
  by (simp add: rhe_def Let_def)

lemma rhe_mono: "p \<le> q \<Longrightarrow> rhe p \<le> rhe q"
proof -
  assume pq: "p \<le> q"
  then have f: "\<lfloor>p\<rfloor> \<le> \<lfloor>q\<rfloor>" by (rule floor_mono)
  show ?thesis
  proof (cases "\<lfloor>p\<rfloor> = \<lfloor>q\<rfloor>")
    case True
    with pq show ?thesis by (auto simp: rhe_def Let_def)
  next
    case False
    with f have "\<lfloor>p\<rfloor> + 1 \<le> \<lfloor>q\<rfloor>" by simp
    with rhe_bounds [of p] rhe_bounds [of q] show ?thesis by linarith
  qed
qed

lemma rhe_ge: "of_int i \<le> q \<Longrightarrow> i \<le> rhe q"
  using rhe_mono [of "of_int i" q] by simp

lemma rhe_le: "q \<le> of_int i \<Longrightarrow> rhe q \<le> i"
  using rhe_mono [of q "of_int i"] by simp

definition p2 :: "int \<Rightarrow> rat" where
  "p2 e = (if 0 \<le> e then of_int (2 ^ nat e) else 1 / of_int (2 ^ nat (- e)))"

lemma p2_powi: "p2 e = 2 powi e"
  by (simp add: p2_def power_int_def power_one_over)

lemma p2_pos [simp]: "0 < p2 e"
  by (simp add: p2_powi)

lemma p2_nonneg [simp]: "0 \<le> p2 e" "\<not> p2 e < 0"
  using p2_pos [of e] by (simp_all add: less_imp_le not_less)

lemma p2_neq0 [simp]: "p2 e \<noteq> 0"
  using p2_pos [of e] by linarith

lemma p2_add: "p2 (a + b) = p2 a * p2 b"
  by (simp add: p2_powi power_int_add)

lemma p2_mono: "a \<le> b \<Longrightarrow> p2 a \<le> p2 b"
  by (simp add: p2_powi power_int_increasing)

lemma p2_nat: "p2 (int n) = 2 ^ n"
  by (simp add: p2_def)

lemma p2_0 [simp]: "p2 0 = 1"
  by (simp add: p2_def)

lemma p2_less_imp: "p2 a < p2 b \<Longrightarrow> a < b"
  using p2_mono [of b a] by (meson not_le)

lemma p2_le_iff [simp]: "p2 a \<le> p2 b \<longleftrightarrow> a \<le> b"
proof
  assume le: "p2 a \<le> p2 b"
  show "a \<le> b"
  proof (rule ccontr)
    assume "\<not> a \<le> b"
    then have "p2 (b + 1) \<le> p2 a" by (intro p2_mono) simp
    moreover have "p2 (b + 1) = p2 b * p2 1" by (rule p2_add)
    moreover have "p2 1 = 2" by (simp add: p2_def)
    ultimately show False using le p2_pos [of b] by simp
  qed
qed (rule p2_mono)

lemma p2_of_int: "0 \<le> e \<Longrightarrow> p2 e = of_int (2 ^ nat e)"
  by (simp add: p2_def)

text \<open>The exponent of the leading bit.\<close>

definition ilog2 :: "rat \<Rightarrow> int" where
  "ilog2 q = (let (n, d) = quotient_of q; e = bitlen n - bitlen d
     in if p2 e \<le> q then e else e - 1)"

lemma bitlen_p2: "0 < x \<Longrightarrow> p2 (bitlen x - 1) \<le> of_int x \<and> of_int x < p2 (bitlen x)"
proof -
  assume x: "0 < x"
  then have "0 < bitlen x" using bitlen_nonneg [of x] bitlen_eq_zero_iff [of x] by linarith
  moreover from bitlen_bounds [OF x]
  have "2 ^ nat (bitlen x - 1) \<le> x" and "x < 2 ^ nat (bitlen x)" by auto
  then have "(of_int (2 ^ nat (bitlen x - 1)) :: rat) \<le> of_int x"
    and "(of_int x :: rat) < of_int (2 ^ nat (bitlen x))"
    by (simp_all only: of_int_le_iff of_int_less_iff)
  ultimately show ?thesis by (simp add: p2_of_int)
qed

lemma ilog2_bounds:
  assumes "0 < q"
  shows "p2 (ilog2 q) \<le> q \<and> q < p2 (ilog2 q + 1)"
proof -
  obtain n d where nd: "quotient_of q = (n, d)" by (cases "quotient_of q")
  have d: "0 < d" using quotient_of_denom_pos [OF nd] .
  have q: "q = of_int n / of_int d" using quotient_of_div [OF nd] .
  with assms d have n: "0 < n" by (simp add: zero_less_divide_iff)
  define e where "e = bitlen n - bitlen d"
  note bn = bitlen_p2 [OF n] and bd = bitlen_p2 [OF d]
  have up: "q < p2 (e + 1)"
  proof -
    have "of_int n < p2 (bitlen n)" using bn ..
    also have "\<dots> = p2 (e + 1) * p2 (bitlen d - 1)"
      by (simp add: p2_add [symmetric] e_def)
    also have "\<dots> \<le> p2 (e + 1) * of_int d" using bd by simp
    finally show ?thesis using d by (simp add: q divide_less_eq)
  qed
  have lo: "p2 (e - 1) \<le> q"
  proof -
    have "p2 (e - 1) * of_int d \<le> p2 (e - 1) * p2 (bitlen d)" using bd by simp
    also have "\<dots> = p2 (bitlen n - 1)" by (simp add: p2_add [symmetric] e_def)
    also have "\<dots> \<le> of_int n" using bn ..
    finally show ?thesis using d by (simp add: q le_divide_eq)
  qed
  show ?thesis
    using up lo by (auto simp: ilog2_def nd e_def [symmetric])
qed

lemma ilog2_mono: "0 < p \<Longrightarrow> p \<le> q \<Longrightarrow> ilog2 p \<le> ilog2 q"
proof -
  assume p: "0 < p" and pq: "p \<le> q"
  from p pq have "p2 (ilog2 p) < p2 (ilog2 q + 1)"
    using ilog2_bounds [of p] ilog2_bounds [of q] by linarith
  then show ?thesis using p2_less_imp by fastforce
qed

definition ulp_exp :: "rat \<Rightarrow> int" where
  "ulp_exp q = max (- 1074) (ilog2 q - 52)"

definition rnd_pos :: "rat \<Rightarrow> rat" where
  "rnd_pos q = (let e = ulp_exp q in of_int (rhe (q / p2 e)) * p2 e)"

definition rnd_rat :: "rat \<Rightarrow> rat" where
  "rnd_rat q = (if q = 0 then 0 else if q > 0 then rnd_pos q else - rnd_pos (- q))"

lemma rnd_pos_nonneg: "0 < q \<Longrightarrow> 0 \<le> rnd_pos q"
proof -
  assume "0 < q"
  then have "0 \<le> rhe (q / p2 (ulp_exp q))" by (intro rhe_ge) simp
  then show ?thesis by (simp add: rnd_pos_def Let_def)
qed

lemma rnd_pos_upper: "0 < q \<Longrightarrow> rnd_pos q \<le> p2 (ulp_exp q + 53)"
proof -
  assume q: "0 < q"
  have "q < p2 (ilog2 q + 1)" using ilog2_bounds [OF q] by simp
  also have "\<dots> \<le> p2 (ulp_exp q + 53)" by (rule p2_mono) (simp add: ulp_exp_def)
  also have "\<dots> = p2 (ulp_exp q) * p2 53" by (simp add: p2_add)
  finally have "q / p2 (ulp_exp q) \<le> of_int (2 ^ 53)"
    by (simp add: divide_le_eq mult.commute p2_def)
  then have "rhe (q / p2 (ulp_exp q)) \<le> 2 ^ 53" by (rule rhe_le)
  then have "(of_int (rhe (q / p2 (ulp_exp q))) :: rat) \<le> of_int (2 ^ 53)"
    by (simp only: of_int_le_iff)
  then have "rnd_pos q \<le> of_int (2 ^ 53) * p2 (ulp_exp q)"
    by (simp add: rnd_pos_def Let_def del: of_int_power)
  also have "\<dots> = p2 (ulp_exp q + 53)" by (simp add: p2_add p2_of_int)
  finally show ?thesis .
qed

lemma rnd_pos_lower: "0 < q \<Longrightarrow> ulp_exp q \<noteq> - 1074 \<Longrightarrow> p2 (ulp_exp q + 52) \<le> rnd_pos q"
proof -
  assume q: "0 < q" and "ulp_exp q \<noteq> - 1074"
  then have "ulp_exp q + 52 = ilog2 q" by (simp add: ulp_exp_def max_def split: if_splits)
  then have "p2 (ulp_exp q + 52) \<le> q" using ilog2_bounds [OF q] by simp
  then have "of_int (2 ^ 52) \<le> q / p2 (ulp_exp q)"
    by (simp add: le_divide_eq p2_add mult.commute) (simp add: p2_def)
  then have "2 ^ 52 \<le> rhe (q / p2 (ulp_exp q))" by (rule rhe_ge)
  then have "(of_int (2 ^ 52) :: rat) \<le> of_int (rhe (q / p2 (ulp_exp q)))"
    by (simp only: of_int_le_iff)
  then have "of_int (2 ^ 52) * p2 (ulp_exp q) \<le> rnd_pos q"
    by (simp add: rnd_pos_def Let_def del: of_int_power)
  then show ?thesis by (simp add: p2_add p2_of_int)
qed

lemma rnd_pos_mono:
  assumes "0 < p" and "p \<le> q"
  shows "rnd_pos p \<le> rnd_pos q"
proof (cases "ulp_exp p = ulp_exp q")
  case True
  from assms have "rhe (p / p2 (ulp_exp q)) \<le> rhe (q / p2 (ulp_exp q))"
    by (intro rhe_mono divide_right_mono) (simp_all add: less_imp_le)
  with True show ?thesis by (simp add: rnd_pos_def Let_def)
next
  case False
  have m: "ulp_exp p \<le> ulp_exp q"
    using ilog2_mono [OF assms] by (simp add: ulp_exp_def)
  with False have lt: "ulp_exp p < ulp_exp q" by simp
  then have q: "ulp_exp q \<noteq> - 1074" by (simp add: ulp_exp_def)
  have "rnd_pos p \<le> p2 (ulp_exp p + 53)" by (rule rnd_pos_upper [OF assms(1)])
  also have "\<dots> \<le> p2 (ulp_exp q + 52)" using lt by (intro p2_mono) simp
  also have "\<dots> \<le> rnd_pos q" using assms by (intro rnd_pos_lower q) simp
  finally show ?thesis .
qed

lemma rnd_rat_0 [simp]: "rnd_rat 0 = 0"
  by (simp add: rnd_rat_def)

lemma rnd_rat_minus: "rnd_rat (- q) = - rnd_rat q"
  by (simp add: rnd_rat_def)

lemma rnd_rat_mono: "p \<le> q \<Longrightarrow> rnd_rat p \<le> rnd_rat q"
  using rnd_pos_mono [of p q] rnd_pos_mono [of "- q" "- p"]
    rnd_pos_nonneg [of q] rnd_pos_nonneg [of "- p"]
  by (auto simp: rnd_rat_def)

text \<open>What a \<open>float64\<close> holds exactly is not changed by rounding.\<close>

definition representable :: "rat \<Rightarrow> bool" where
  "representable r \<longleftrightarrow> (\<exists>m e. r = of_int m * p2 e \<and> \<bar>m\<bar> \<le> 2 ^ 53 \<and> - 1074 \<le> e)"

lemma rnd_pos_exact:
  assumes "0 < r" and r: "r = of_int m * p2 e" and m: "\<bar>m\<bar> \<le> 2 ^ 53" and e: "- 1074 \<le> e"
  shows "rnd_pos r = r"
proof -
  define E where "E = ulp_exp r"
  from assms(1) r have mpos: "0 < m" by (simp add: zero_less_mult_iff)
  have "\<exists>i. r / p2 E = of_int i"
  proof (cases "E \<le> e")
    case True
    have "p2 e = p2 E * p2 (e - E)" by (simp add: p2_add [symmetric])
    then have "r / p2 E = of_int m * p2 (e - E)" by (simp add: r)
    with True have "r / p2 E = of_int (m * 2 ^ nat (e - E))" by (simp add: p2_of_int)
    then show ?thesis by blast
  next
    case False
    with e have E: "E + 52 = ilog2 r" by (simp add: E_def ulp_exp_def max_def split: if_splits)
    have "p2 (E + 52) \<le> of_int m * p2 e"
      using ilog2_bounds [OF assms(1)] by (simp add: E r [symmetric])
    moreover have "p2 (E + 52) = p2 (E - e + 52) * p2 e" by (simp add: p2_add [symmetric])
    ultimately have "p2 (E - e + 52) \<le> of_int m" by simp
    also have "(of_int m :: rat) \<le> of_int (2 ^ 53)" using m mpos by (simp only: of_int_le_iff)
    also have "\<dots> = p2 53" by (simp add: p2_of_int)
    finally have le: "p2 (E - e + 52) \<le> p2 53" .
    then have "E - e + 52 \<le> 53" by (simp only: p2_le_iff)
    with False have 1: "E = e + 1" by simp
    with \<open>p2 (E - e + 52) \<le> of_int m\<close> have "p2 53 \<le> of_int m" by simp
    with \<open>(of_int m :: rat) \<le> of_int (2 ^ 53)\<close> have "(of_int m :: rat) = p2 53"
      by (simp add: p2_of_int)
    then have "r = p2 (E + 52)" by (simp add: r 1 p2_add [symmetric])
    then have "r / p2 E = of_int (2 ^ 52)" by (simp add: p2_add p2_of_int)
    then show ?thesis by blast
  qed
  then obtain i where i: "r / p2 E = of_int i" ..
  have "rnd_pos r = of_int (rhe (r / p2 E)) * p2 E" by (simp add: rnd_pos_def Let_def E_def)
  also have "\<dots> = of_int i * p2 E" by (simp add: i)
  also have "\<dots> = r" using i by (simp add: divide_eq_eq)
  finally show ?thesis .
qed

lemma representable_minus: "representable r \<Longrightarrow> representable (- r)"
proof -
  assume "representable r"
  then obtain m e where "r = of_int m * p2 e" "\<bar>m\<bar> \<le> 2 ^ 53" "- 1074 \<le> e"
    unfolding representable_def by blast
  then have "- r = of_int (- m) * p2 e \<and> \<bar>- m\<bar> \<le> 2 ^ 53 \<and> - 1074 \<le> e" by simp
  then show ?thesis unfolding representable_def by blast
qed

lemma rnd_pos_representable: "0 < r \<Longrightarrow> representable r \<Longrightarrow> rnd_pos r = r"
  unfolding representable_def by (elim exE conjE) (rule rnd_pos_exact)

lemma rnd_rat_exact: "representable r \<Longrightarrow> rnd_rat r = r"
  using rnd_pos_representable [of r] rnd_pos_representable [of "- r"] representable_minus [of r]
  by (simp add: rnd_rat_def)

lemma representable_int: "\<bar>i\<bar> \<le> 2 ^ 53 \<Longrightarrow> representable (of_int i)"
  unfolding representable_def by (rule exI [of _ i], rule exI [of _ 0]) simp

lemma representable_p2: "- 1074 \<le> e \<Longrightarrow> representable (p2 e)"
  unfolding representable_def by (rule exI [of _ 1], rule exI [of _ e]) simp

lemma representable_pow2: "representable (2 ^ n)"
  using representable_p2 [of "int n"] by (simp add: p2_nat)

section \<open>Values and operations\<close>

datatype f64 = Fin rat | PInf | NInf | NaN

definition f64_bound :: rat where
  "f64_bound = 2 ^ 1024"

definition rnd :: "rat \<Rightarrow> f64" where
  "rnd q = (let r = rnd_rat q
     in if 0 < r \<and> 1024 \<le> ilog2 r then PInf
        else if r < 0 \<and> 1024 \<le> ilog2 (- r) then NInf else Fin r)"

lemma ilog2_ge_iff: "0 < r \<Longrightarrow> 0 \<le> e \<Longrightarrow> e \<le> ilog2 r \<longleftrightarrow> p2 e \<le> r"
  using ilog2_bounds [of r] p2_le_iff [of e "ilog2 r"] p2_le_iff [of "ilog2 r + 1" e]
  by linarith

lemma f64_bound_pos [simp]: "0 < f64_bound"
  by (simp only: f64_bound_def zero_less_power zero_less_numeral)

lemma rnd_alt: "rnd q = (let r = rnd_rat q
     in if f64_bound \<le> r then PInf else if r \<le> - f64_bound then NInf else Fin r)"
proof -
  have b: "p2 1024 = f64_bound" using p2_nat [of 1024] by (simp only: f64_bound_def of_nat_numeral)
  have 1: "0 < r \<and> 1024 \<le> ilog2 r \<longleftrightarrow> f64_bound \<le> r" for r
  proof (cases "0 < r")
    case False
    then have "\<not> f64_bound \<le> r" using f64_bound_pos by linarith
    with False show ?thesis by simp
  qed (simp add: ilog2_ge_iff b)
  have 2: "r < 0 \<and> 1024 \<le> ilog2 (- r) \<longleftrightarrow> r \<le> - f64_bound" for r
    using 1 [of "- r"] by auto
  show ?thesis unfolding rnd_def Let_def 1 2 ..
qed

abbreviation f64_of_int :: "int \<Rightarrow> f64" where
  "f64_of_int i \<equiv> rnd (of_int i)"

fun fle :: "f64 \<Rightarrow> f64 \<Rightarrow> bool" where
  "fle NaN b = False"
| "fle a NaN = False"
| "fle NInf b = True"
| "fle a PInf = True"
| "fle (Fin a) (Fin b) = (a \<le> b)"
| "fle (Fin a) NInf = False"
| "fle PInf b = False"

definition flt :: "f64 \<Rightarrow> f64 \<Rightarrow> bool" where
  "flt a b \<longleftrightarrow> fle a b \<and> \<not> fle b a"

definition feq :: "f64 \<Rightarrow> f64 \<Rightarrow> bool" where
  "feq a b \<longleftrightarrow> fle a b \<and> fle b a"

fun fneg :: "f64 \<Rightarrow> f64" where
  "fneg (Fin a) = Fin (- a)"
| "fneg PInf = NInf"
| "fneg NInf = PInf"
| "fneg NaN = NaN"

fun fadd :: "f64 \<Rightarrow> f64 \<Rightarrow> f64" where
  "fadd (Fin a) (Fin b) = rnd (a + b)"
| "fadd NaN b = NaN"
| "fadd a NaN = NaN"
| "fadd PInf NInf = NaN"
| "fadd NInf PInf = NaN"
| "fadd PInf b = PInf"
| "fadd a PInf = PInf"
| "fadd NInf b = NInf"
| "fadd a NInf = NInf"

definition fsub :: "f64 \<Rightarrow> f64 \<Rightarrow> f64" where
  "fsub a b = fadd a (fneg b)"

fun fsgn :: "f64 \<Rightarrow> rat" where
  "fsgn (Fin a) = sgn a"
| "fsgn PInf = 1"
| "fsgn NInf = - 1"
| "fsgn NaN = 0"

definition finf :: "rat \<Rightarrow> f64" where
  "finf s = (if s > 0 then PInf else if s < 0 then NInf else NaN)"

fun fmul :: "f64 \<Rightarrow> f64 \<Rightarrow> f64" where
  "fmul (Fin a) (Fin b) = rnd (a * b)"
| "fmul NaN b = NaN"
| "fmul a NaN = NaN"
| "fmul a b = finf (fsgn a * fsgn b)"

fun fdiv :: "f64 \<Rightarrow> f64 \<Rightarrow> f64" where
  "fdiv (Fin a) (Fin b) = (if b = 0 then finf (sgn a) else rnd (a / b))"
| "fdiv NaN b = NaN"
| "fdiv a NaN = NaN"
| "fdiv (Fin a) b = Fin 0"
| "fdiv PInf (Fin b) = (if b \<ge> 0 then PInf else NInf)"
| "fdiv NInf (Fin b) = (if b \<ge> 0 then NInf else PInf)"
| "fdiv a b = NaN"

text \<open>The conversion to an integer drops the fraction. What Go leaves to the implementation, the
  value for a number the integer type cannot hold, is the parameter \<open>oor\<close>.\<close>

definition trunc_rat :: "rat \<Rightarrow> int" where
  "trunc_rat q = (if 0 \<le> q then \<lfloor>q\<rfloor> else \<lceil>q\<rceil>)"

definition f64_to_i64 :: "(f64 \<Rightarrow> int) \<Rightarrow> f64 \<Rightarrow> int" where
  "f64_to_i64 oor f = (case f of
     Fin q \<Rightarrow> if in_i64 (trunc_rat q) then trunc_rat q else oor f
   | _ \<Rightarrow> oor f)"

lemma fle_refl [simp]: "fle a a \<longleftrightarrow> a \<noteq> NaN"
  by (cases a) auto

lemma fle_NaN [simp]: "\<not> fle a NaN"
  by (cases a) auto

lemma fle_trans: "fle a b \<Longrightarrow> fle b c \<Longrightarrow> fle a c"
  by (cases a; cases b; cases c) auto

lemma fle_linear: "a \<noteq> NaN \<Longrightarrow> b \<noteq> NaN \<Longrightarrow> fle a b \<or> fle b a"
  by (cases a; cases b) auto

lemma flt_iff: "a \<noteq> NaN \<Longrightarrow> b \<noteq> NaN \<Longrightarrow> flt a b \<longleftrightarrow> \<not> fle b a"
  using fle_linear by (auto simp: flt_def)

lemma flt_Fin [simp]: "flt (Fin a) (Fin b) \<longleftrightarrow> a < b"
  by (auto simp: flt_def)

lemma flt_NaN [simp]: "\<not> flt NaN b" "\<not> flt a NaN"
  by (simp_all add: flt_def)

lemma feq_Fin [simp]: "feq (Fin a) (Fin b) \<longleftrightarrow> a = b"
  by (auto simp: feq_def)

lemma rnd_not_NaN [simp]: "rnd q \<noteq> NaN"
  by (simp add: rnd_def Let_def)

lemma rnd_mono: "p \<le> q \<Longrightarrow> fle (rnd p) (rnd q)"
  using rnd_rat_mono [of p q] f64_bound_pos by (auto simp: rnd_alt Let_def)

lemma rnd_exact: "representable r \<Longrightarrow> \<bar>r\<bar> < f64_bound \<Longrightarrow> rnd r = Fin r"
  by (auto simp: rnd_alt Let_def rnd_rat_exact)

lemma small_bound: "\<bar>r\<bar> \<le> 2 ^ 64 \<Longrightarrow> \<bar>r\<bar> < f64_bound"
proof -
  assume "\<bar>r\<bar> \<le> 2 ^ 64"
  also have "(2 :: rat) ^ 64 < 2 ^ 1024" by (rule power_strict_increasing) simp_all
  finally show ?thesis by (simp only: f64_bound_def)
qed

lemma rnd_int_exact: "\<bar>i\<bar> \<le> 2 ^ 53 \<Longrightarrow> f64_of_int i = Fin (of_int i)"
proof -
  assume i: "\<bar>i\<bar> \<le> 2 ^ 53"
  then have "\<bar>i\<bar> \<le> 2 ^ 64" by simp
  then have "(of_int \<bar>i\<bar> :: rat) \<le> of_int (2 ^ 64)" by (simp only: of_int_le_iff)
  then have "\<bar>of_int i :: rat\<bar> \<le> 2 ^ 64" by simp
  with representable_int [OF i] show ?thesis by (intro rnd_exact small_bound)
qed

lemma rnd_0 [simp]: "rnd 0 = Fin 0"
  using rnd_int_exact [of 0] by simp

lemma rnd_1 [simp]: "rnd 1 = Fin 1"
  using rnd_int_exact [of 1] by simp

lemma rnd_numeral: "numeral n \<le> (2 :: int) ^ 53 \<Longrightarrow> rnd (numeral n) = Fin (numeral n)"
  using rnd_int_exact [of "numeral n"] by simp

lemma rnd_between: "rnd a = Fin a \<Longrightarrow> rnd b = Fin b \<Longrightarrow> a \<le> q \<Longrightarrow> q \<le> b \<Longrightarrow>
  \<exists>c. rnd q = Fin c \<and> a \<le> c \<and> c \<le> b"
  using rnd_mono [of a q] rnd_mono [of q b] by (cases "rnd q") auto

lemma rnd_nonneg: "0 \<le> q \<Longrightarrow> fle (Fin 0) (rnd q)"
  using rnd_mono [of 0 q] by simp

lemma rnd_pow2_63: "rnd (2 ^ 63) = Fin (2 ^ 63)" "rnd (- (2 ^ 63)) = Fin (- (2 ^ 63))"
proof -
  have b: "\<bar>2 ^ 63 :: rat\<bar> < f64_bound" "\<bar>- (2 ^ 63) :: rat\<bar> < f64_bound"
    by (rule small_bound, simp)+
  show "rnd (2 ^ 63) = Fin (2 ^ 63)" "rnd (- (2 ^ 63)) = Fin (- (2 ^ 63))"
    by (rule rnd_exact [OF representable_pow2 b(1)],
        rule rnd_exact [OF representable_minus [OF representable_pow2] b(2)])
qed

lemma f64_of_int_finite:
  assumes "in_i64 i"
  shows "\<exists>c. f64_of_int i = Fin c \<and> - (2 ^ 63) \<le> c \<and> c \<le> 2 ^ 63"
proof (rule rnd_between)
  show "rnd (- (2 ^ 63)) = Fin (- (2 ^ 63))" and "rnd (2 ^ 63) = Fin (2 ^ 63)"
    by (rule rnd_pow2_63)+
  from assms have "- (2 ^ 63) \<le> i" and "i \<le> 2 ^ 63" by (simp_all add: in_i64_def)
  then have "of_int (- (2 ^ 63)) \<le> (of_int i :: rat)" and "(of_int i :: rat) \<le> of_int (2 ^ 63)"
    by (simp_all only: of_int_le_iff)
  then show "- (2 ^ 63) \<le> (of_int i :: rat)" and "(of_int i :: rat) \<le> 2 ^ 63" by simp_all
qed

section \<open>Percentages\<close>

text \<open>\<open>float64(used) / float64(total) * 100\<close>, which the alerter, the widget and the templates all
  compute.\<close>

definition pct_of :: "int \<Rightarrow> int \<Rightarrow> f64" where
  "pct_of u t = fmul (fdiv (f64_of_int u) (f64_of_int t)) (Fin 100)"

lemma pct_of_range:
  assumes "0 \<le> u" and "u \<le> t" and "0 < t" and "in_i64 t"
  shows "\<exists>c. pct_of u t = Fin c \<and> 0 \<le> c \<and> c \<le> 100"
proof -
  from assms have "in_i64 u" by (simp add: in_i64_def)
  then obtain a where a: "f64_of_int u = Fin a" using f64_of_int_finite by blast
  from assms obtain b where b: "f64_of_int t = Fin b" using f64_of_int_finite by blast
  from assms have "(1 :: rat) \<le> of_int t" by simp
  then have b1: "1 \<le> b" using rnd_mono [of 1 "of_int t"] b by simp
  from assms have ab: "a \<le> b" using rnd_mono [of "of_int u" "of_int t"] a b by simp
  from assms have a0: "0 \<le> a" using rnd_nonneg [of "of_int u"] a by simp
  from a0 ab b1 have "\<exists>c. rnd (a / b) = Fin c \<and> 0 \<le> c \<and> c \<le> 1"
    by (intro rnd_between) simp_all
  then obtain c where c: "rnd (a / b) = Fin c" "0 \<le> c" "c \<le> 1" by blast
  then have "\<exists>d. rnd (c * 100) = Fin d \<and> 0 \<le> d \<and> d \<le> 100"
    by (intro rnd_between) (simp_all add: rnd_numeral)
  with a b b1 c show ?thesis by (auto simp: pct_of_def)
qed

lemma pct_of_mono:
  assumes "u \<le> v" and "0 < t" and "in_i64 t" and "in_i64 u" and "in_i64 v"
  shows "fle (pct_of u t) (pct_of v t)"
proof -
  obtain a where a: "f64_of_int u = Fin a" "- (2 ^ 63) \<le> a" "a \<le> 2 ^ 63"
    using f64_of_int_finite [OF assms(4)] by blast
  obtain a' where a': "f64_of_int v = Fin a'" "- (2 ^ 63) \<le> a'" "a' \<le> 2 ^ 63"
    using f64_of_int_finite [OF assms(5)] by blast
  obtain b where b: "f64_of_int t = Fin b" using f64_of_int_finite [OF assms(3)] by blast
  from assms have "(1 :: rat) \<le> of_int t" by simp
  then have b1: "1 \<le> b" using rnd_mono [of 1 "of_int t"] b by simp
  have aa: "a \<le> a'" using rnd_mono [of "of_int u" "of_int v"] assms(1) a a' by simp
  have R: "\<exists>c. rnd (x / b) = Fin c" if "- (2 ^ 63) \<le> x" "x \<le> 2 ^ 63" for x
  proof -
    have "- (2 ^ 63) * b \<le> - (2 ^ 63)" and "2 ^ 63 \<le> 2 ^ 63 * b" using b1 by simp_all
    with that have "- (2 ^ 63) \<le> x / b" and "x / b \<le> 2 ^ 63"
      using b1 by (simp_all add: le_divide_eq divide_le_eq)
    with rnd_between [OF rnd_pow2_63(2) rnd_pow2_63(1)] show ?thesis by blast
  qed
  from R a obtain c where c: "rnd (a / b) = Fin c" by blast
  from R a' obtain c' where c': "rnd (a' / b) = Fin c'" by blast
  from aa b1 have "a / b \<le> a' / b" by (simp add: divide_right_mono)
  then have "c \<le> c'" using rnd_mono c c' by fastforce
  then show ?thesis using a a' b b1 c c' by (simp add: pct_of_def rnd_mono)
qed

end
