(* ===== verification/GoString.thy ===== *)
theory GoString
  imports GoFloat "HOL-Library.Char_ord" "HOL-Library.List_Lexorder"
begin

text \<open>
  Go's strings (byte strings: a \<open>char\<close> is a byte), the functions of the packages \<open>strings\<close> and
  \<open>strconv\<close> the program calls, and the verbs \<open>%d\<close> and \<open>%.Nf\<close> of \<open>fmt\<close>. White space and
  lower case are Go's, on the UTF-8 encoding: the white space of Unicode is the list of its byte
  sequences, and lower case maps the letters whose lower case is ASCII (the others, whose lower
  case is never ASCII, are left as they are: the program only compares the result with ASCII text).
\<close>

section \<open>Bytes\<close>

abbreviation byte_of :: "char \<Rightarrow> nat" where
  "byte_of c \<equiv> of_char c"

definition is_digit :: "char \<Rightarrow> bool" where
  "is_digit c \<longleftrightarrow> 48 \<le> byte_of c \<and> byte_of c \<le> 57"

definition nl :: char where
  "nl = CHR 0x0A"

definition lower_byte :: "char \<Rightarrow> char" where
  "lower_byte c = (if 65 \<le> byte_of c \<and> byte_of c \<le> 90 then char_of (byte_of c + 32) else c)"

fun to_lower :: "string \<Rightarrow> string" where
  "to_lower [] = []"
| "to_lower (c # cs) =
     (if c = CHR 0xC4 \<and> take 1 cs = [CHR 0xB0] then CHR ''i'' # to_lower (drop 1 cs)
      else if c = CHR 0xE2 \<and> take 2 cs = [CHR 0x84, CHR 0xAA] then CHR ''k'' # to_lower (drop 2 cs)
      else lower_byte c # to_lower cs)"

definition upper_byte :: "char \<Rightarrow> char" where
  "upper_byte c = (if 97 \<le> byte_of c \<and> byte_of c \<le> 122 then char_of (byte_of c - 32) else c)"

section \<open>Package strings\<close>

definition has_prefix :: "string \<Rightarrow> string \<Rightarrow> bool" where
  "has_prefix s p \<longleftrightarrow> take (length p) s = p"

definition has_suffix :: "string \<Rightarrow> string \<Rightarrow> bool" where
  "has_suffix s p \<longleftrightarrow> length p \<le> length s \<and> drop (length s - length p) s = p"

definition spaces :: "string list" where
  "spaces = [[CHR 0x09], [CHR 0x0A], [CHR 0x0B], [CHR 0x0C], [CHR 0x0D], [CHR 0x20],
     [CHR 0xC2, CHR 0x85], [CHR 0xC2, CHR 0xA0], [CHR 0xE1, CHR 0x9A, CHR 0x80],
     [CHR 0xE2, CHR 0x80, CHR 0x80], [CHR 0xE2, CHR 0x80, CHR 0x81],
     [CHR 0xE2, CHR 0x80, CHR 0x82], [CHR 0xE2, CHR 0x80, CHR 0x83],
     [CHR 0xE2, CHR 0x80, CHR 0x84], [CHR 0xE2, CHR 0x80, CHR 0x85],
     [CHR 0xE2, CHR 0x80, CHR 0x86], [CHR 0xE2, CHR 0x80, CHR 0x87],
     [CHR 0xE2, CHR 0x80, CHR 0x88], [CHR 0xE2, CHR 0x80, CHR 0x89],
     [CHR 0xE2, CHR 0x80, CHR 0x8A], [CHR 0xE2, CHR 0x80, CHR 0xA8],
     [CHR 0xE2, CHR 0x80, CHR 0xA9], [CHR 0xE2, CHR 0x80, CHR 0xAF],
     [CHR 0xE2, CHR 0x81, CHR 0x9F], [CHR 0xE3, CHR 0x80, CHR 0x80]]"

text \<open>The length of the white space a string starts with: one character of it, or none.\<close>

definition space_len :: "string list \<Rightarrow> string \<Rightarrow> nat" where
  "space_len sps s = (case find (has_prefix s) sps of None \<Rightarrow> 0 | Some p \<Rightarrow> length p)"

lemma space_len_le: "space_len sps s \<le> length s"
proof (cases "find (has_prefix s) sps")
  case (Some p)
  then have "has_prefix s p" by (auto simp: find_Some_iff)
  then have "length p \<le> length s" unfolding has_prefix_def by (metis length_take min.cobounded1)
  with Some show ?thesis by (simp add: space_len_def)
qed (simp add: space_len_def)

function trim_left :: "string list \<Rightarrow> string \<Rightarrow> string" where
  "trim_left sps s =
     (if space_len sps s = 0 then s else trim_left sps (drop (space_len sps s) s))"
  by pat_completeness auto
termination
proof (relation "measure (\<lambda>(sps, s). length s)")
  fix sps s assume "space_len sps s \<noteq> 0"
  with space_len_le [of sps s] have "s \<noteq> []" by auto
  with \<open>space_len sps s \<noteq> 0\<close>
  show "((sps, drop (space_len sps s) s), sps, s) \<in> measure (\<lambda>(sps, s). length s)"
    by simp
qed simp

declare trim_left.simps [simp del]

definition trim_space :: "string \<Rightarrow> string" where
  "trim_space s = rev (trim_left (map rev spaces) (rev (trim_left spaces s)))"

text \<open>\<open>strings.Fields\<close>: the maximal pieces without white space.\<close>

function fields_aux :: "string \<Rightarrow> string \<Rightarrow> string list" where
  "fields_aux acc [] = (if acc = [] then [] else [rev acc])"
| "fields_aux acc (c # cs) =
     (let n = space_len spaces (c # cs)
      in if n = 0 then fields_aux (c # acc) cs
         else (if acc = [] then [] else [rev acc]) @ fields_aux [] (drop n (c # cs)))"
  by pat_completeness auto
termination
  by (relation "measure (\<lambda>(acc, s). length s)") (auto simp: Let_def)

definition str_fields :: "string \<Rightarrow> string list" where
  "str_fields s = fields_aux [] s"

fun split_on :: "char \<Rightarrow> string \<Rightarrow> string list" where
  "split_on c [] = [[]]"
| "split_on c (x # xs) =
     (if x = c then [] # split_on c xs
      else (case split_on c xs of [] \<Rightarrow> [[x]] | y # ys \<Rightarrow> (x # y) # ys))"

definition str_cut :: "char \<Rightarrow> string \<Rightarrow> (string \<times> string) option" where
  "str_cut c s = (if c \<in> set s
     then Some (takeWhile (\<lambda>x. x \<noteq> c) s, tl (dropWhile (\<lambda>x. x \<noteq> c) s)) else None)"

text \<open>What follows the last occurrence of a byte (\<open>s[strings.LastIndex(s, c)+1:]\<close>).\<close>

definition after_last :: "char \<Rightarrow> string \<Rightarrow> string option" where
  "after_last c s = (if c \<in> set s then Some (rev (takeWhile (\<lambda>x. x \<noteq> c) (rev s))) else None)"

definition trim_right_byte :: "char \<Rightarrow> string \<Rightarrow> string" where
  "trim_right_byte c s = rev (dropWhile (\<lambda>x. x = c) (rev s))"

fun str_join :: "string \<Rightarrow> string list \<Rightarrow> string" where
  "str_join sep [] = []"
| "str_join sep [x] = x"
| "str_join sep (x # y # xs) = x @ sep @ str_join sep (y # xs)"

definition remove_byte :: "char \<Rightarrow> string \<Rightarrow> string" where
  "remove_byte c s = filter (\<lambda>x. x \<noteq> c) s"

lemma split_on_ne [simp]: "split_on c s \<noteq> []"
  by (cases s) (auto split: list.splits)

lemma split_on_no_sep: "c \<notin> set s \<Longrightarrow> split_on c s = [s]"
  by (induction s) auto

lemma split_on_append: "c \<notin> set a \<Longrightarrow> split_on c (a @ c # s) = a # split_on c s"
  by (induction a) auto

lemma split_on_parts: "p \<in> set (split_on c s) \<Longrightarrow> c \<notin> set p"
proof (induction s arbitrary: p)
  case (Cons x s)
  obtain y ys where e: "split_on c s = y # ys" by (cases "split_on c s") auto
  with Cons show ?case by (cases "x = c") auto
qed simp

lemma split_on_join: "ls \<noteq> [] \<Longrightarrow> (\<forall>l \<in> set ls. c \<notin> set l) \<Longrightarrow> split_on c (str_join [c] ls) = ls"
proof (induction "[c]" ls rule: str_join.induct)
  case (3 x y xs)
  then show ?case by (simp add: split_on_append)
qed (auto simp: split_on_no_sep)

lemma str_cut_append: "c \<notin> set a \<Longrightarrow> str_cut c (a @ c # b) = Some (a, b)"
proof -
  assume "c \<notin> set a"
  then have "takeWhile (\<lambda>x. x \<noteq> c) (a @ c # b) = a" and "dropWhile (\<lambda>x. x \<noteq> c) (a @ c # b) = c # b"
    by (induction a) auto
  then show ?thesis by (simp add: str_cut_def)
qed

lemma has_prefix_append [simp]: "has_prefix (p @ s) p"
  by (simp add: has_prefix_def)

section \<open>Numbers as text\<close>

definition digit_char :: "nat \<Rightarrow> char" where
  "digit_char n = char_of (48 + n)"

fun digits10 :: "nat \<Rightarrow> string" where
  "digits10 n = (if n < 10 then [digit_char n] else digits10 (n div 10) @ [digit_char (n mod 10)])"

declare digits10.simps [simp del]

definition itoa :: "int \<Rightarrow> string" where
  "itoa i = (if i < 0 then CHR ''-'' # digits10 (nat (- i)) else digits10 (nat i))"

text \<open>\<open>strconv.ParseInt(s, base, 64)\<close> (a syntax or range error is \<open>None\<close>).\<close>

definition digit_val :: "nat \<Rightarrow> char \<Rightarrow> nat option" where
  "digit_val base c =
     (let b = byte_of c;
          v = (if 48 \<le> b \<and> b \<le> 57 then Some (b - 48)
               else if 97 \<le> b \<and> b \<le> 122 then Some (b - 87)
               else if 65 \<le> b \<and> b \<le> 90 then Some (b - 55) else None)
      in case v of None \<Rightarrow> None | Some d \<Rightarrow> if d < base then Some d else None)"

fun digits_val :: "nat \<Rightarrow> nat \<Rightarrow> string \<Rightarrow> nat option" where
  "digits_val base acc [] = Some acc"
| "digits_val base acc (c # cs) =
     (case digit_val base c of None \<Rightarrow> None | Some d \<Rightarrow> digits_val base (acc * base + d) cs)"

definition parse_uint :: "nat \<Rightarrow> string \<Rightarrow> nat option" where
  "parse_uint base s = (if s = [] then None else digits_val base 0 s)"

definition parse_int :: "nat \<Rightarrow> string \<Rightarrow> int option" where
  "parse_int base s =
     (let neg = take 1 s = ''-''; rest = (if neg \<or> take 1 s = ''+'' then drop 1 s else s)
      in case parse_uint base rest of None \<Rightarrow> None
         | Some n \<Rightarrow> (let i = (if neg then - int n else int n) in if in_i64 i then Some i else None))"

abbreviation atoi :: "string \<Rightarrow> int option" where
  "atoi \<equiv> parse_int 10"

text \<open>\<open>%.Nf\<close>: the exact value rounded to \<open>N\<close> decimals.\<close>

definition pad_left :: "nat \<Rightarrow> string \<Rightarrow> string" where
  "pad_left w s = replicate (w - length s) (CHR ''0'') @ s"

definition fmt_fixed :: "nat \<Rightarrow> f64 \<Rightarrow> string" where
  "fmt_fixed d f = (case f of
     Fin q \<Rightarrow> (let v = nat (rhe (\<bar>q\<bar> * 10 ^ d));
                body = digits10 (v div 10 ^ d) @
                  (if d = 0 then [] else CHR ''.'' # pad_left d (digits10 (v mod 10 ^ d)))
            in if q < 0 then CHR ''-'' # body else body)
   | PInf \<Rightarrow> ''+Inf'' | NInf \<Rightarrow> ''-Inf'' | NaN \<Rightarrow> ''NaN'')"

lemma byte_digit_char: "n < 10 \<Longrightarrow> byte_of (digit_char n) = 48 + n"
  by (simp add: digit_char_def)

lemma is_digit_digit_char [simp]: "n < 10 \<Longrightarrow> is_digit (digit_char n)"
  by (simp add: is_digit_def byte_digit_char)

lemma digits10_digits: "c \<in> set (digits10 n) \<Longrightarrow> is_digit c"
proof (induction n rule: digits10.induct)
  case (1 n)
  then show ?case by (subst (asm) digits10.simps) (auto split: if_splits)
qed

lemma digits10_ne [simp]: "digits10 n \<noteq> []"
  by (subst digits10.simps) simp

lemma digits_val_append:
  "digits_val b acc (xs @ ys) =
     (case digits_val b acc xs of None \<Rightarrow> None | Some a \<Rightarrow> digits_val b a ys)"
  by (induction xs arbitrary: acc) (auto split: option.splits)

lemma digit_val_digit_char: "n < 10 \<Longrightarrow> digit_val 10 (digit_char n) = Some n"
  by (simp add: digit_val_def byte_digit_char)

lemma digits_val_digits10: "digits_val 10 0 (digits10 n) = Some n"
proof (induction n rule: digits10.induct)
  case (1 n)
  show ?case
  proof (cases "n < 10")
    case True
    then show ?thesis by (subst digits10.simps) (simp add: digit_val_digit_char)
  next
    case False
    with "1.IH" show ?thesis
      by (subst digits10.simps) (simp add: digits_val_append digit_val_digit_char)
  qed
qed

lemma digit_not_sign: "is_digit c \<Longrightarrow> c \<noteq> CHR ''-'' \<and> c \<noteq> CHR ''+''"
  by (auto simp: is_digit_def)

lemma digits10_hd: "digits10 n = c # cs \<Longrightarrow> is_digit c"
  using digits10_digits [of c n] by simp

lemma atoi_itoa: "in_i64 i \<Longrightarrow> atoi (itoa i) = Some i"
proof -
  assume i: "in_i64 i"
  obtain c cs where d: "digits10 (nat i) = c # cs" by (cases "digits10 (nat i)") auto
  then have c: "c \<noteq> CHR ''-''" "c \<noteq> CHR ''+''"
    using digit_not_sign [OF digits10_hd [OF d]] by auto
  show ?thesis
  proof (cases "i < 0")
    case True
    then show ?thesis
      using i digits_val_digits10 [of "nat (- i)"]
      by (simp add: itoa_def parse_int_def parse_uint_def Let_def)
  next
    case False
    then show ?thesis
      using i c digits_val_digits10 [of "nat i"]
      by (simp add: itoa_def parse_int_def parse_uint_def Let_def d)
  qed
qed

lemma itoa_inj: "itoa i = itoa j \<Longrightarrow> i = j"
proof -
  have val: "digits10 m = digits10 n \<Longrightarrow> m = n" for m n
    by (metis digits_val_digits10 option.inject)
  have sgn: "digits10 m \<noteq> CHR ''-'' # digits10 n" for m n
    using digits10_hd [of m "CHR ''-''"] digit_not_sign by blast
  assume e: "itoa i = itoa j"
  consider "i < 0" "j < 0" | "0 \<le> i" "0 \<le> j" | "i < 0" "0 \<le> j" | "0 \<le> i" "j < 0"
    by linarith
  then show "i = j"
  proof cases
    case 1
    with e have "nat (- i) = nat (- j)" by (intro val) (simp add: itoa_def)
    with 1 show ?thesis by simp
  next
    case 2
    with e have "nat i = nat j" by (intro val) (simp add: itoa_def)
    with 2 show ?thesis by simp
  next
    case 3
    with e sgn [of "nat j" "nat (- i)"] show ?thesis by (simp add: itoa_def)
  next
    case 4
    with e sgn [of "nat i" "nat (- j)"] show ?thesis by (simp add: itoa_def)
  qed
qed

section \<open>Trimming\<close>

definition printable :: "char \<Rightarrow> bool" where
  "printable c \<longleftrightarrow> 33 \<le> byte_of c \<and> byte_of c \<le> 126"

lemma printable_digit: "is_digit c \<Longrightarrow> printable c"
  by (simp add: printable_def is_digit_def)

lemma space_len_printable:
  assumes "printable c"
  shows "space_len spaces (c # s) = 0" and "space_len (map rev spaces) (c # s) = 0"
proof -
  have "\<forall>p \<in> set spaces. c \<notin> set p"
    using assms by (auto simp: spaces_def printable_def)
  then have "\<forall>p \<in> set spaces. \<not> has_prefix (c # s) p" and "\<forall>p \<in> set spaces. \<not> has_prefix (c # s) (rev p)"
    by (auto simp: has_prefix_def spaces_def)
  then show "space_len spaces (c # s) = 0" and "space_len (map rev spaces) (c # s) = 0"
    by (auto simp: space_len_def find_None_iff[THEN iffD2])
qed

lemma trim_left_printable:
  "printable c \<Longrightarrow> trim_left spaces (c # s) = c # s"
  "printable c \<Longrightarrow> trim_left (map rev spaces) (c # s) = c # s"
  by (subst trim_left.simps, simp add: space_len_printable)+

lemma trim_space_id: "s \<noteq> [] \<Longrightarrow> printable (hd s) \<Longrightarrow> printable (last s) \<Longrightarrow> trim_space s = s"
proof -
  assume s: "s \<noteq> []" "printable (hd s)" "printable (last s)"
  then have l: "trim_left spaces s = s" by (cases s) (simp_all add: trim_left_printable)
  from s have "rev s \<noteq> []" "printable (hd (rev s))" by (simp_all add: hd_rev)
  then have "trim_left (map rev spaces) (rev s) = rev s"
    by (cases "rev s") (simp_all add: trim_left_printable)
  with l show ?thesis by (simp add: trim_space_def)
qed

lemma space_len_blank: "space_len spaces (CHR '' '' # s) = 1"
  by (simp add: space_len_def spaces_def has_prefix_def)

lemma trim_left_pad: "trim_left spaces (replicate k (CHR '' '') @ s) = trim_left spaces s"
proof (induction k)
  case (Suc k)
  have "trim_left spaces (CHR '' '' # t) = trim_left spaces t" for t
    by (subst trim_left.simps) (simp add: space_len_blank)
  with Suc show ?case by simp
qed simp

lemma trim_space_pad: "trim_space (replicate k (CHR '' '') @ s) = trim_space s"
  by (simp add: trim_space_def trim_left_pad)

text \<open>What is trimmed consists of bytes of white-space characters.\<close>

lemma trim_left_removes:
  "\<exists>t. s = t @ trim_left sps s \<and> set t \<subseteq> \<Union> (set ` set sps)"
proof (induction sps s rule: trim_left.induct)
  case (1 sps s)
  show ?case
  proof (cases "space_len sps s = 0")
    case True
    then show ?thesis by (intro exI [of _ "[]"]) (simp add: trim_left.simps)
  next
    case False
    then obtain p where p: "find (has_prefix s) sps = Some p" and n: "space_len sps s = length p"
      by (auto simp: space_len_def split: option.splits)
    from p have "has_prefix s p" and "p \<in> set sps" by (auto simp: find_Some_iff)
    then have s: "s = p @ drop (length p) s"
      unfolding has_prefix_def by (metis append_take_drop_id)
    from "1.IH" [OF False] obtain t where
      t: "drop (length p) s = t @ trim_left sps (drop (length p) s)" "set t \<subseteq> \<Union> (set ` set sps)"
      by (auto simp: n)
    have "s = (p @ t) @ trim_left sps s"
      using s t(1) False by (subst trim_left.simps) (simp add: n)
    moreover have "set (p @ t) \<subseteq> \<Union> (set ` set sps)" using t(2) \<open>p \<in> set sps\<close> by auto
    ultimately show ?thesis by blast
  qed
qed

lemma space_bytes_no_digit: "c \<in> \<Union> (set ` set spaces) \<Longrightarrow> \<not> printable c"
  by (auto simp: spaces_def printable_def)

lemma takeWhile_append_none: "\<forall>x \<in> set t. \<not> P x \<Longrightarrow> takeWhile P (k @ t) = takeWhile P k"
proof (induction k)
  case Nil
  then show ?case by (cases t) simp_all
qed simp

lemma trim_space_digits:
  assumes "ds \<noteq> []" and "list_all is_digit ds" and "rest = [] \<or> \<not> is_digit (hd rest)"
  shows "takeWhile is_digit (trim_space (ds @ rest)) = ds"
proof -
  obtain c cs where c: "ds = c # cs" using assms(1) by (cases ds) auto
  with assms(2) have "printable c" by (simp add: printable_digit)
  then have l: "trim_left spaces (ds @ rest) = ds @ rest" by (simp add: c trim_left_printable)
  obtain t where t: "rev (ds @ rest) = t @ trim_left (map rev spaces) (rev (ds @ rest))"
    "set t \<subseteq> \<Union> (set ` set (map rev spaces))"
    using trim_left_removes by blast
  define kept where "kept = trim_space (ds @ rest)"
  have "kept = rev (trim_left (map rev spaces) (rev (ds @ rest)))"
    by (simp only: kept_def trim_space_def l)
  then have k: "ds @ rest = kept @ rev t"
    using arg_cong [OF t(1), of rev] by (simp only: rev_append rev_rev_ident)
  have nt: "\<forall>x \<in> set t. \<not> is_digit x"
    using t(2) space_bytes_no_digit printable_digit by fastforce
  have tw: "takeWhile is_digit (ds @ rest) = ds"
    using assms by (cases rest) (auto simp: list_all_iff takeWhile_append)
  have "takeWhile is_digit (kept @ rev t) = takeWhile is_digit kept"
    using nt by (intro takeWhile_append_none) simp
  with tw k have "takeWhile is_digit kept = ds" by metis
  then show ?thesis by (simp only: kept_def)
qed

lemma digits10_all: "list_all is_digit (digits10 n)"
  using digits10_digits by (auto simp: list_all_iff)

section \<open>Escaping in URLs\<close>

definition hex_digit :: "nat \<Rightarrow> char" where
  "hex_digit n = (if n < 10 then char_of (48 + n) else char_of (55 + n))"

definition unreserved :: "char \<Rightarrow> bool" where
  "unreserved c \<longleftrightarrow> is_digit c \<or> 65 \<le> byte_of c \<and> byte_of c \<le> 90 \<or> 97 \<le> byte_of c \<and> byte_of c \<le> 122 \<or>
     c \<in> set ''-_.~''"

end
