(* ===== verification/GoTime.thy ===== *)
theory GoTime
  imports GoString
begin

text \<open>
  Go's \<open>time\<close>: an instant is its number of nanoseconds since the Unix epoch, a \<open>Duration\<close> a
  number of nanoseconds in an \<open>int64\<close>. \<open>Sub\<close> saturates, \<open>Unix\<close> rounds down, \<open>time.Unix\<close> wraps
  for seconds no instant can hold, and \<open>Hours\<close>, \<open>Minutes\<close> and \<open>Seconds\<close> are computed in
  \<open>float64\<close> from the whole and the remaining nanoseconds, as the package does.
\<close>

type_synonym gotime = int
type_synonym duration = int

abbreviation second :: duration where "second \<equiv> 1000000000"
abbreviation minute :: duration where "minute \<equiv> 60000000000"
abbreviation hour :: duration where "hour \<equiv> 3600000000000"

definition zero_time :: gotime where
  "zero_time = - 62135596800 * second"

definition time_sub :: "gotime \<Rightarrow> gotime \<Rightarrow> duration" where
  "time_sub t u = (let d = t - u in if d < min_i64 then min_i64 else if d > max_i64 then max_i64 else d)"

definition time_of_unix :: "int \<Rightarrow> gotime" where
  "time_of_unix s = (wrap64 (s + 62135596800) - 62135596800) * second"

definition unix_of_time :: "gotime \<Rightarrow> int" where
  "unix_of_time t = t div second"

definition dur_in :: "duration \<Rightarrow> duration \<Rightarrow> f64" where
  "dur_in u d = fadd (f64_of_int (d sdiv u)) (fdiv (f64_of_int (d smod u)) (Fin (of_int u)))"

definition dur_hours :: "duration \<Rightarrow> f64" where
  "dur_hours d = dur_in hour d"

definition dur_minutes :: "duration \<Rightarrow> f64" where
  "dur_minutes d = dur_in minute d"

definition dur_seconds :: "duration \<Rightarrow> f64" where
  "dur_seconds d = dur_in second d"

lemma in_i64_time_sub [simp]: "in_i64 (time_sub t u)"
  by (simp add: time_sub_def in_i64_alt Let_def min_i64_def max_i64_def)

lemma time_sub_exact: "in_i64 (t - u) \<Longrightarrow> time_sub t u = t - u"
  by (simp add: time_sub_def in_i64_alt Let_def)

lemma time_sub_less: "in_i64 c \<Longrightarrow> c \<le> max_i64 \<Longrightarrow> min_i64 < c \<Longrightarrow> time_sub t u < c \<longleftrightarrow> t - u < c"
  by (auto simp: time_sub_def in_i64_alt Let_def)

lemma time_sub_ge: "in_i64 c \<Longrightarrow> min_i64 < c \<Longrightarrow> c \<le> time_sub t u \<longleftrightarrow> c \<le> t - u"
  by (auto simp: time_sub_def in_i64_alt Let_def)

lemma time_sub_gt: "in_i64 c \<Longrightarrow> c < max_i64 \<Longrightarrow> c < time_sub t u \<longleftrightarrow> c < t - u"
  by (auto simp: time_sub_def in_i64_alt Let_def)

lemma time_sub_mono: "t \<le> t' \<Longrightarrow> time_sub t u \<le> time_sub t' u"
  by (auto simp: time_sub_def Let_def min_i64_def max_i64_def)

lemma unix_of_time_of_unix: "in_i64 (s + 62135596800) \<Longrightarrow> unix_of_time (time_of_unix s) = s"
  by (simp add: unix_of_time_def time_of_unix_def)

subsection \<open>A longer duration has no fewer hours\<close>

lemma dur_in_parts:
  assumes "0 \<le> d" and "in_i64 d" and u: "second \<le> u" "u \<le> 2 ^ 53"
  shows "\<exists>c. rnd (of_int (d mod u) / of_int u) = Fin c \<and> 0 \<le> c \<and> c \<le> 1 \<and>
    dur_in u d = rnd (of_int (d div u) + c)"
proof -
  from u have u0: "0 < u" by simp
  have m: "0 \<le> d mod u" "d mod u < u" using u0 by simp_all
  from assms have "d < 2 ^ 63" by (simp add: in_i64_def)
  also have "(2 :: int) ^ 63 \<le> 2 ^ 53 * u" using u by simp
  finally have "d div u < 2 ^ 53" using u0 by (intro div_less_int) simp_all
  then have q: "f64_of_int (d div u) = Fin (of_int (d div u))"
    using assms u0 by (intro rnd_int_exact) (simp add: pos_imp_zdiv_nonneg_iff)
  have r: "f64_of_int (d mod u) = Fin (of_int (d mod u))"
    by (rule rnd_int_exact) (use m u in linarith)
  have "of_int (d mod u) \<le> (of_int u :: rat)" unfolding of_int_le_iff using m(2) by linarith
  then have "\<exists>c. rnd (of_int (d mod u) / of_int u) = Fin c \<and> 0 \<le> c \<and> c \<le> 1"
    using m(1) u0 by (intro rnd_between) (simp_all add: divide_le_eq)
  moreover have "d sdiv u = d div u" "d smod u = d mod u"
    using sdiv_nonneg [OF assms(1) u0] by simp_all
  ultimately show ?thesis using q r u0 by (auto simp: dur_in_def)
qed

lemma dur_in_mono_nonneg:
  assumes "0 \<le> a" and "a \<le> b" and "in_i64 b" and u: "second \<le> u" "u \<le> 2 ^ 53"
  shows "fle (dur_in u a) (dur_in u b)"
proof -
  have u0: "0 < u" using u by simp
  have "in_i64 a" using assms by (simp add: in_i64_def)
  from dur_in_parts [OF assms(1) this u] obtain c where
    c: "rnd (of_int (a mod u) / of_int u) = Fin c" "0 \<le> c" "c \<le> 1"
       "dur_in u a = rnd (of_int (a div u) + c)" by blast
  from assms have "0 \<le> b" by simp
  from dur_in_parts [OF this assms(3) u] obtain c' where
    c': "rnd (of_int (b mod u) / of_int u) = Fin c'" "0 \<le> c'" "c' \<le> 1"
       "dur_in u b = rnd (of_int (b div u) + c')" by blast
  have "a div u \<le> b div u" using assms u0 by (simp add: zdiv_mono1)
  have "of_int (a div u) + c \<le> of_int (b div u) + c'"
  proof (cases "a div u = b div u")
    case True
    then have "a mod u \<le> b mod u" using assms(2) by (simp add: minus_div_mult_eq_mod [symmetric])
    then have "(of_int (a mod u) :: rat) / of_int u \<le> of_int (b mod u) / of_int u"
      using u0 by (simp add: divide_right_mono)
    then have "c \<le> c'" using rnd_mono c(1) c'(1) by fastforce
    with True show ?thesis by simp
  next
    case False
    with \<open>a div u \<le> b div u\<close> have "a div u + 1 \<le> b div u" by simp
    then have "(of_int (a div u + 1) :: rat) \<le> of_int (b div u)" by (simp only: of_int_le_iff)
    with c(3) c'(2) show ?thesis by simp
  qed
  then show ?thesis by (simp add: c(4) c'(4) rnd_mono)
qed

lemma dur_in_neg:
  assumes "a < 0" and "in_i64 a" and u: "second \<le> u" "u \<le> 2 ^ 53"
  shows "fle (dur_in u a) (Fin 0)"
proof -
  have u0: "0 < u" using u by simp
  let ?q = "(- a) div u" and ?r = "(- a) mod u"
  have r: "0 \<le> ?r" "?r < u" using u0 by simp_all
  have q: "0 \<le> ?q" using assms u0 by (simp add: pos_imp_zdiv_nonneg_iff)
  have "a sdiv u = - ?q" "a smod u = - ?r"
    using sdiv_neg [OF assms(1) u0] by simp_all
  moreover have "f64_of_int (- ?r) = Fin (of_int (- ?r))"
    by (rule rnd_int_exact) (use r u in linarith)
  moreover have "\<exists>c. f64_of_int (- ?q) = Fin c \<and> c \<le> 0"
  proof -
    have "?q \<le> - a" using zdiv_mono2 [of "- a" 1 u] assms(1) u0 by simp
    with q assms have "in_i64 (- ?q)" by (simp add: in_i64_def)
    then obtain c where c: "f64_of_int (- ?q) = Fin c" using f64_of_int_finite by blast
    have "(of_int (- ?q) :: rat) \<le> 0" using q by simp
    from rnd_mono [OF this] have "c \<le> 0" by (simp only: c rnd_0 fle.simps)
    with c show ?thesis by blast
  qed
  moreover have "\<exists>c. rnd (of_int (- ?r) / of_int u) = Fin c \<and> - 1 \<le> c \<and> c \<le> 0"
  proof (rule rnd_between)
    show "rnd (- 1) = Fin (- 1)" using rnd_int_exact [of "- 1"] by simp
    have "(of_int ?r :: rat) \<le> of_int u" unfolding of_int_le_iff using r(2) by linarith
    then show "- 1 \<le> (of_int (- ?r) :: rat) / of_int u" using u0 by (simp add: divide_le_eq)
    show "(of_int (- ?r) :: rat) / of_int u \<le> 0" using r u0 by (simp add: divide_le_0_iff)
  qed simp
  ultimately show ?thesis
    using u0 rnd_mono [of _ 0] by (auto simp: dur_in_def)
qed

lemma dur_hours_mono:
  assumes "a \<le> b" and "0 \<le> b" and "in_i64 a" and "in_i64 b"
  shows "fle (dur_hours a) (dur_hours b)"
proof (cases "0 \<le> a")
  case True
  with assms show ?thesis by (simp add: dur_hours_def dur_in_mono_nonneg)
next
  case False
  with assms have "fle (dur_hours a) (Fin 0)" by (simp add: dur_hours_def dur_in_neg)
  moreover have "dur_hours 0 = Fin 0" by (simp add: dur_hours_def dur_in_def)
  then have "fle (Fin 0) (dur_hours b)"
    using assms dur_in_mono_nonneg [of 0 b hour] by (simp add: dur_hours_def)
  ultimately show ?thesis by (rule fle_trans)
qed

end
