(* ===== verification/Domain.thy ===== *)
theory Domain
  imports GoTime
begin

text \<open>
  The domain types of \<open>internal/model/model.go\<close>, field by field. A pointer that may be nil is an
  \<open>option\<close>; \<open>int\<close> and \<open>int64\<close> are \<open>int\<close>; \<open>float64\<close> is \<open>f64\<close>; a \<open>time.Time\<close> is an instant of
  \<open>GoTime\<close>.
\<close>

record cpu_info =
  ci_model :: string
  ci_cores :: int
  ci_threads :: int
  ci_sockets :: int

record usage =
  us_used :: int
  us_total :: int

record node =
  n_instance :: string
  n_name :: string
  n_status :: string
  n_cpu :: f64
  n_cpuinfo :: cpu_info
  n_memory :: usage
  n_swap :: usage
  n_rootfs :: usage
  n_load :: "f64 \<times> f64 \<times> f64"
  n_uptime :: int
  n_iowait :: f64
  n_pveversion :: string
  n_kernel :: string
  n_temperature :: "f64 option"

record guest =
  g_instance :: string
  g_node :: string
  g_cluster :: string
  g_type :: string
  g_vmid :: int
  g_name :: string
  g_status :: string
  g_cpu :: f64
  g_cpus :: int
  g_mem :: int
  g_maxmem :: int
  g_disk :: int
  g_maxdisk :: int
  g_netin :: int
  g_netout :: int
  g_uptime :: int

text \<open>The SMART status bit field.\<close>

definition StatusPassed :: int where "StatusPassed = 0"
definition StatusFailedSmart :: int where "StatusFailedSmart = 1"
definition StatusWarnScrutiny :: int where "StatusWarnScrutiny = 2"
definition StatusFailedScrutiny :: int where "StatusFailedScrutiny = 4"
definition StatusUnknown :: int where "StatusUnknown = 8"
definition StatusInternalError :: int where "StatusInternalError = 16"

lemmas status_defs = StatusPassed_def StatusFailedSmart_def StatusWarnScrutiny_def
  StatusFailedScrutiny_def StatusUnknown_def StatusInternalError_def

record smart_attr =
  a_id :: int
  a_name :: string
  a_value :: int
  a_worst :: int
  a_threshold :: int
  a_raw :: int
  a_rawstr :: string
  a_status :: int
  a_rate :: "f64 option"

definition zero_attr :: smart_attr where
  "zero_attr = \<lparr>a_id = 0, a_name = [], a_value = 0, a_worst = 0, a_threshold = 0, a_raw = 0,
     a_rawstr = [], a_status = 0, a_rate = None\<rparr>"

record disk =
  d_instance :: string
  d_node :: string
  d_wwn :: string
  d_devpath :: string
  d_model :: string
  d_serial :: string
  d_type :: string
  d_protocol :: string
  d_size :: int
  d_health :: string
  d_status :: int
  d_temperature :: "int option"
  d_poweron :: "int option"
  d_wearout :: "int option"
  d_attrs :: "smart_attr list"
  d_firstseen :: gotime
  d_lastseen :: gotime

definition zero_disk :: disk where
  "zero_disk = \<lparr>d_instance = [], d_node = [], d_wwn = [], d_devpath = [], d_model = [],
     d_serial = [], d_type = [], d_protocol = [], d_size = 0, d_health = [], d_status = 0,
     d_temperature = None, d_poweron = None, d_wearout = None, d_attrs = [],
     d_firstseen = zero_time, d_lastseen = zero_time\<rparr>"

record backup =
  b_instance :: string
  b_datastore :: string
  b_type :: string
  b_id :: string
  b_time :: int
  b_size :: "int option"
  b_verified :: "bool option"

record pbs_task =
  t_instance :: string
  t_upid :: string
  t_type :: string
  t_id :: string
  t_start :: int
  t_end :: "int option"
  t_status :: string
  t_user :: string

record datastore_status =
  ds_instance :: string
  ds_name :: string
  ds_total :: "int option"
  ds_used :: "int option"
  ds_avail :: "int option"
  ds_dedup :: "f64 option"
  ds_estfull :: "int option"
  ds_error :: "string option"

record node_snapshot =
  ns_ts :: int
  ns_instance :: string
  ns_node :: string
  ns_cpu :: f64
  ns_memused :: int
  ns_memtotal :: int
  ns_swapused :: int
  ns_swaptotal :: int
  ns_rootused :: int
  ns_roottotal :: int
  ns_load1 :: f64
  ns_load5 :: f64
  ns_load15 :: f64
  ns_iowait :: f64
  ns_uptime :: int
  ns_cputemp :: "f64 option"

record guest_snapshot =
  gs_ts :: int
  gs_instance :: string
  gs_vmid :: int
  gs_node :: string
  gs_cluster :: string
  gs_type :: string
  gs_name :: string
  gs_status :: string
  gs_cpu :: f64
  gs_cpus :: int
  gs_memused :: int
  gs_memtotal :: int
  gs_diskused :: int
  gs_disktotal :: int
  gs_netin :: int
  gs_netout :: int

record sparkline_point =
  sp_ts :: int
  sp_value :: f64

record notification =
  nt_type :: string
  nt_severity :: string
  nt_title :: string
  nt_message :: string
  nt_instance :: string
  nt_subject :: string
  nt_timestamp :: gotime
  nt_resolved :: bool
  nt_metadata :: "(string, string) gomap"

end
