(* ===== verification/SmartTable.thy ===== *)
theory SmartTable
  imports Domain
begin

text \<open>
  SMART assessment: \<open>internal/smart/thresholds.go\<close> (the failure-rate table, the critical
  attributes, the bucket search) and \<open>internal/smart/evaluate.go\<close> (the verdict on one attribute and
  on a disk). A function that writes through a pointer returns the written value with its result.
\<close>

section \<open>thresholds.go\<close>

record bucket =
  bk_low :: int
  bk_high :: int
  bk_rate :: f64

record attr_threshold =
  at_id :: int
  at_name :: string
  at_buckets :: "bucket list"

definition bkt :: "int \<Rightarrow> int \<Rightarrow> rat \<Rightarrow> bucket" where
  "bkt lo hi rate = \<lparr>bk_low = lo, bk_high = hi, bk_rate = rnd rate\<rparr>"

definition bucket_top :: int where
  "bucket_top = 2 ^ 62 - 1"

definition athr :: "int \<Rightarrow> string \<Rightarrow> bucket list \<Rightarrow> int \<times> attr_threshold" where
  "athr i nm bs = (i, \<lparr>at_id = i, at_name = nm, at_buckets = bs\<rparr>)"

definition thresholdTable :: "(int, attr_threshold) gomap" where
  "thresholdTable =
    [athr 5 ''Reallocated Sectors Count''
       [bkt 0 0 0.025, bkt 1 4 0.027, bkt 4 16 0.075, bkt 16 70 0.236, bkt 70 bucket_top 0.50],
     athr 10 ''Spin Retry Count''
       [bkt 0 0 0.025, bkt 1 3 0.15, bkt 3 bucket_top 0.35],
     athr 187 ''Reported Uncorrectable Errors''
       [bkt 0 0 0.015, bkt 1 10 0.05, bkt 10 50 0.15, bkt 50 bucket_top 0.40],
     athr 188 ''Command Timeout''
       [bkt 0 0 0.015, bkt 1 100 0.03, bkt 100 1000 0.08, bkt 1000 bucket_top 0.20],
     athr 196 ''Reallocate Event Count''
       [bkt 0 0 0.025, bkt 1 5 0.05, bkt 5 bucket_top 0.25],
     athr 197 ''Current Pending Sector Count''
       [bkt 0 0 0.025, bkt 1 5 0.10, bkt 5 bucket_top 0.35],
     athr 198 ''Offline Uncorrectable Sector Count''
       [bkt 0 0 0.025, bkt 1 5 0.10, bkt 5 bucket_top 0.35],
     athr 1 ''Read Error Rate''
       [bkt 0 0 0.02, bkt 1 1000 0.03, bkt 1000 100000 0.08, bkt 100000 bucket_top 0.15],
     athr 9 ''Power-On Hours''
       [bkt 0 10000 0.02, bkt 10000 20000 0.025, bkt 20000 40000 0.03, bkt 40000 bucket_top 0.06],
     athr 194 ''Temperature''
       [bkt 0 35 0.02, bkt 35 45 0.025, bkt 45 55 0.05, bkt 55 bucket_top 0.12],
     athr 199 ''UDMA CRC Error Count''
       [bkt 0 0 0.025, bkt 1 100 0.03, bkt 100 bucket_top 0.10],
     athr 200 ''Multi-Zone Error Rate''
       [bkt 0 0 0.02, bkt 1 100 0.05, bkt 100 bucket_top 0.15]]"

definition criticalAttributes :: "(int, bool) gomap" where
  "criticalAttributes = [(5, True), (10, True), (187, True), (188, True), (196, True),
     (197, True), (198, True)]"

definition IsCritical :: "int \<Rightarrow> bool" where
  "IsCritical i = (gm_get criticalAttributes i = Some True)"

definition LookupThreshold :: "int \<Rightarrow> attr_threshold option" where
  "LookupThreshold i = gm_get thresholdTable i"

fun find_bucket_in :: "bucket list \<Rightarrow> int \<Rightarrow> bucket option" where
  "find_bucket_in [] raw = None"
| "find_bucket_in (b # bs) raw =
     (if raw \<ge> bk_low b \<and> raw \<le> bk_high b then Some b else find_bucket_in bs raw)"

definition FindBucket :: "attr_threshold \<Rightarrow> int \<Rightarrow> bucket option" where
  "FindBucket t raw = find_bucket_in (at_buckets t) raw"

section \<open>evaluate.go\<close>

definition EvaluateAttribute :: "smart_attr \<Rightarrow> string \<Rightarrow> smart_attr \<times> int" where
  "EvaluateAttribute attr protocol =
     (if a_threshold attr > 0 \<and> a_value attr > 0 \<and> a_value attr \<le> a_threshold attr
      then (attr\<lparr>a_status := StatusFailedSmart\<rparr>, StatusFailedSmart)
      else case LookupThreshold (a_id attr) of
        None \<Rightarrow> (attr\<lparr>a_status := StatusPassed\<rparr>, StatusPassed)
      | Some thresh \<Rightarrow>
          (case FindBucket thresh (a_raw attr) of
             Some bucket \<Rightarrow>
               (let rate = bk_rate bucket; attr = attr\<lparr>a_rate := Some rate\<rparr>
                in if IsCritical (a_id attr) then
                     if fle (rnd 0.10) rate
                     then (attr\<lparr>a_status := StatusFailedScrutiny\<rparr>, StatusFailedScrutiny)
                     else (attr\<lparr>a_status := StatusPassed\<rparr>, StatusPassed)
                   else if fle (rnd 0.20) rate
                     then (attr\<lparr>a_status := StatusFailedScrutiny\<rparr>, StatusFailedScrutiny)
                   else if fle (rnd 0.10) rate
                     then (attr\<lparr>a_status := StatusWarnScrutiny\<rparr>, StatusWarnScrutiny)
                   else (attr\<lparr>a_status := StatusPassed\<rparr>, StatusPassed))
           | None \<Rightarrow>
               if IsCritical (a_id attr)
               then (attr\<lparr>a_status := StatusWarnScrutiny\<rparr>, StatusWarnScrutiny)
               else (attr\<lparr>a_status := StatusPassed\<rparr>, StatusPassed)))"

fun evaluate_attrs :: "smart_attr list \<Rightarrow> string \<Rightarrow> int \<Rightarrow> smart_attr list \<times> int" where
  "evaluate_attrs [] protocol status = ([], status)"
| "evaluate_attrs (a # as) protocol status =
     (let (a', s) = EvaluateAttribute a protocol;
          (as', status') = evaluate_attrs as protocol (status OR s)
      in (a' # as', status'))"

definition EvaluateDisk :: "disk \<Rightarrow> disk \<times> int" where
  "EvaluateDisk d =
     (let (as', status) = evaluate_attrs (d_attrs d) (d_protocol d) StatusPassed
      in (d\<lparr>d_attrs := as', d_status := status\<rparr>, status))"

section \<open>What a verdict depends on\<close>

text \<open>The comparisons of the failure rates with the two limits follow the decimal numbers the code
  writes, although both sides are rounded to \<open>float64\<close>.\<close>

lemma rate_ge_10: "1 / 10 \<le> r \<Longrightarrow> fle (rnd (1 / 10)) (rnd r)"
  by (rule rnd_mono)

lemma rate_lt_10: "r \<le> 9 / 100 \<Longrightarrow> \<not> fle (rnd (1 / 10)) (rnd r)"
proof
  assume "r \<le> 9 / 100" and "fle (rnd (1 / 10)) (rnd r)"
  then have "fle (rnd (1 / 10)) (rnd (9 / 100))" using rnd_mono fle_trans by blast
  moreover have "\<not> fle (rnd (1 / 10)) (rnd (9 / 100))" by code_simp
  ultimately show False by blast
qed

lemma rate_ge_20: "1 / 5 \<le> r \<Longrightarrow> fle (rnd (1 / 5)) (rnd r)"
  by (rule rnd_mono)

lemma rate_lt_20: "r \<le> 19 / 100 \<Longrightarrow> \<not> fle (rnd (1 / 5)) (rnd r)"
proof
  assume "r \<le> 19 / 100" and "fle (rnd (1 / 5)) (rnd r)"
  then have "fle (rnd (1 / 5)) (rnd (19 / 100))" using rnd_mono fle_trans by blast
  moreover have "\<not> fle (rnd (1 / 5)) (rnd (19 / 100))" by code_simp
  ultimately show False by blast
qed

lemmas rate_tests = rate_ge_10 rate_lt_10 rate_ge_20 rate_lt_20

text \<open>The cut-offs the table amounts to: the greatest raw value that still passes, for the critical
  attributes (beyond it the attribute has failed) and for the others that can warn.\<close>

definition fail_above :: "int \<Rightarrow> int option" where
  "fail_above = map_of [(5, 16), (10, 0), (187, 10), (188, 1000), (196, 5), (197, 0), (198, 0)]"

definition warn_above :: "int \<Rightarrow> int option" where
  "warn_above = map_of [(1, 100000), (194, 55), (199, 100), (200, 100)]"

definition scrutiny_verdict :: "int \<Rightarrow> int \<Rightarrow> int" where
  "scrutiny_verdict i raw =
     (case fail_above i of
        Some t \<Rightarrow> if raw < 0 \<or> raw > bucket_top then StatusWarnScrutiny
                  else if raw > t then StatusFailedScrutiny else StatusPassed
      | None \<Rightarrow>
          (case warn_above i of
             Some t \<Rightarrow> if t < raw \<and> raw \<le> bucket_top then StatusWarnScrutiny else StatusPassed
           | None \<Rightarrow> StatusPassed))"

definition vendor_failed :: "smart_attr \<Rightarrow> bool" where
  "vendor_failed a \<longleftrightarrow> 0 < a_threshold a \<and> 0 < a_value a \<and> a_value a \<le> a_threshold a"

lemma table_ids: "LookupThreshold i \<noteq> None \<longleftrightarrow>
  i \<in> {5, 10, 187, 188, 196, 197, 198, 1, 9, 194, 199, 200}"
  by (auto simp: LookupThreshold_def thresholdTable_def athr_def)

lemma untabled_verdict: "LookupThreshold i = None \<Longrightarrow> scrutiny_verdict i raw = StatusPassed"
proof -
  assume "LookupThreshold i = None"
  then have "i \<notin> {5, 10, 187, 188, 196, 197, 198, 1, 9, 194, 199, 200}"
    using table_ids by blast
  then show ?thesis by (simp add: scrutiny_verdict_def fail_above_def warn_above_def)
qed

lemmas table_unfold = LookupThreshold_def thresholdTable_def athr_def bkt_def bucket_top_def
  FindBucket_def IsCritical_def criticalAttributes_def scrutiny_verdict_def fail_above_def
  warn_above_def

lemma status_written: "a_status (fst (EvaluateAttribute a p)) = snd (EvaluateAttribute a p)"
  by (simp add: EvaluateAttribute_def Let_def split: option.split)

lemma verdict_tabled:
  assumes "\<not> vendor_failed a"
    and "a_id a \<in> {5, 10, 187, 188, 196, 197, 198, 1, 9, 194, 199, 200}"
  shows "snd (EvaluateAttribute a p) = scrutiny_verdict (a_id a) (a_raw a)"
proof -
  have v: "\<not> (a_threshold a > 0 \<and> a_value a > 0 \<and> a_value a \<le> a_threshold a)"
    using assms(1) by (simp add: vendor_failed_def)
  from assms(2) show ?thesis
    by (elim insertE emptyE; simp only: EvaluateAttribute_def v if_False;
        simp add: table_unfold Let_def rate_tests)
qed

lemma verdict_eq:
  "snd (EvaluateAttribute a p) =
    (if vendor_failed a then StatusFailedSmart else scrutiny_verdict (a_id a) (a_raw a))"
proof (cases "vendor_failed a")
  case True
  then show ?thesis by (simp add: EvaluateAttribute_def vendor_failed_def)
next
  case False
  show ?thesis
  proof (cases "LookupThreshold (a_id a)")
    case None
    with False show ?thesis
      by (auto simp: untabled_verdict EvaluateAttribute_def vendor_failed_def)
  next
    case (Some t)
    then show ?thesis using False verdict_tabled [OF False] table_ids [of "a_id a"] by simp
  qed
qed

text \<open>C7: The verdict on one SMART attribute, in terms of cut-offs instead of tables and rates. An
  attribute whose normalized value has reached a positive vendor threshold is FailedSmart; a
  critical attribute fails above its cut-off (5: 16, 10: 0, 187: 10, 188: 1000, 196: 5, 197 and 198:
  0) and warns for a raw value no bucket holds (negative, or above 2^62 - 1); a non-critical one warns
  above its cut-off; everything else passes, whatever the protocol. The verdict is also written to the
  attribute, and apart from the status and the failure rate nothing else of it changes.\<close>

theorem attribute_verdict:
  "snd (EvaluateAttribute a p) =
     (if vendor_failed a then StatusFailedSmart else scrutiny_verdict (a_id a) (a_raw a)) \<and>
   a_status (fst (EvaluateAttribute a p)) = snd (EvaluateAttribute a p) \<and>
   (fst (EvaluateAttribute a p))\<lparr>a_status := 0, a_rate := None\<rparr> = a\<lparr>a_status := 0, a_rate := None\<rparr>"
proof -
  have "(fst (EvaluateAttribute a p))\<lparr>a_status := 0, a_rate := None\<rparr> = a\<lparr>a_status := 0, a_rate := None\<rparr>"
    by (simp add: EvaluateAttribute_def Let_def split: option.split)
  then show ?thesis by (simp add: verdict_eq status_written)
qed

section \<open>A worse raw value never gives a better verdict\<close>

definition severity :: "int \<Rightarrow> nat" where
  "severity s = (if s = StatusFailedSmart then 3 else if s = StatusFailedScrutiny then 2
     else if s = StatusWarnScrutiny then 1 else 0)"

lemma scrutiny_mono:
  "0 \<le> r \<Longrightarrow> r \<le> r' \<Longrightarrow> r' \<le> bucket_top \<Longrightarrow>
   severity (scrutiny_verdict i r) \<le> severity (scrutiny_verdict i r')"
  by (auto simp: scrutiny_verdict_def severity_def status_defs split: option.split)

text \<open>Monotonicity of the assessment. Between 0 and 2^62 - 1, the range the failure-rate buckets
  cover, raising the raw value of an attribute never improves its verdict (Passed, WarnScrutiny,
  FailedScrutiny, FailedSmart, in this order).\<close>

theorem attribute_verdict_mono:
  assumes "0 \<le> a_raw a" and "a_raw a \<le> r" and "r \<le> bucket_top"
  shows "severity (snd (EvaluateAttribute a p)) \<le> severity (snd (EvaluateAttribute (a\<lparr>a_raw := r\<rparr>) p))"
  using scrutiny_mono [OF assms] by (simp add: verdict_eq vendor_failed_def)

theorem attribute_verdict_mono_witness:
  "severity (snd (EvaluateAttribute (zero_attr\<lparr>a_id := 187, a_raw := 10\<rparr>) ''ata'')) \<le>
   severity (snd (EvaluateAttribute (zero_attr\<lparr>a_id := 187, a_raw := 11\<rparr>) ''ata''))"
  using attribute_verdict_mono [of "zero_attr\<lparr>a_id := 187, a_raw := 10\<rparr>" 11 "''ata''"]
  by (simp add: bucket_top_def)

section \<open>The verdict on a disk\<close>

lemma evaluate_attrs_eq:
  "evaluate_attrs as p st = (map (\<lambda>a. fst (EvaluateAttribute a p)) as,
     fold (\<lambda>a s. s OR snd (EvaluateAttribute a p)) as st)"
  by (induction as arbitrary: st) (simp_all add: case_prod_unfold Let_def)

lemma fold_or_bit:
  "(fold (\<lambda>a s. s OR f a) as st) AND k \<noteq> (0 :: int) \<longleftrightarrow>
     st AND k \<noteq> 0 \<or> (\<exists>a \<in> set as. f a AND k \<noteq> 0)"
  by (induction as arbitrary: st) (auto simp: bit.conj_disj_distrib2 or_eq_0_iff)

lemma fold_or_zero:
  "fold (\<lambda>a s. s OR f a) as st = (0 :: int) \<longleftrightarrow> st = 0 \<and> (\<forall>a \<in> set as. f a = 0)"
  by (induction as arbitrary: st) (auto simp: or_eq_0_iff)

lemma verdict_values: "snd (EvaluateAttribute a p) \<in> {0, 1, 2, 4}"
  by (auto simp: verdict_eq scrutiny_verdict_def status_defs split: option.split)

lemma verdict_bit:
  "k \<in> {1, 2, 4} \<Longrightarrow> snd (EvaluateAttribute a p) AND k \<noteq> 0 \<longleftrightarrow> snd (EvaluateAttribute a p) = k"
  using verdict_values [of a p] by auto

lemma disk_bits:
  "(let (d', s) = EvaluateDisk d in
     d_status d' = s \<and> 0 \<le> s \<and> s < 8 \<and>
     (\<forall>k. k = StatusFailedSmart \<or> k = StatusWarnScrutiny \<or> k = StatusFailedScrutiny \<longrightarrow>
        (s AND k \<noteq> 0) = (\<exists>a \<in> set (d_attrs d). snd (EvaluateAttribute a (d_protocol d)) = k)) \<and>
     (s = StatusPassed) = list_all (\<lambda>a. snd (EvaluateAttribute a (d_protocol d)) = StatusPassed) (d_attrs d) \<and>
     d_attrs d' = map (\<lambda>a. fst (EvaluateAttribute a (d_protocol d))) (d_attrs d) \<and>
     d' = d\<lparr>d_attrs := d_attrs d', d_status := s\<rparr>)"
proof -
  define f where "f a = snd (EvaluateAttribute a (d_protocol d))" for a
  define s where "s = fold (\<lambda>a s. s OR f a) (d_attrs d) 0"
  have f3: "take_bit 3 (f a) = f a" for a
    using verdict_values [of a "d_protocol d"] by (auto simp: f_def take_bit_eq_mod)
  have "take_bit 3 (fold (\<lambda>a s. s OR f a) as st) = fold (\<lambda>a s. s OR f a) as (take_bit 3 st)" for as st
    by (induction as arbitrary: st) (simp_all add: take_bit_or f3)
  from this [of "d_attrs d" 0] have s: "take_bit 3 s = s" by (simp add: s_def)
  have "0 \<le> s" and "s < 8"
    using take_bit_nonnegative [of 3 s] take_bit_int_less_exp [of 3 s] by (simp_all add: s)
  moreover have "(s AND k \<noteq> 0) = (\<exists>a \<in> set (d_attrs d). f a = k)" if "k \<in> {1, 2, 4}" for k
    using fold_or_bit [of f "d_attrs d" 0 k] verdict_bit [OF that] by (simp add: s_def f_def)
  moreover have "(s = 0) = list_all (\<lambda>a. f a = 0) (d_attrs d)"
    by (simp add: s_def fold_or_zero list_all_iff)
  ultimately show ?thesis
    by (simp add: EvaluateDisk_def evaluate_attrs_eq Let_def status_defs f_def [symmetric]
        s_def [symmetric])
qed

text \<open>The status of a disk is the bitwise OR of its attributes' verdicts: each of the bits
  FailedSmart, WarnScrutiny and FailedScrutiny is set exactly when some attribute has that verdict,
  no other bit is ever set, and the status is Passed exactly when every attribute passed. Each
  attribute is replaced by its evaluated version, in order, and the old status plays no part.\<close>

theorem disk_status_bits:
  "(let (d', s) = EvaluateDisk d in
     d_status d' = s \<and> 0 \<le> s \<and> s < 8 \<and>
     (\<forall>k. k = StatusFailedSmart \<or> k = StatusWarnScrutiny \<or> k = StatusFailedScrutiny \<longrightarrow>
        (s AND k \<noteq> 0) = (\<exists>a \<in> set (d_attrs d). snd (EvaluateAttribute a (d_protocol d)) = k)) \<and>
     (s = StatusPassed) = list_all (\<lambda>a. snd (EvaluateAttribute a (d_protocol d)) = StatusPassed) (d_attrs d) \<and>
     d_attrs d' = map (\<lambda>a. fst (EvaluateAttribute a (d_protocol d))) (d_attrs d) \<and>
     d' = d\<lparr>d_attrs := d_attrs d', d_status := s\<rparr>)"
  by (rule disk_bits)

theorem disk_status_bits_witness:
  "(let (d', s) = EvaluateDisk (zero_disk\<lparr>d_attrs := [zero_attr\<lparr>a_id := 197, a_raw := 3\<rparr>], d_protocol := ''ata''\<rparr>)
    in s AND StatusFailedScrutiny \<noteq> 0)"
  using disk_status_bits [of "zero_disk\<lparr>d_attrs := [zero_attr\<lparr>a_id := 197, a_raw := 3\<rparr>], d_protocol := ''ata''\<rparr>"]
    verdict_eq [of "zero_attr\<lparr>a_id := 197, a_raw := 3\<rparr>" "''ata''"]
  by (auto simp: Let_def case_prod_unfold vendor_failed_def zero_attr_def scrutiny_verdict_def
      fail_above_def bucket_top_def zero_disk_def)

end
