(* ===== verification/GoJson.thy ===== *)
theory GoJson
  imports Domain GoNumber "HOL-Library.Monad_Syntax"
begin

text \<open>
  JSON as the program reads it. \<open>any\<close> is a value of Go's type \<open>any\<close>, as \<open>encoding/json\<close> makes them
  (\<open>nil\<close>, booleans, \<open>float64\<close>, strings, slices, maps) or as a caller may pass them (\<open>int64\<close>, \<open>int\<close>). \<open>json\<close>
  is a document, with numbers as they are written, since an integer field takes them exactly. The
  decoders are what \<open>json.Unmarshal\<close> does for the types of the program: an absent field or \<open>null\<close>
  leaves the zero value, field names match in any capitalisation, and
  a value of the wrong type is an error (\<open>None\<close>).
\<close>

datatype any =
    ANil
  | ABool bool
  | AF64 f64
  | AI64 int
  | AInt int
  | AStr string
  | AArr "any list"
  | AMap "(string \<times> any) list"

text \<open>Reading a key of a \<open>map[string]any\<close>: an absent key gives \<open>nil\<close>.\<close>

definition any_get :: "(string, any) gomap \<Rightarrow> string \<Rightarrow> any" where
  "any_get m k = (case gm_get m k of None \<Rightarrow> ANil | Some v \<Rightarrow> v)"

datatype json =
    JNull
  | JBool bool
  | JNum string
  | JStr string
  | JArr "json list"
  | JObj "(string \<times> json) list"

section \<open>Numbers\<close>

text \<open>A JSON number as a \<open>float64\<close>; out of range is an error.\<close>

definition parse_dec :: "string \<Rightarrow> f64 option" where
  "parse_dec s = (case ParseFloat s of Parsed f \<Rightarrow> Some f | _ \<Rightarrow> None)"

section \<open>Decoding\<close>

fun to_any :: "json \<Rightarrow> any option" where
  "to_any JNull = Some ANil"
| "to_any (JBool b) = Some (ABool b)"
| "to_any (JNum l) = map_option AF64 (parse_dec l)"
| "to_any (JStr s) = Some (AStr s)"
| "to_any (JArr xs) = map_option AArr (those (map to_any xs))"
| "to_any (JObj kvs) =
     map_option (\<lambda>es. AMap (fold (\<lambda>(k, v) m. gm_put k v m) es []))
       (those (map (\<lambda>(k, v). map_option (Pair k) (to_any v)) kvs))"

text \<open>How \<open>encoding/json\<close> folds the names of fields: besides the letters of ASCII, the Kelvin sign is a k and the long
  s an s; no other character equals one of ASCII.\<close>

fun fold_name :: "string \<Rightarrow> string" where
  "fold_name [] = []"
| "fold_name (c # cs) =
     (if c = CHR 0xE2 \<and> take 2 cs = [CHR 0x84, CHR 0xAA] then CHR ''k'' # fold_name (drop 2 cs)
      else if c = CHR 0xC5 \<and> take 1 cs = [CHR 0xBF] then CHR ''s'' # fold_name (drop 1 cs)
      else lower_byte c # fold_name cs)"

text \<open>For objects whose names are distinct up to case, as every API writes them: of two equal names the last one
  counts here, while Go merges the values of a repeated name when they are structs or \<open>null\<close>.\<close>

definition jfield :: "string \<Rightarrow> (string \<times> json) list \<Rightarrow> json option" where
  "jfield k kvs = map_of (rev (map (\<lambda>(n, v). (fold_name n, v)) kvs)) k"

fun dec_str :: "json option \<Rightarrow> string option" where
  "dec_str None = Some []"
| "dec_str (Some JNull) = Some []"
| "dec_str (Some (JStr s)) = Some s"
| "dec_str (Some _) = None"

fun dec_int :: "json option \<Rightarrow> int option" where
  "dec_int None = Some 0"
| "dec_int (Some JNull) = Some 0"
| "dec_int (Some (JNum l)) = parse_int 10 l"
| "dec_int (Some _) = None"

fun dec_f64 :: "json option \<Rightarrow> f64 option" where
  "dec_f64 None = Some (Fin 0)"
| "dec_f64 (Some JNull) = Some (Fin 0)"
| "dec_f64 (Some (JNum l)) = parse_dec l"
| "dec_f64 (Some _) = None"

text \<open>A field of pointer type.\<close>

definition dec_ptr :: "(json option \<Rightarrow> 'a option) \<Rightarrow> json option \<Rightarrow> 'a option option" where
  "dec_ptr f j = (case j of None \<Rightarrow> Some None | Some JNull \<Rightarrow> Some None | Some v \<Rightarrow> map_option Some (f (Some v)))"

definition dec_any :: "json option \<Rightarrow> any option" where
  "dec_any j = (case j of None \<Rightarrow> Some ANil | Some v \<Rightarrow> to_any v)"

text \<open>A struct, given its fields, and a slice.\<close>

fun dec_struct :: "((string \<times> json) list \<Rightarrow> 'a option) \<Rightarrow> json option \<Rightarrow> 'a option" where
  "dec_struct f None = f []"
| "dec_struct f (Some JNull) = f []"
| "dec_struct f (Some (JObj kvs)) = f kvs"
| "dec_struct f (Some _) = None"

fun dec_slice :: "(json option \<Rightarrow> 'a option) \<Rightarrow> json option \<Rightarrow> 'a list option" where
  "dec_slice f None = Some []"
| "dec_slice f (Some JNull) = Some []"
| "dec_slice f (Some (JArr xs)) = those (map (\<lambda>x. f (Some x)) xs)"
| "dec_slice f (Some _) = None"

fun dec_map :: "json option \<Rightarrow> (string, any) gomap option" where
  "dec_map None = Some []"
| "dec_map (Some j) = (case to_any j of Some (AMap m) \<Rightarrow> Some m | Some ANil \<Rightarrow> Some [] | _ \<Rightarrow> None)"

section \<open>A number written in decimal is read exactly\<close>

lemma dec_int_itoa: "in_i64 i \<Longrightarrow> dec_int (Some (JNum (itoa i))) = Some i"
  by (simp add: atoi_itoa)

lemma dec_struct_Some: "dec_struct f j = Some x \<Longrightarrow> \<exists>kvs. f kvs = Some x"
  by (cases "(f, j)" rule: dec_struct.cases) auto

lemma those_map_Some: "those (map (\<lambda>x. Some (f x)) xs) = Some (map f xs)"
  by (induction xs) simp_all

lemma those_eq_Some: "those xs = Some ys \<longleftrightarrow> xs = map Some ys"
proof (induction xs arbitrary: ys)
  case (Cons x xs)
  show ?case
  proof (cases ys)
    case (Cons y ys')
    with Cons.IH show ?thesis by (cases x) auto
  qed (cases x, auto split: option.split)
qed (cases ys, auto)

lemma dec_slice_mem:
  assumes "dec_slice f j = Some xs" and "x \<in> set xs"
  shows "\<exists>j'. f j' = Some x"
  using assms
proof (cases "(f, j)" rule: dec_slice.cases)
  case (3 f' js)
  with assms have js: "map (\<lambda>j'. f (Some j')) js = map Some xs" by (auto simp: those_eq_Some)
  have "Some x \<in> set (map (\<lambda>j'. f (Some j')) js)" unfolding js using assms(2) by simp
  then have "\<exists>j'. Some x = f (Some j')" by auto
  then show ?thesis by metis
qed auto


end
