(* ===== verification/SmartParse.thy ===== *)
theory SmartParse
  imports SmartTable GoJson
begin

text \<open>
  The SMART parsers: \<open>internal/smart/ata.go\<close> (attributes from the Proxmox API), \<open>nvme.go\<close> (the text
  \<open>smartctl\<close> prints for NVMe drives) and \<open>scsi.go\<close> (its text for SCSI drives). A line of text gives
  at most one attribute; a returned error is \<open>Inl\<close>. Parameters: \<open>oor\<close> is what the platform gives
  for converting a \<open>float64\<close> no \<open>int64\<close> can hold, \<open>fmtv\<close> is \<open>fmt\<close>'s \<open>%v\<close> for slices and maps.
\<close>

section \<open>ata.go\<close>

datatype ata_error = BadId

definition safeInt :: "int \<Rightarrow> int" where
  "safeInt v = clamp_int 64 v"

definition toInt64 :: "(f64 \<Rightarrow> int) \<Rightarrow> any \<Rightarrow> int option" where
  "toInt64 oor v = (case v of
     AF64 n \<Rightarrow> Some (f64_to_i64 oor n)
   | AI64 n \<Rightarrow> Some n
   | AInt n \<Rightarrow> Some n
   | AStr n \<Rightarrow> parse_int 10 n
   | _ \<Rightarrow> None)"

definition extractLeadingInt :: "string \<Rightarrow> int" where
  "extractLeadingInt s0 =
     (let s = trim_space s0
      in if s = [] then 0
         else let ds = takeWhile is_digit s
              in if ds = [] then 0
                 else case parse_int 10 ds of None \<Rightarrow> 0 | Some v \<Rightarrow> v)"

definition parseRaw :: "(f64 \<Rightarrow> int) \<Rightarrow> (any \<Rightarrow> string) \<Rightarrow> any \<Rightarrow> string \<times> int" where
  "parseRaw oor fmtv v = (case v of
     AStr r \<Rightarrow> (r, extractLeadingInt r)
   | AF64 r \<Rightarrow> (itoa (f64_to_i64 oor r), f64_to_i64 oor r)
   | AI64 r \<Rightarrow> (itoa r, r)
   | AInt r \<Rightarrow> (itoa r, r)
   | ANil \<Rightarrow> (''0'', 0)
   | ABool r \<Rightarrow> (let s = (if r then ''true'' else ''false'') in (s, extractLeadingInt s))
   | _ \<Rightarrow> (let s = fmtv v in (s, extractLeadingInt s)))"

definition parseOneATA :: "(f64 \<Rightarrow> int) \<Rightarrow> (any \<Rightarrow> string) \<Rightarrow> (string, any) gomap \<Rightarrow> ata_error + smart_attr" where
  "parseOneATA oor fmtv entry =
     (case toInt64 oor (any_get entry ''id'') of
        None \<Rightarrow> Inl BadId
      | Some i \<Rightarrow>
          (let attr = zero_attr\<lparr>a_id := safeInt i\<rparr>;
               attr = (case any_get entry ''name'' of AStr nm \<Rightarrow> attr\<lparr>a_name := nm\<rparr> | _ \<Rightarrow> attr);
               attr = (case toInt64 oor (any_get entry ''value'') of
                         Some v \<Rightarrow> attr\<lparr>a_value := v\<rparr> | None \<Rightarrow> attr);
               attr = (case toInt64 oor (any_get entry ''worst'') of
                         Some v \<Rightarrow> attr\<lparr>a_worst := v\<rparr> | None \<Rightarrow> attr);
               attr = (case toInt64 oor (any_get entry ''thresh'') of
                         Some v \<Rightarrow> attr\<lparr>a_threshold := v\<rparr> | None \<Rightarrow> attr);
               (rawStr, rawVal) = parseRaw oor fmtv (any_get entry ''raw'')
           in Inr (attr\<lparr>a_rawstr := rawStr, a_raw := rawVal\<rparr>)))"

text \<open>The error carries the index of the entry that failed.\<close>

fun parse_ata_from :: "(f64 \<Rightarrow> int) \<Rightarrow> (any \<Rightarrow> string) \<Rightarrow> nat \<Rightarrow> (string, any) gomap list \<Rightarrow>
    (nat \<times> ata_error) + smart_attr list" where
  "parse_ata_from oor fmtv i [] = Inr []"
| "parse_ata_from oor fmtv i (entry # data) =
     (case parseOneATA oor fmtv entry of
        Inl e \<Rightarrow> Inl (i, e)
      | Inr attr \<Rightarrow>
          (case parse_ata_from oor fmtv (Suc i) data of Inl e \<Rightarrow> Inl e | Inr attrs \<Rightarrow> Inr (attr # attrs)))"

definition ParseATAAttributes :: "(f64 \<Rightarrow> int) \<Rightarrow> (any \<Rightarrow> string) \<Rightarrow> (string, any) gomap list \<Rightarrow>
    (nat \<times> ata_error) + smart_attr list" where
  "ParseATAAttributes oor fmtv data = parse_ata_from oor fmtv 0 data"

section \<open>nvme.go\<close>

definition NVMeCriticalWarning :: int where "NVMeCriticalWarning = 1"
definition NVMeTemperature :: int where "NVMeTemperature = 2"
definition NVMeAvailableSpare :: int where "NVMeAvailableSpare = 3"
definition NVMeAvailableSpareThresh :: int where "NVMeAvailableSpareThresh = 4"
definition NVMePercentageUsed :: int where "NVMePercentageUsed = 5"
definition NVMeDataUnitsRead :: int where "NVMeDataUnitsRead = 6"
definition NVMeDataUnitsWritten :: int where "NVMeDataUnitsWritten = 7"
definition NVMePowerOnHours :: int where "NVMePowerOnHours = 8"
definition NVMeMediaErrors :: int where "NVMeMediaErrors = 9"
definition NVMeNumErrLogEntries :: int where "NVMeNumErrLogEntries = 10"

lemmas nvme_ids = NVMeCriticalWarning_def NVMeTemperature_def NVMeAvailableSpare_def
  NVMeAvailableSpareThresh_def NVMePercentageUsed_def NVMeDataUnitsRead_def
  NVMeDataUnitsWritten_def NVMePowerOnHours_def NVMeMediaErrors_def NVMeNumErrLogEntries_def

definition nvmeFieldMap :: "(string, int \<times> string) gomap" where
  "nvmeFieldMap =
    [(''critical warning'', (NVMeCriticalWarning, ''Critical Warning'')),
     (''temperature'', (NVMeTemperature, ''Temperature'')),
     (''available spare'', (NVMeAvailableSpare, ''Available Spare'')),
     (''available spare threshold'', (NVMeAvailableSpareThresh, ''Available Spare Threshold'')),
     (''percentage used'', (NVMePercentageUsed, ''Percentage Used'')),
     (''data units read'', (NVMeDataUnitsRead, ''Data Units Read'')),
     (''data units written'', (NVMeDataUnitsWritten, ''Data Units Written'')),
     (''power on hours'', (NVMePowerOnHours, ''Power On Hours'')),
     (''media and data integrity errors'', (NVMeMediaErrors, ''Media Errors'')),
     (''error information log entries'', (NVMeNumErrLogEntries, ''Error Log Entries''))]"

definition parseNVMeValue :: "string \<Rightarrow> int \<times> string" where
  "parseNVMeValue s0 =
     (let s = trim_space s0
      in if s = [] then (0, [])
         else if has_prefix s ''0x'' then
           (case parse_int 16 (drop 2 s) of None \<Rightarrow> (0, s) | Some v \<Rightarrow> (v, s))
         else
           let cleaned = remove_byte (CHR '','') s; ds = takeWhile is_digit cleaned
           in if ds = [] then (0, s)
              else case parse_int 10 ds of None \<Rightarrow> (0, s) | Some v \<Rightarrow> (v, s))"

definition nvme_line :: "string \<Rightarrow> smart_attr option" where
  "nvme_line line0 =
     (let line = trim_space line0
      in if line = [] then None
         else case str_cut (CHR '':'') line of
           None \<Rightarrow> None
         | Some (before, after) \<Rightarrow>
             (let key = trim_space before; valStr = trim_space after
              in case gm_get nvmeFieldMap (to_lower key) of
                   None \<Rightarrow> None
                 | Some (i, nm) \<Rightarrow>
                     (let (rawVal, rawStr) = parseNVMeValue valStr
                      in Some (zero_attr\<lparr>a_id := i, a_name := nm, a_raw := rawVal, a_rawstr := rawStr\<rparr>))))"

datatype nvme_error = NoNVMeAttributes

definition ParseNVMeText :: "string \<Rightarrow> nvme_error + smart_attr list" where
  "ParseNVMeText text =
     (let attrs = List.map_filter nvme_line (split_on nl text)
      in if attrs = [] then Inl NoNVMeAttributes else Inr attrs)"

section \<open>scsi.go\<close>

definition SCSITemperature :: int where "SCSITemperature = 300"
definition SCSIPowerOnHours :: int where "SCSIPowerOnHours = 301"

definition extractIntAfterColon :: "string \<Rightarrow> int option" where
  "extractIntAfterColon s =
     (case after_last (CHR '':'') s of
        None \<Rightarrow> None
      | Some rest \<Rightarrow>
          (let ds = takeWhile is_digit (trim_space rest)
           in if ds = [] then None else atoi ds))"

definition scsi_line :: "string \<Rightarrow> smart_attr option" where
  "scsi_line line0 =
     (let line = trim_space line0; lower = to_lower line;
          hours = (\<lambda>h. zero_attr\<lparr>a_id := SCSIPowerOnHours, a_name := ''Power On Hours'',
                          a_raw := h, a_rawstr := itoa h\<rparr>)
      in if line = [] then None
         else if has_prefix lower ''current drive temperature:'' then
           (case extractIntAfterColon line of
              None \<Rightarrow> None
            | Some t \<Rightarrow> Some (zero_attr\<lparr>a_id := SCSITemperature, a_name := ''Temperature'',
                a_raw := t, a_rawstr := itoa t\<rparr>))
         else if has_prefix lower ''number of hours powered up'' then
           (case str_cut (CHR ''='') line of
              None \<Rightarrow> None
            | Some (before, after) \<Rightarrow>
                (let val = takeWhile (\<lambda>c. c \<noteq> CHR ''.'') (trim_space after)
                 in case atoi (remove_byte (CHR '','') val) of
                      None \<Rightarrow> None
                    | Some h \<Rightarrow> if h \<ge> 0 then Some (hours h) else None))
         else if has_prefix lower ''accumulated power on time, hours:minutes'' then
           (let parts = str_fields line
            in if parts = [] then None
               else case str_cut (CHR '':'') (last parts) of
                      None \<Rightarrow> None
                    | Some (before, after) \<Rightarrow>
                        (case atoi before of
                           None \<Rightarrow> None
                         | Some h \<Rightarrow> if h \<ge> 0 then Some (hours h) else None))
         else None)"

definition ParseSCSIText :: "string \<Rightarrow> smart_attr list" where
  "ParseSCSIText text = List.map_filter scsi_line (split_on nl text)"

section \<open>Numbers at the front of a text\<close>

lemma takeWhile_digits [simp]:
  "list_all is_digit ds \<Longrightarrow> rest = [] \<or> \<not> is_digit (hd rest) \<Longrightarrow> takeWhile is_digit (ds @ rest) = ds"
  by (cases rest) (auto simp: list_all_iff takeWhile_append)

lemma parse_int_digits10: "int n \<le> max_i64 \<Longrightarrow> parse_int 10 (digits10 n) = Some (int n)"
  using atoi_itoa [of "int n"] by (simp add: itoa_def in_i64_def max_i64_def)

lemma digits_val_ge: "digits_val b acc s = Some n \<Longrightarrow> 0 \<le> int n"
  by simp

lemma parse_int_in_i64: "parse_int b s = Some v \<Longrightarrow> in_i64 v"
  by (auto simp: parse_int_def Let_def split: option.splits if_splits)

lemma parse_int_digits_nonneg:
  assumes "parse_int 10 ds = Some v" and "list_all is_digit ds"
  shows "0 \<le> v"
proof (cases ds)
  case (Cons c cs)
  with assms(2) have "c \<noteq> CHR ''-''" using digit_not_sign by auto
  with assms(1) Cons show ?thesis by (auto simp: parse_int_def Let_def split: option.splits if_splits)
qed (use assms(1) in \<open>simp add: parse_int_def parse_uint_def\<close>)

lemma takeWhile_all_digits: "list_all is_digit (takeWhile is_digit s)"
  by (auto simp: list_all_iff dest: set_takeWhileD)

lemma extractLeadingInt_range: "0 \<le> extractLeadingInt s \<and> extractLeadingInt s \<le> max_i64"
  using takeWhile_all_digits [of "trim_space s"] parse_int_in_i64
  by (auto simp: extractLeadingInt_def Let_def max_i64_def in_i64_alt
      dest: parse_int_digits_nonneg split: option.splits)

text \<open>The raw value of an ATA attribute given as text, such as \<open>40 (Min/Max 25/55)\<close>: leading
  blanks are skipped, the decimal number at the front is the value whatever follows it, and the text
  itself is kept unchanged.\<close>

theorem raw_text_value:
  assumes "int n \<le> max_i64" and "rest = [] \<or> \<not> is_digit (hd rest)"
  shows "parseRaw oor fmtv (AStr (replicate k (CHR '' '') @ digits10 n @ rest)) =
    (replicate k (CHR '' '') @ digits10 n @ rest, int n)"
proof -
  have ne: "trim_space (digits10 n @ rest) \<noteq> []"
    using trim_space_digits [OF digits10_ne digits10_all assms(2), of n] by (metis digits10_ne takeWhile.simps(1))
  then show ?thesis
    using trim_space_digits [OF digits10_ne digits10_all assms(2), of n] parse_int_digits10 [OF assms(1)]
    by (simp add: parseRaw_def extractLeadingInt_def Let_def trim_space_pad)
qed

theorem raw_text_value_witness:
  "parseRaw (\<lambda>_. 0) (\<lambda>_. []) (AStr ''40 (Min/Max 25/55)'') = (''40 (Min/Max 25/55)'', 40)"
proof -
  have d: "digits10 40 = ''40''" by code_simp
  show ?thesis using raw_text_value [of 40 "'' (Min/Max 25/55)''" "\<lambda>_. 0" "\<lambda>_. []" 0]
    by (simp add: d max_i64_def is_digit_def)
qed

section \<open>ATA\<close>

definition ata_readable :: "(f64 \<Rightarrow> int) \<Rightarrow> (string, any) gomap \<Rightarrow> bool" where
  "ata_readable oor entry \<longleftrightarrow> toInt64 oor (any_get entry ''id'') \<noteq> None"

lemma parseOneATA_Inl: "parseOneATA oor fmtv e = Inl x \<longleftrightarrow> \<not> ata_readable oor e"
  by (cases x) (simp add: parseOneATA_def ata_readable_def Let_def case_prod_unfold split: option.split)

lemma parse_ata_from_eq:
  "case parse_ata_from oor fmtv i data of
     Inl (j, x) \<Rightarrow> \<exists>k. j = i + k \<and> k < length data \<and> \<not> ata_readable oor (data ! k) \<and>
       (\<forall>m < k. ata_readable oor (data ! m))
   | Inr attrs \<Rightarrow> list_all2 (\<lambda>e a. parseOneATA oor fmtv e = Inr a) data attrs"
proof (induction data arbitrary: i)
  case (Cons e data)
  show ?case
  proof (cases "parseOneATA oor fmtv e")
    case (Inl x)
    then have "\<not> ata_readable oor e" using parseOneATA_Inl by blast
    with Inl show ?thesis by auto
  next
    case (Inr a)
    then have r: "ata_readable oor e" using parseOneATA_Inl by (metis sum.distinct(1) ata_error.exhaust)
    show ?thesis
    proof (cases "parse_ata_from oor fmtv (Suc i) data")
      case (Inl p)
      obtain j x where p: "p = (j, x)" by (cases p)
      from Cons.IH [where i = "Suc i"] Inl p obtain k where k: "j = Suc i + k" "k < length data"
        "\<not> ata_readable oor (data ! k)" "\<forall>m < k. ata_readable oor (data ! m)" by auto
      with r have "\<forall>m < Suc k. ata_readable oor ((e # data) ! m)" by (auto simp: less_Suc_eq_0_disj)
      with k Inl Inr p show ?thesis by (auto intro!: exI [of _ "Suc k"])
    next
      case (Inr as)
      with Cons.IH [where i = "Suc i"] \<open>parseOneATA oor fmtv e = Inr a\<close> show ?thesis by simp
    qed
  qed
qed simp

definition ata_field :: "(f64 \<Rightarrow> int) \<Rightarrow> (string, any) gomap \<Rightarrow> string \<Rightarrow> int" where
  "ata_field oor e k = (case toInt64 oor (any_get e k) of None \<Rightarrow> 0 | Some v \<Rightarrow> v)"

lemma parseOneATA_fields:
  assumes "parseOneATA oor fmtv e = Inr a"
  shows "toInt64 oor (any_get e ''id'') \<noteq> None \<and> a_id a = clamp_int 64 (ata_field oor e ''id'') \<and>
    a_name a = (case any_get e ''name'' of AStr nm \<Rightarrow> nm | _ \<Rightarrow> []) \<and>
    a_value a = ata_field oor e ''value'' \<and> a_worst a = ata_field oor e ''worst'' \<and>
    a_threshold a = ata_field oor e ''thresh'' \<and>
    (a_rawstr a, a_raw a) = parseRaw oor fmtv (any_get e ''raw'') \<and>
    a_status a = StatusPassed \<and> a_rate a = None"
proof -
  obtain i where i: "toInt64 oor (any_get e ''id'') = Some i"
    using assms by (cases "toInt64 oor (any_get e ''id'')") (simp_all add: parseOneATA_def)
  define alt where "alt d x = (case x of None \<Rightarrow> d | Some v \<Rightarrow> v)" for d :: int and x
  define str where "str d x = (case x of AStr nm \<Rightarrow> nm | _ \<Rightarrow> d)" for d x
  have set_value: "(case x of Some v \<Rightarrow> b\<lparr>a_value := v\<rparr> | None \<Rightarrow> b) =
      b\<lparr>a_value := alt (a_value b) x\<rparr>" for x and b :: smart_attr
    by (simp add: alt_def split: option.split)
  have set_worst: "(case x of Some v \<Rightarrow> b\<lparr>a_worst := v\<rparr> | None \<Rightarrow> b) =
      b\<lparr>a_worst := alt (a_worst b) x\<rparr>" for x and b :: smart_attr
    by (simp add: alt_def split: option.split)
  have set_thresh: "(case x of Some v \<Rightarrow> b\<lparr>a_threshold := v\<rparr> | None \<Rightarrow> b) =
      b\<lparr>a_threshold := alt (a_threshold b) x\<rparr>" for x and b :: smart_attr
    by (simp add: alt_def split: option.split)
  have set_name: "(case x of AStr nm \<Rightarrow> b\<lparr>a_name := nm\<rparr> | _ \<Rightarrow> b) =
      b\<lparr>a_name := str (a_name b) x\<rparr>" for x and b :: smart_attr
    by (simp add: str_def split: any.split)
  have "a = zero_attr\<lparr>a_id := safeInt i,
      a_name := str [] (any_get e ''name''),
      a_value := ata_field oor e ''value'', a_worst := ata_field oor e ''worst'',
      a_threshold := ata_field oor e ''thresh'',
      a_rawstr := fst (parseRaw oor fmtv (any_get e ''raw'')),
      a_raw := snd (parseRaw oor fmtv (any_get e ''raw''))\<rparr>"
    using assms
    by (simp add: parseOneATA_def i Let_def case_prod_unfold set_name set_value set_worst set_thresh
        ata_field_def alt_def [symmetric]) (auto simp: zero_attr_def)
  then show ?thesis by (simp add: i ata_field_def zero_attr_def safeInt_def status_defs str_def)
qed



section \<open>NVMe\<close>

text \<open>The fields of \<open>smartctl\<close>'s text: a label, a colon, blanks, a decimal number that may have
  commas in it, and a unit.\<close>

record nvme_field =
  nf_label :: string
  nf_pad :: nat
  nf_value :: nat
  nf_digits :: string
  nf_unit :: string

definition nvme_field_ok :: "nvme_field \<Rightarrow> bool" where
  "nvme_field_ok f \<longleftrightarrow>
     nf_label f \<noteq> [] \<and> printable (hd (nf_label f)) \<and> printable (last (nf_label f)) \<and>
     CHR '':'' \<notin> set (nf_label f) \<and> nl \<notin> set (nf_label f) \<and>
     int (nf_value f) \<le> max_i64 \<and> nf_digits f \<noteq> [] \<and> is_digit (hd (nf_digits f)) \<and>
     list_all (\<lambda>c. is_digit c \<or> c = CHR '','') (nf_digits f) \<and>
     remove_byte (CHR '','') (nf_digits f) = digits10 (nf_value f) \<and>
     nl \<notin> set (nf_unit f) \<and>
     (nf_unit f = [] \<or> printable (last (nf_unit f)) \<and> \<not> is_digit (hd (nf_unit f)) \<and>
        hd (nf_unit f) \<noteq> CHR '','' \<and> hd (nf_unit f) \<noteq> CHR ''x'')"

definition nvme_body :: "nvme_field \<Rightarrow> string" where
  "nvme_body f = nf_digits f @ nf_unit f"

definition print_nvme_field :: "nvme_field \<Rightarrow> string" where
  "print_nvme_field f = nf_label f @ CHR '':'' # replicate (nf_pad f) (CHR '' '') @ nvme_body f"

definition nvme_attr_of :: "nvme_field \<Rightarrow> smart_attr option" where
  "nvme_attr_of f = map_option (\<lambda>(i, nm). zero_attr\<lparr>a_id := i, a_name := nm,
       a_raw := int (nf_value f), a_rawstr := nvme_body f\<rparr>)
     (gm_get nvmeFieldMap (to_lower (nf_label f)))"

lemma comma_printable: "printable (CHR '','')"
  by (simp add: printable_def)

lemma body_printable:
  assumes "nvme_field_ok f"
  shows "nvme_body f \<noteq> [] \<and> printable (hd (nvme_body f)) \<and> printable (last (nvme_body f))"
proof -
  have p: "list_all printable (nf_digits f)"
    using assms printable_digit comma_printable by (auto simp: nvme_field_ok_def list_all_iff)
  have "last (nf_digits f) \<in> set (nf_digits f)" and "hd (nf_digits f) \<in> set (nf_digits f)"
    using assms by (simp_all add: nvme_field_ok_def)
  with p assms show ?thesis by (auto simp: nvme_body_def nvme_field_ok_def list_all_iff last_append)
qed

lemma body_not_hex:
  assumes "nvme_field_ok f"
  shows "\<not> has_prefix (nvme_body f) ''0x''"
proof
  assume "has_prefix (nvme_body f) ''0x''"
  then have "take 2 (nvme_body f) = ''0x''" by (simp add: has_prefix_def numeral_2_eq_2)
  then have r: "nf_digits f @ nf_unit f = CHR ''0'' # CHR ''x'' # drop 2 (nvme_body f)"
    unfolding nvme_body_def [symmetric] using append_take_drop_id [of 2 "nvme_body f"] by simp
  from assms obtain c cs where c: "nf_digits f = c # cs" by (auto simp: nvme_field_ok_def neq_Nil_conv)
  show False
  proof (cases cs)
    case Nil
    with r c assms show False by (auto simp: nvme_field_ok_def)
  next
    case (Cons d ds)
    with r c have "CHR ''x'' \<in> set (nf_digits f)" by simp
    with assms show False by (auto simp: nvme_field_ok_def list_all_iff is_digit_def)
  qed
qed

lemma parse_body:
  assumes "nvme_field_ok f"
  shows "parseNVMeValue (nvme_body f) = (int (nf_value f), nvme_body f)"
proof -
  let ?u = "remove_byte (CHR '','') (nf_unit f)"
  have u: "?u = [] \<or> \<not> is_digit (hd ?u)"
    using assms by (cases "nf_unit f") (auto simp: nvme_field_ok_def remove_byte_def)
  have c: "remove_byte (CHR '','') (nvme_body f) = digits10 (nf_value f) @ ?u"
    using assms by (simp add: nvme_body_def nvme_field_ok_def remove_byte_def)
  have "trim_space (nvme_body f) = nvme_body f"
    using body_printable [OF assms] trim_space_id by blast
  moreover have "parse_int 10 (digits10 (nf_value f)) = Some (int (nf_value f))"
    using assms by (intro parse_int_digits10) (simp add: nvme_field_ok_def)
  ultimately show ?thesis
    using body_printable [OF assms] body_not_hex [OF assms] u
    by (simp add: parseNVMeValue_def Let_def c digits10_all)
qed

lemma nvme_line_print:
  assumes "nvme_field_ok f"
  shows "nvme_line (print_nvme_field f) = nvme_attr_of f"
proof -
  have b: "nvme_body f \<noteq> []" "printable (hd (nvme_body f))" "printable (last (nvme_body f))"
    using body_printable [OF assms] by simp_all
  then have "trim_space (nvme_body f) = nvme_body f" by (rule trim_space_id)
  moreover have "trim_space (print_nvme_field f) = print_nvme_field f"
    by (rule trim_space_id) (use assms b in \<open>simp_all add: print_nvme_field_def nvme_field_ok_def\<close>)
  moreover have "trim_space (nf_label f) = nf_label f"
    by (rule trim_space_id) (use assms in \<open>simp_all add: nvme_field_ok_def\<close>)
  moreover have "str_cut (CHR '':'') (print_nvme_field f) =
      Some (nf_label f, replicate (nf_pad f) (CHR '' '') @ nvme_body f)"
    using assms by (simp add: print_nvme_field_def str_cut_append nvme_field_ok_def)
  moreover have "print_nvme_field f \<noteq> []" by (simp add: print_nvme_field_def)
  ultimately show ?thesis
    by (simp add: nvme_line_def nvme_attr_of_def trim_space_pad parse_body [OF assms]
        split: option.split)
qed

lemma print_no_nl: "nvme_field_ok f \<Longrightarrow> nl \<notin> set (print_nvme_field f)"
proof -
  assume f: "nvme_field_ok f"
  have "nl \<notin> set (nf_digits f)"
    using f by (auto simp: nvme_field_ok_def list_all_iff is_digit_def nl_def)
  with f show ?thesis by (auto simp: print_nvme_field_def nvme_body_def nvme_field_ok_def nl_def)
qed

text \<open>C27: Round trip of the NVMe text. For any list of fields written one per line (with any number
  of blanks after the colon, commas in the number and a unit behind it) the parser returns exactly
  the attributes of the fields whose label it knows, in any capitalisation, in the order of the
  text, with their values; it reports an error exactly when it knows none of the labels.\<close>

theorem nvme_roundtrip:
  assumes "list_all nvme_field_ok fs" and "fs \<noteq> []"
  shows "ParseNVMeText (str_join [nl] (map print_nvme_field fs)) =
    (if \<exists>f \<in> set fs. gm_mem (to_lower (nf_label f)) nvmeFieldMap
     then Inr (List.map_filter nvme_attr_of fs) else Inl NoNVMeAttributes)"
proof -
  have split: "split_on nl (str_join [nl] (map print_nvme_field fs)) = map print_nvme_field fs"
    using assms print_no_nl by (intro split_on_join) (auto simp: list_all_iff)
  have "List.map_filter nvme_line (map print_nvme_field fs) = List.map_filter nvme_attr_of fs"
    using assms(1) by (induction fs) (simp_all add: nvme_line_print split: option.split)
  moreover have "List.map_filter nvme_attr_of fs = [] \<longleftrightarrow>
      \<not> (\<exists>f \<in> set fs. gm_mem (to_lower (nf_label f)) nvmeFieldMap)"
    by (auto simp: List.map_filter_def filter_empty_conv nvme_attr_of_def gm_mem_def)
  ultimately show ?thesis by (auto simp: ParseNVMeText_def split)
qed

theorem nvme_roundtrip_witness:
  "ParseNVMeText (str_join [nl] [''Data Units Read:   1,234 [632 MB]'', ''Percentage Used:    3%'']) =
   Inr [zero_attr\<lparr>a_id := 6, a_name := ''Data Units Read'', a_raw := 1234, a_rawstr := ''1,234 [632 MB]''\<rparr>,
        zero_attr\<lparr>a_id := 5, a_name := ''Percentage Used'', a_raw := 3, a_rawstr := ''3%''\<rparr>]"
proof -
  let ?fs = "[\<lparr>nf_label = ''Data Units Read'', nf_pad = 3, nf_value = 1234, nf_digits = ''1,234'',
                nf_unit = '' [632 MB]''\<rparr>,
              \<lparr>nf_label = ''Percentage Used'', nf_pad = 4, nf_value = 3, nf_digits = ''3'', nf_unit = ''%''\<rparr>]"
  have d: "digits10 1234 = ''1234''" "digits10 3 = ''3''"
    by (simp_all add: digits10.simps digit_char_def char_of_eq_iff)
  have ok: "list_all nvme_field_ok ?fs"
    by (simp add: nvme_field_ok_def printable_def is_digit_def remove_byte_def max_i64_def nl_def d)
  have pr: "map print_nvme_field ?fs =
      [''Data Units Read:   1,234 [632 MB]'', ''Percentage Used:    3%'']" by code_simp
  have at: "List.map_filter nvme_attr_of ?fs =
      [zero_attr\<lparr>a_id := 6, a_name := ''Data Units Read'', a_raw := 1234, a_rawstr := ''1,234 [632 MB]''\<rparr>,
       zero_attr\<lparr>a_id := 5, a_name := ''Percentage Used'', a_raw := 3, a_rawstr := ''3%''\<rparr>]" by code_simp
  have "\<exists>f \<in> set ?fs. gm_mem (to_lower (nf_label f)) nvmeFieldMap" by code_simp
  with nvme_roundtrip [OF ok] show ?thesis by (simp only: pr at if_True) simp
qed

text \<open>What the ids mean for the assessment, whose table is the one of ATA.\<close>

lemma nvme_line_attr:
  assumes "nvme_line l = Some a"
  shows "a_threshold a = 0 \<and> a_id a \<in> {1 .. 10}"
proof -
  have ids: "\<forall>q \<in> set nvmeFieldMap. fst (snd q) \<in> {1 .. 10}"
    by (simp add: nvmeFieldMap_def nvme_ids)
  have "fst p \<in> {1 .. 10}" if "gm_get nvmeFieldMap k = Some p" for k p
    using ids [rule_format, OF map_of_SomeD [OF that]] by simp
  then show ?thesis
    using assms by (fastforce simp: nvme_line_def Let_def case_prod_unfold zero_attr_def split: if_splits option.splits)
qed

text \<open>C29: what the assessment makes of an NVMe attribute. Its ids 1 to 10 are looked up in the table
  made for ATA ids: the drive fails for a percentage used above 16 and for a single entry of its
  error log, whereas its critical-warning bits only warn above 100000, and spare capacity, media
  errors and temperature always pass.\<close>

theorem nvme_assessment:
  assumes "nvme_line l = Some a" and "0 \<le> a_raw a" and "a_raw a \<le> bucket_top"
  shows "snd (EvaluateAttribute a p) =
    (if a_id a = NVMePercentageUsed \<and> a_raw a > 16 \<or> a_id a = NVMeNumErrLogEntries \<and> a_raw a > 0
     then StatusFailedScrutiny
     else if a_id a = NVMeCriticalWarning \<and> a_raw a > 100000 then StatusWarnScrutiny
     else StatusPassed)"
proof -
  have "\<not> vendor_failed a" and i: "a_id a \<in> {1 .. 10}"
    using nvme_line_attr [OF assms(1)] by (simp_all add: vendor_failed_def)
  then have "snd (EvaluateAttribute a p) = scrutiny_verdict (a_id a) (a_raw a)" by (simp add: verdict_eq)
  also have "\<dots> = (if a_id a = 5 \<and> a_raw a > 16 \<or> a_id a = 10 \<and> a_raw a > 0 then StatusFailedScrutiny
     else if a_id a = 1 \<and> a_raw a > 100000 then StatusWarnScrutiny else StatusPassed)"
    using assms(2,3) i by (auto simp: scrutiny_verdict_def fail_above_def warn_above_def)
  finally show ?thesis by (simp add: nvme_ids)
qed

theorem nvme_assessment_witness:
  "snd (EvaluateAttribute (zero_attr\<lparr>a_id := 10, a_name := ''Error Log Entries'', a_raw := 1, a_rawstr := ''1''\<rparr>) ''nvme'')
    = StatusFailedScrutiny"
proof -
  let ?f = "\<lparr>nf_label = ''error information log entries'', nf_pad = 2, nf_value = 1, nf_digits = ''1'', nf_unit = []\<rparr>"
  have "digits10 1 = ''1''" by (simp add: digits10.simps digit_char_def char_of_eq_iff)
  then have ok: "nvme_field_ok ?f"
    by (simp add: nvme_field_ok_def printable_def is_digit_def remove_byte_def max_i64_def nl_def)
  have "to_lower ''error information log entries'' = ''error information log entries''" by code_simp
  then have "nvme_attr_of ?f =
      Some (zero_attr\<lparr>a_id := 10, a_name := ''Error Log Entries'', a_raw := 1, a_rawstr := ''1''\<rparr>)"
    by (simp add: nvme_attr_of_def nvmeFieldMap_def nvme_ids nvme_body_def)
  with nvme_line_print [OF ok] have "nvme_line (print_nvme_field ?f) =
      Some (zero_attr\<lparr>a_id := 10, a_name := ''Error Log Entries'', a_raw := 1, a_rawstr := ''1''\<rparr>)" by simp
  from nvme_assessment [OF this, of "''nvme''"] show ?thesis by (simp add: bucket_top_def nvme_ids)
qed

section \<open>SCSI\<close>

definition scsi_reading :: "smart_attr \<Rightarrow> bool" where
  "scsi_reading a \<longleftrightarrow> (a_id a = SCSITemperature \<or> a_id a = SCSIPowerOnHours) \<and>
     a_threshold a = 0 \<and> 0 \<le> a_raw a \<and> a_raw a \<le> max_i64 \<and> a_rawstr a = itoa (a_raw a)"

lemma scsi_reading_made:
  "i = SCSITemperature \<or> i = SCSIPowerOnHours \<Longrightarrow> 0 \<le> v \<Longrightarrow> atoi s = Some v \<Longrightarrow>
   scsi_reading (zero_attr\<lparr>a_id := i, a_name := nm, a_raw := v, a_rawstr := itoa v\<rparr>)"
  using parse_int_in_i64 [of 10 s v] by (simp add: scsi_reading_def zero_attr_def in_i64_alt)

lemma after_colon_atoi: "extractIntAfterColon s = Some t \<Longrightarrow> \<exists>ds. atoi ds = Some t \<and> 0 \<le> t"
  using takeWhile_all_digits parse_int_digits_nonneg
  by (fastforce simp: extractIntAfterColon_def Let_def split: option.splits if_splits)

lemma pred_option_SomeD: "pred_option P x \<Longrightarrow> x = Some a \<Longrightarrow> P a"
  by simp

lemma scsi_line_reading: "pred_option scsi_reading (scsi_line l)"
proof -
  have t: "extractIntAfterColon s = Some v \<Longrightarrow>
      scsi_reading (zero_attr\<lparr>a_id := SCSITemperature, a_name := nm, a_raw := v, a_rawstr := itoa v\<rparr>)" for s v nm
    using after_colon_atoi scsi_reading_made by blast
  have h: "atoi s = Some v \<Longrightarrow> 0 \<le> v \<Longrightarrow>
      scsi_reading (zero_attr\<lparr>a_id := SCSIPowerOnHours, a_name := nm, a_raw := v, a_rawstr := itoa v\<rparr>)" for s v nm
    using scsi_reading_made by blast
  show ?thesis unfolding scsi_line_def Let_def
    by (simp add: t h split: if_split option.split prod.split)
qed

lemmas scsi_ids = SCSITemperature_def SCSIPowerOnHours_def

text \<open>What a SCSI disk's text yields: temperatures and power-on hours only, under ids no ATA
  attribute has, never negative, with the number itself as the text. None of them can make the
  assessment warn or fail: a disk whose attributes come from this text always passes.\<close>

theorem scsi_always_passes:
  "list_all (\<lambda>a. (a_id a = SCSITemperature \<or> a_id a = SCSIPowerOnHours) \<and> 0 \<le> a_raw a \<and>
      a_raw a \<le> max_i64 \<and> a_rawstr a = itoa (a_raw a)) (ParseSCSIText text) \<and>
   snd (EvaluateDisk (d\<lparr>d_attrs := ParseSCSIText text\<rparr>)) = StatusPassed"
proof -
  have a: "scsi_reading a" if "a \<in> set (ParseSCSIText text)" for a
    using that scsi_line_reading [THEN pred_option_SomeD] by (auto simp: ParseSCSIText_def List.map_filter_def)
  have "snd (EvaluateAttribute a p) = 0" if "scsi_reading a" for a p
  proof -
    have "fail_above (a_id a) = None" and "warn_above (a_id a) = None"
      using that by (auto simp: scsi_reading_def fail_above_def warn_above_def scsi_ids)
    moreover have "\<not> vendor_failed a" using that by (simp add: scsi_reading_def vendor_failed_def)
    ultimately show ?thesis by (simp add: verdict_eq scrutiny_verdict_def StatusPassed_def)
  qed
  with a have "\<forall>a \<in> set (ParseSCSIText text). snd (EvaluateAttribute a (d_protocol d)) = 0" by blast
  then have "snd (EvaluateDisk (d\<lparr>d_attrs := ParseSCSIText text\<rparr>)) = 0"
    by (simp add: EvaluateDisk_def evaluate_attrs_eq Let_def case_prod_unfold fold_or_zero StatusPassed_def)
  with a show ?thesis by (auto simp: list_all_iff StatusPassed_def scsi_reading_def)
qed

end
