(* ===== verification/Cache.thy ===== *)
theory Cache
  imports Domain
begin

text \<open>
  \<open>internal/cache/cache.go\<close>: the store of everything that was polled. Every method holds the mutex
  for its whole body, so concurrent callers amount to a sequence of the operations below. Here a
  pointer stands for the value it points to; the theory \<open>CacheHeap\<close> keeps the pointers to the nodes
  and justifies this.
\<close>

record cache =
  c_nodes :: "(string, (string, node) gomap) gomap"
  c_guests :: "(string, (int, guest) gomap) gomap"
  c_disks :: "(string, disk) gomap"
  c_datastores :: "(string, (string, datastore_status) gomap) gomap"
  c_backups :: "(string, (string, backup) gomap) gomap"
  c_tasks :: "(string, pbs_task list) gomap"
  c_lastpoll :: "(string, gotime) gomap"

type_synonym cache_snapshot = cache

definition cache_new :: cache where
  "cache_new = \<lparr>c_nodes = [], c_guests = [], c_disks = [], c_datastores = [], c_backups = [],
     c_tasks = [], c_lastpoll = []\<rparr>"

text \<open>A loop that fills a new map with a copy of each entry.\<close>

definition gm_build :: "('v \<Rightarrow> 'w) \<Rightarrow> ('k, 'v) gomap \<Rightarrow> ('k, 'w) gomap" where
  "gm_build f m = fold (\<lambda>(k, v) acc. gm_put k (f v) acc) m []"

definition Snapshot :: "cache \<Rightarrow> cache_snapshot" where
  "Snapshot c =
     \<lparr>c_nodes = gm_build (gm_build (\<lambda>v. v)) (c_nodes c),
      c_guests = gm_build (gm_build (\<lambda>v. v)) (c_guests c),
      c_disks = gm_build (\<lambda>d. d\<lparr>d_attrs := map (\<lambda>a. a) (d_attrs d)\<rparr>) (c_disks c),
      c_datastores = gm_build (gm_build (\<lambda>v. v)) (c_datastores c),
      c_backups = gm_build (gm_build (\<lambda>v. v)) (c_backups c),
      c_tasks = gm_build (map (\<lambda>t. t)) (c_tasks c),
      c_lastpoll = gm_copy [] (c_lastpoll c)\<rparr>"

definition UpdateNodes :: "string \<Rightarrow> (string, node) gomap \<Rightarrow> cache \<Rightarrow> cache" where
  "UpdateNodes inst nodes c = c\<lparr>c_nodes := gm_put inst nodes (c_nodes c)\<rparr>"

definition UpdateGuests :: "string \<Rightarrow> (int, guest) gomap \<Rightarrow> cache \<Rightarrow> cache" where
  "UpdateGuests clusterID guests c = c\<lparr>c_guests := gm_put clusterID guests (c_guests c)\<rparr>"

definition UpdateDisks :: "(string, disk) gomap \<Rightarrow> cache \<Rightarrow> cache" where
  "UpdateDisks disks c = c\<lparr>c_disks := gm_copy (c_disks c) disks\<rparr>"

definition UpdateDatastores :: "string \<Rightarrow> (string, datastore_status) gomap \<Rightarrow> cache \<Rightarrow> cache" where
  "UpdateDatastores pbs ds c = c\<lparr>c_datastores := gm_put pbs ds (c_datastores c)\<rparr>"

definition UpdateBackups :: "string \<Rightarrow> (string, backup) gomap \<Rightarrow> cache \<Rightarrow> cache" where
  "UpdateBackups pbs bs c = c\<lparr>c_backups := gm_put pbs bs (c_backups c)\<rparr>"

definition UpdateTasks :: "string \<Rightarrow> pbs_task list \<Rightarrow> cache \<Rightarrow> cache" where
  "UpdateTasks pbs ts c = c\<lparr>c_tasks := gm_put pbs ts (c_tasks c)\<rparr>"

definition UpdateNodeTemperature :: "string \<Rightarrow> string \<Rightarrow> f64 \<Rightarrow> cache \<Rightarrow> cache" where
  "UpdateNodeTemperature inst nd temp c =
     (case gm_get (c_nodes c) inst of
        None \<Rightarrow> c
      | Some nodes \<Rightarrow>
          (case gm_get nodes nd of
             None \<Rightarrow> c
           | Some n \<Rightarrow> c\<lparr>c_nodes := gm_put inst (gm_put nd (n\<lparr>n_temperature := Some temp\<rparr>) nodes) (c_nodes c)\<rparr>))"

definition SetLastPoll :: "string \<Rightarrow> gotime \<Rightarrow> cache \<Rightarrow> cache" where
  "SetLastPoll cid t c = c\<lparr>c_lastpoll := gm_put cid t (c_lastpoll c)\<rparr>"

section \<open>Well-formed caches\<close>

definition wf_nested :: "('a, ('b, 'c) gomap) gomap \<Rightarrow> bool" where
  "wf_nested m \<longleftrightarrow> wf_gomap m \<and> (\<forall>p \<in> set m. wf_gomap (snd p))"

definition wf_cache :: "cache \<Rightarrow> bool" where
  "wf_cache c \<longleftrightarrow> wf_nested (c_nodes c) \<and> wf_nested (c_guests c) \<and> wf_gomap (c_disks c) \<and>
     wf_nested (c_datastores c) \<and> wf_nested (c_backups c) \<and> wf_gomap (c_tasks c) \<and>
     wf_gomap (c_lastpoll c)"

lemma set_gm_put: "p \<in> set (gm_put k v m) \<Longrightarrow> p = (k, v) \<or> p \<in> set m"
  by (induction m) (auto simp: gm_put_def split: if_splits)

lemma wf_nested_put [wf_intros]: "wf_nested m \<Longrightarrow> wf_gomap v \<Longrightarrow> wf_nested (gm_put k v m)"
  by (auto simp: wf_nested_def wf_gm_put dest: set_gm_put)

lemma wf_nested_get: "wf_nested m \<Longrightarrow> gm_get m k = Some v \<Longrightarrow> wf_gomap v"
  by (drule map_of_SomeD) (fastforce simp: wf_nested_def)

lemma gm_put_append: "k \<notin> fst ` set m \<Longrightarrow> gm_put k v m = m @ [(k, v)]"
  by (induction m) (auto simp: gm_put_def)

lemma gm_build_eq:
  assumes "wf_gomap m"
  shows "gm_build f m = gm_map f m"
proof -
  have "wf_gomap m \<Longrightarrow> fst ` set acc \<inter> fst ` set m = {} \<Longrightarrow>
      fold (\<lambda>(k, v) acc. gm_put k (f v) acc) m acc = acc @ gm_map f m" for acc
  proof (induction m arbitrary: acc)
    case (Cons p m)
    obtain k v where p: "p = (k, v)" by (cases p)
    with Cons.prems have "gm_put k (f v) acc = acc @ [(k, f v)]" by (intro gm_put_append) auto
    with Cons.IH [of "acc @ [(k, f v)]"] Cons.prems p show ?case
      by (auto simp: gm_map_def wf_gomap_def)
  qed (simp add: gm_map_def)
  from this [of "[]"] assms show ?thesis by (simp add: gm_build_def)
qed

lemma gm_map_ident: "gm_map (\<lambda>v. v) m = m"
  by (induction m) (auto simp: gm_map_def)

lemma gm_map_cong: "(\<And>p. p \<in> set m \<Longrightarrow> f (snd p) = g (snd p)) \<Longrightarrow> gm_map f m = gm_map g m"
  by (auto simp: gm_map_def)

lemma gm_build_nested: "wf_nested m \<Longrightarrow> gm_build (gm_build (\<lambda>v. v)) m = m"
proof -
  assume m: "wf_nested m"
  then have "gm_map (gm_build (\<lambda>v. v)) m = gm_map (\<lambda>v. v) m"
    by (intro gm_map_cong) (auto simp: wf_nested_def gm_build_eq gm_map_ident)
  with m show ?thesis by (simp add: gm_build_eq wf_nested_def gm_map_ident)
qed

lemma gm_copy_build: "gm_copy [] m = gm_build (\<lambda>v. v) m"
  by (simp add: gm_copy_def gm_build_def)

lemma Snapshot_eq: "wf_cache c \<Longrightarrow> Snapshot c = c"
  by (simp add: Snapshot_def wf_cache_def gm_build_nested gm_build_eq gm_map_ident gm_copy_build)

lemma wf_cache_new [wf_intros, simp]: "wf_cache cache_new"
  by (simp add: wf_cache_def cache_new_def wf_nested_def)

section \<open>Sequences of operations\<close>

datatype cache_op =
    PutNodes string "(string, node) gomap"
  | PutGuests string "(int, guest) gomap"
  | PutDisks "(string, disk) gomap"
  | PutDatastores string "(string, datastore_status) gomap"
  | PutBackups string "(string, backup) gomap"
  | PutTasks string "pbs_task list"
  | PutTemperature string string f64
  | PutLastPoll string gotime

fun cache_apply :: "cache_op \<Rightarrow> cache \<Rightarrow> cache" where
  "cache_apply (PutNodes i m) = UpdateNodes i m"
| "cache_apply (PutGuests i m) = UpdateGuests i m"
| "cache_apply (PutDisks m) = UpdateDisks m"
| "cache_apply (PutDatastores i m) = UpdateDatastores i m"
| "cache_apply (PutBackups i m) = UpdateBackups i m"
| "cache_apply (PutTasks i m) = UpdateTasks i m"
| "cache_apply (PutTemperature i n t) = UpdateNodeTemperature i n t"
| "cache_apply (PutLastPoll i t) = SetLastPoll i t"

definition cache_run :: "cache_op list \<Rightarrow> cache \<Rightarrow> cache" where
  "cache_run ops c = fold cache_apply ops c"

text \<open>The argument of an operation is a map the caller built.\<close>

fun op_ok :: "cache_op \<Rightarrow> bool" where
  "op_ok (PutNodes i m) = wf_gomap m"
| "op_ok (PutGuests i m) = wf_gomap m"
| "op_ok (PutDisks m) = wf_gomap m"
| "op_ok (PutDatastores i m) = wf_gomap m"
| "op_ok (PutBackups i m) = wf_gomap m"
| "op_ok _ = True"

lemmas cache_ops = UpdateNodes_def UpdateGuests_def UpdateDisks_def UpdateDatastores_def
  UpdateBackups_def UpdateTasks_def SetLastPoll_def

lemma wf_cache_apply: "wf_cache c \<Longrightarrow> op_ok o1 \<Longrightarrow> wf_cache (cache_apply o1 c)"
  by (cases o1) (auto simp: cache_ops wf_cache_def UpdateNodeTemperature_def
      intro!: wf_intros intro: wf_nested_get split: option.split)

lemma wf_cache_run: "list_all op_ok ops \<Longrightarrow> wf_cache c \<Longrightarrow> wf_cache (cache_run ops c)"
  unfolding cache_run_def by (rule fold_invariant) (auto simp: list_all_iff wf_cache_apply)

text \<open>The nodes of one instance, as the operations on that instance leave them.\<close>

fun inst_nodes :: "string \<Rightarrow> cache_op \<Rightarrow> (string, node) gomap option \<Rightarrow> (string, node) gomap option" where
  "inst_nodes i (PutNodes j m) cur = (if i = j then Some m else cur)"
| "inst_nodes i (PutTemperature j n t) cur =
     (if i \<noteq> j then cur
      else case cur of None \<Rightarrow> None
        | Some m \<Rightarrow> (case gm_get m n of None \<Rightarrow> Some m
             | Some x \<Rightarrow> Some (gm_put n (x\<lparr>n_temperature := Some t\<rparr>) m)))"
| "inst_nodes i _ cur = cur"

lemma inst_nodes_apply: "gm_get (c_nodes (cache_apply o1 c)) i = inst_nodes i o1 (gm_get (c_nodes c) i)"
  by (cases o1) (auto simp: cache_ops UpdateNodeTemperature_def split: option.split)

fun op_disks :: "cache_op \<Rightarrow> string \<Rightarrow> disk option" where
  "op_disks (PutDisks m) = gm_get m"
| "op_disks _ = (\<lambda>_. None)"

lemma disks_apply:
  assumes "wf_cache c" and "op_ok o1"
  shows "gm_get (c_disks (cache_apply o1 c)) = gm_get (c_disks c) ++ op_disks o1"
  using assms
  by (cases o1) (auto simp: cache_ops UpdateNodeTemperature_def gm_get_copy wf_cache_def split: option.split)

text \<open>The cache after any interleaving of the collectors' updates. The nodes of an instance are
  what that instance's own operations made of them, in their order, whatever the other collectors
  did in between; a disk once seen is never lost, and its entry is the one of the last update that
  had it; and a snapshot taken then holds exactly the contents.\<close>

theorem cache_interleaving:
  assumes "list_all op_ok ops"
  shows "gm_get (c_nodes (cache_run ops cache_new)) i = fold (inst_nodes i) ops None \<and>
    gm_get (c_disks (cache_run ops cache_new)) = fold (\<lambda>o1 m. m ++ op_disks o1) ops Map.empty \<and>
    Snapshot (cache_run ops cache_new) = cache_run ops cache_new"
proof -
  have "list_all op_ok ops \<Longrightarrow> wf_cache c \<Longrightarrow>
      gm_get (c_nodes (cache_run ops c)) i = fold (inst_nodes i) ops (gm_get (c_nodes c) i) \<and>
      gm_get (c_disks (cache_run ops c)) = fold (\<lambda>o1 m. m ++ op_disks o1) ops (gm_get (c_disks c))" for c
    by (induction ops arbitrary: c)
      (simp_all add: cache_run_def inst_nodes_apply disks_apply wf_cache_apply)
  from this [OF assms wf_cache_new] have
    "gm_get (c_nodes (cache_run ops cache_new)) i = fold (inst_nodes i) ops None \<and>
     gm_get (c_disks (cache_run ops cache_new)) = fold (\<lambda>o1 m. m ++ op_disks o1) ops Map.empty"
    by (simp add: cache_new_def)
  with Snapshot_eq [OF wf_cache_run [OF assms wf_cache_new]] show ?thesis by simp
qed

theorem cache_interleaving_witness:
  "gm_get (c_disks (cache_run [PutDisks [(''w'', zero_disk)], PutLastPoll ''p'' 0, PutDisks []] cache_new)) ''w''
    = Some zero_disk"
  using cache_interleaving [of "[PutDisks [(''w'', zero_disk)], PutLastPoll ''p'' 0, PutDisks []]"]
  by simp

end
