(* ===== verification/CacheHeap.thy ===== *)
theory CacheHeap
  imports Cache
begin

text \<open>
  The cache with its pointers. \<open>UpdateNodes\<close> keeps the pointers its caller hands over and
  \<open>UpdateNodeTemperature\<close> writes through one of them; so what a snapshot may share with the cache
  matters. Here the nodes live in a heap, a list indexed by address to which allocation appends; the
  other data is never written through a pointer once it is in the cache, and the value-level model of
  \<open>Cache\<close> is exact for it.
\<close>

type_synonym addr = nat
type_synonym node_refs = "(string, (string, addr) gomap) gomap"

record heap_cache =
  hc_heap :: "node list"
  hc_nodes :: node_refs

definition h_alloc :: "node \<Rightarrow> heap_cache \<Rightarrow> addr \<times> heap_cache" where
  "h_alloc n h = (length (hc_heap h), h\<lparr>hc_heap := hc_heap h @ [n]\<rparr>)"

definition h_update_nodes :: "string \<Rightarrow> (string, addr) gomap \<Rightarrow> heap_cache \<Rightarrow> heap_cache" where
  "h_update_nodes inst nodes h = h\<lparr>hc_nodes := gm_put inst nodes (hc_nodes h)\<rparr>"

definition h_update_temperature :: "string \<Rightarrow> string \<Rightarrow> f64 \<Rightarrow> heap_cache \<Rightarrow> heap_cache" where
  "h_update_temperature inst nd temp h =
     (case gm_get (hc_nodes h) inst of
        None \<Rightarrow> h
      | Some nodes \<Rightarrow>
          (case gm_get nodes nd of
             None \<Rightarrow> h
           | Some a \<Rightarrow> h\<lparr>hc_heap := (hc_heap h)[a := (hc_heap h ! a)\<lparr>n_temperature := Some temp\<rparr>]\<rparr>))"

text \<open>The inner and the outer loop of \<open>Snapshot\<close> over the nodes: \<open>cp := *v; m[k] = &cp\<close>.\<close>

fun h_copy_nodes :: "(string, addr) gomap \<Rightarrow> heap_cache \<Rightarrow> (string, addr) gomap \<times> heap_cache" where
  "h_copy_nodes [] h = ([], h)"
| "h_copy_nodes ((k, v) # nodes) h =
     (let (a, h) = h_alloc (hc_heap h ! v) h; (m, h) = h_copy_nodes nodes h in ((k, a) # m, h))"

fun h_copy_all :: "node_refs \<Rightarrow> heap_cache \<Rightarrow> node_refs \<times> heap_cache" where
  "h_copy_all [] h = ([], h)"
| "h_copy_all ((inst, nodes) # rest) h =
     (let (m, h) = h_copy_nodes nodes h; (r, h) = h_copy_all rest h in ((inst, m) # r, h))"

definition h_snapshot :: "heap_cache \<Rightarrow> node_refs \<times> heap_cache" where
  "h_snapshot h = h_copy_all (hc_nodes h) h"

text \<open>What the pointers of a map point to.\<close>

definition deref :: "node list \<Rightarrow> node_refs \<Rightarrow> (string, (string, node) gomap) gomap" where
  "deref heap m = gm_map (gm_map (\<lambda>a. heap ! a)) m"

definition refs :: "node_refs \<Rightarrow> addr list" where
  "refs m = concat (map (\<lambda>(inst, nodes). map snd nodes) m)"

text \<open>The invariant: every pointer is valid and no two entries share one.\<close>

definition heap_ok :: "heap_cache \<Rightarrow> bool" where
  "heap_ok h \<longleftrightarrow> wf_nested (hc_nodes h) \<and> distinct (refs (hc_nodes h)) \<and>
     list_all (\<lambda>a. a < length (hc_heap h)) (refs (hc_nodes h))"

definition bare_node :: node where
  "bare_node = \<lparr>n_instance = ''i'', n_name = ''a'', n_status = [], n_cpu = Fin 0, n_cpuinfo = \<lparr>ci_model = [], ci_cores = 0,
     ci_threads = 0, ci_sockets = 0\<rparr>, n_memory = \<lparr>us_used = 0, us_total = 0\<rparr>, n_swap = \<lparr>us_used = 0, us_total = 0\<rparr>,
     n_rootfs = \<lparr>us_used = 0, us_total = 0\<rparr>, n_load = (Fin 0, Fin 0, Fin 0), n_uptime = 0, n_iowait = Fin 0,
     n_pveversion = [], n_kernel = [], n_temperature = None\<rparr>"

section \<open>Reading through pointers\<close>

lemma refs_simps [simp]: "refs [] = []" "refs ((i, ns) # m) = map snd ns @ refs m"
  by (simp_all add: refs_def)

lemma gm_map_simps [simp]: "gm_map f [] = []" "gm_map f ((k, v) # m) = (k, f v) # gm_map f m"
  by (simp_all add: gm_map_def)

lemma deref_simps [simp]:
  "deref heap [] = []" "deref heap ((i, ns) # m) = (i, gm_map (\<lambda>a. heap ! a) ns) # deref heap m"
  by (simp_all add: deref_def)

lemma gm_map_heap_cong: "(\<And>a. a \<in> snd ` set m \<Longrightarrow> heap ! a = heap' ! a) \<Longrightarrow>
    gm_map (\<lambda>a. heap ! a) m = gm_map (\<lambda>a. heap' ! a) m"
  by (force simp: gm_map_def)

lemma deref_cong: "(\<And>a. a \<in> set (refs m) \<Longrightarrow> heap ! a = heap' ! a) \<Longrightarrow> deref heap m = deref heap' m"
proof (induction m)
  case (Cons p m)
  obtain i ns where p: "p = (i, ns)" by (cases p)
  from Cons.prems have "gm_map (\<lambda>a. heap ! a) ns = gm_map (\<lambda>a. heap' ! a) ns"
    by (intro gm_map_heap_cong) (auto simp: p)
  with Cons show ?case by (simp add: p)
qed simp

lemma refs_get: "gm_get m i = Some ns \<Longrightarrow> set (map snd ns) \<subseteq> set (refs m)"
  by (induction m) (force split: if_splits)+

section \<open>Snapshots\<close>

lemma h_copy_nodes_eq:
  "list_all (\<lambda>a. a < length (hc_heap h)) (map snd nodes) \<Longrightarrow>
   h_copy_nodes nodes h =
     (zip (map fst nodes) [length (hc_heap h)..<length (hc_heap h) + length nodes],
      h\<lparr>hc_heap := hc_heap h @ map (\<lambda>p. hc_heap h ! snd p) nodes\<rparr>)"
proof (induction nodes h rule: h_copy_nodes.induct)
  case (2 k v nodes h)
  let ?h = "h\<lparr>hc_heap := hc_heap h @ [hc_heap h ! v]\<rparr>"
  have "list_all (\<lambda>a. a < length (hc_heap ?h)) (map snd nodes)"
    using "2.prems" by (auto simp: list_all_iff)
  with "2.IH" [of "(length (hc_heap h), ?h)" "length (hc_heap h)" ?h]
  have IH: "h_copy_nodes nodes ?h = (zip (map fst nodes) [length (hc_heap ?h)..<length (hc_heap ?h) + length nodes],
      ?h\<lparr>hc_heap := hc_heap ?h @ map (\<lambda>p. hc_heap ?h ! snd p) nodes\<rparr>)"
    by (simp add: h_alloc_def)
  have "map (\<lambda>p. hc_heap ?h ! snd p) nodes = map (\<lambda>p. hc_heap h ! snd p) nodes"
    using "2.prems" by (auto simp: list_all_iff nth_append)
  then show ?case using IH by (simp add: h_alloc_def Let_def upt_conv_Cons del: upt_Suc)
qed simp

lemma h_copy_all_spec:
  assumes "list_all (\<lambda>a. a < length (hc_heap h)) (refs m)"
  shows "\<exists>new. snd (h_copy_all m h) = h\<lparr>hc_heap := hc_heap h @ new\<rparr> \<and>
    refs (fst (h_copy_all m h)) = [length (hc_heap h)..<length (hc_heap h) + length new] \<and>
    deref (hc_heap h @ new) (fst (h_copy_all m h)) = deref (hc_heap h) m"
  using assms
proof (induction m arbitrary: h)
  case (Cons p m)
  obtain i ns where p: "p = (i, ns)" by (cases p)
  let ?L = "length (hc_heap h)"
  define h1 where "h1 = h\<lparr>hc_heap := hc_heap h @ map (\<lambda>p. hc_heap h ! snd p) ns\<rparr>"
  define z where "z = zip (map fst ns) [?L..<?L + length ns]"
  have L1: "length (hc_heap h1) = ?L + length ns" by (simp add: h1_def)
  have valid: "a < ?L" if "a \<in> set (refs m) \<or> a \<in> snd ` set ns" for a
    using that Cons.prems by (auto simp: p list_all_iff)
  have c: "h_copy_nodes ns h = (z, h1)"
    unfolding z_def h1_def by (rule h_copy_nodes_eq) (use valid in \<open>auto simp: list_all_iff\<close>)
  have "list_all (\<lambda>a. a < length (hc_heap h1)) (refs m)"
    using valid L1 by (auto simp: list_all_iff intro: trans_less_add1)
  from Cons.IH [OF this] obtain new where
    new: "snd (h_copy_all m h1) = h1\<lparr>hc_heap := hc_heap h1 @ new\<rparr>"
      "refs (fst (h_copy_all m h1)) = [length (hc_heap h1)..<length (hc_heap h1) + length new]"
      "deref (hc_heap h1 @ new) (fst (h_copy_all m h1)) = deref (hc_heap h1) m" by blast
  have d: "deref (hc_heap h1) m = deref (hc_heap h) m"
    by (rule deref_cong) (use valid in \<open>auto simp: h1_def nth_append\<close>)
  have snd_z: "map snd z = [?L..<?L + length ns]" by (simp add: z_def)
  have g: "gm_map (\<lambda>a. (hc_heap h1 @ new) ! a) z = gm_map (\<lambda>a. hc_heap h ! a) ns"
    by (rule nth_equalityI) (auto simp: gm_map_def z_def h1_def nth_append case_prod_unfold)
  have "[?L..<?L + length ns] @ [?L + length ns..<?L + length ns + length new] =
      [?L..<?L + length ns + length new]"
    using upt_add_eq_append [of ?L "?L + length ns" "length new"] by simp
  then show ?case
    using new d g snd_z L1
    by (intro exI [of _ "map (\<lambda>p. hc_heap h ! snd p) ns @ new"])
      (simp add: p c case_prod_unfold Let_def h1_def add.assoc)
qed (auto intro: exI [of _ "[]"])

lemma snapshot_spec:
  assumes "heap_ok h" and "h_snapshot h = (snap, h')"
  shows "hc_nodes h' = hc_nodes h \<and> length (hc_heap h) \<le> length (hc_heap h') \<and>
    (\<forall>a < length (hc_heap h). hc_heap h' ! a = hc_heap h ! a) \<and>
    (\<forall>a \<in> set (refs snap). length (hc_heap h) \<le> a \<and> a < length (hc_heap h')) \<and>
    deref (hc_heap h') snap = deref (hc_heap h) (hc_nodes h)"
  using h_copy_all_spec [of h "hc_nodes h"] assms
  by (fastforce simp: heap_ok_def h_snapshot_def nth_append)

section \<open>Operations after a snapshot\<close>

datatype heap_op =
    HAlloc node
  | HNodes string "(string, addr) gomap"
  | HTemperature string string f64
  | HSnapshot

fun heap_apply :: "heap_op \<Rightarrow> heap_cache \<Rightarrow> heap_cache" where
  "heap_apply (HAlloc n) h = snd (h_alloc n h)"
| "heap_apply (HNodes i m) h = h_update_nodes i m h"
| "heap_apply (HTemperature i n t) h = h_update_temperature i n t h"
| "heap_apply HSnapshot h = snd (h_snapshot h)"

definition heap_run :: "heap_op list \<Rightarrow> heap_cache \<Rightarrow> heap_cache" where
  "heap_run ops h = fold heap_apply ops h"

text \<open>The caller of \<open>UpdateNodes\<close> hands over valid pointers, one per node, that no other instance's
  entry and no one in \<open>used\<close> (the readers of a snapshot) has.\<close>

fun heap_op_ok :: "addr list \<Rightarrow> heap_op \<Rightarrow> heap_cache \<Rightarrow> bool" where
  "heap_op_ok used (HNodes i m) h \<longleftrightarrow> wf_gomap m \<and> distinct (map snd m) \<and>
     list_all (\<lambda>a. a < length (hc_heap h) \<and> a \<notin> set used \<and> a \<notin> set (refs (gm_del i (hc_nodes h)))) (map snd m)"
| "heap_op_ok used _ h \<longleftrightarrow> True"

fun heap_run_ok :: "addr list \<Rightarrow> heap_op list \<Rightarrow> heap_cache \<Rightarrow> bool" where
  "heap_run_ok used [] h \<longleftrightarrow> True"
| "heap_run_ok used (o1 # ops) h \<longleftrightarrow> heap_op_ok used o1 h \<and> heap_run_ok used ops (heap_apply o1 h)"

lemma refs_del: "set (refs (gm_del i m)) \<subseteq> set (refs m)"
  by (induction m) (auto simp: gm_del_def)

lemma refs_put:
  assumes "wf_gomap m"
  shows "mset (refs (gm_put i ns m)) = mset (map snd ns) + mset (refs (gm_del i m))"
  using assms
proof (induction m)
  case (Cons p m)
  obtain j ms where p: "p = (j, ms)" by (cases p)
  show ?case
  proof (cases "i = j")
    case True
    with Cons.prems p have "gm_del i m = m" by (simp add: gm_del_def delete_id)
    with True p show ?thesis by (simp add: gm_put_def gm_del_def)
  next
    case False
    with Cons p show ?thesis by (simp add: gm_put_def gm_del_def)
  qed
qed (simp add: gm_put_def gm_del_def)

lemma distinct_refs_del: "distinct (refs m) \<Longrightarrow> distinct (refs (gm_del i m))"
proof (induction m)
  case (Cons p m)
  then show ?case using refs_del [of i m] by (cases p) (auto simp: gm_del_def)
qed (simp add: gm_del_def)

lemma put_ok:
  assumes "heap_ok h" and "heap_op_ok used (HNodes i m) h"
  shows "heap_ok (h_update_nodes i m h)"
    and "set (refs (hc_nodes (h_update_nodes i m h))) \<subseteq> set (refs (hc_nodes h)) \<union> set (map snd m)"
proof -
  have w: "wf_gomap (hc_nodes h)" using assms(1) by (simp add: heap_ok_def wf_nested_def)
  have ms: "mset (refs (gm_put i m (hc_nodes h))) = mset (map snd m @ refs (gm_del i (hc_nodes h)))"
    using refs_put [OF w] by simp
  have set: "set (refs (gm_put i m (hc_nodes h))) = set (map snd m) \<union> set (refs (gm_del i (hc_nodes h)))"
    using mset_eq_setD [OF ms] by simp
  have "distinct (map snd m @ refs (gm_del i (hc_nodes h)))"
    using assms distinct_refs_del [of "hc_nodes h" i] by (auto simp: heap_ok_def list_all_iff)
  then have "distinct (refs (gm_put i m (hc_nodes h)))"
    using mset_eq_imp_distinct_iff [OF ms] by blast
  with set refs_del [of i "hc_nodes h"] assms show "heap_ok (h_update_nodes i m h)"
    by (auto simp: heap_ok_def h_update_nodes_def list_all_iff wf_nested_put)
  show "set (refs (hc_nodes (h_update_nodes i m h))) \<subseteq> set (refs (hc_nodes h)) \<union> set (map snd m)"
    using set refs_del [of i "hc_nodes h"] by (auto simp: h_update_nodes_def)
qed

lemma temperature_frame:
  "hc_nodes (h_update_temperature i n t h) = hc_nodes h \<and>
   length (hc_heap (h_update_temperature i n t h)) = length (hc_heap h) \<and>
   (\<forall>a. a \<notin> set (refs (hc_nodes h)) \<longrightarrow> hc_heap (h_update_temperature i n t h) ! a = hc_heap h ! a)"
proof -
  have "gm_get (hc_nodes h) i = Some ns \<Longrightarrow> gm_get ns n = Some a \<Longrightarrow> a \<in> set (refs (hc_nodes h))" for ns a
    using refs_get [of "hc_nodes h" i ns] map_of_SomeD [of ns n a] by force
  then have "gm_get (hc_nodes h) i = Some ns \<Longrightarrow> gm_get ns n = Some a \<Longrightarrow>
      b \<notin> set (refs (hc_nodes h)) \<Longrightarrow> (hc_heap h)[a := x] ! b = hc_heap h ! b" for ns a b x
    by (metis nth_list_update_neq)
  then show ?thesis by (auto simp: h_update_temperature_def split: option.split)
qed

text \<open>What every operation keeps: the invariant, and the nodes only the snapshot refers to.\<close>

definition kept_apart :: "addr list \<Rightarrow> node list \<Rightarrow> heap_cache \<Rightarrow> bool" where
  "kept_apart used heap h \<longleftrightarrow> heap_ok h \<and>
     list_all (\<lambda>a. a < length (hc_heap h) \<and> a \<notin> set (refs (hc_nodes h)) \<and> hc_heap h ! a = heap ! a) used"

lemma kept_apart_step:
  assumes "kept_apart used heap h" and "heap_op_ok used o1 h"
  shows "kept_apart used heap (heap_apply o1 h)"
proof (cases o1)
  case (HAlloc n)
  with assms show ?thesis
    by (auto simp: kept_apart_def heap_ok_def h_alloc_def list_all_iff nth_append less_Suc_eq)
next
  case (HNodes i m)
  with assms put_ok [of h used i m] show ?thesis
    by (fastforce simp: kept_apart_def list_all_iff h_update_nodes_def)
next
  case (HTemperature i n t)
  with assms temperature_frame [of i n t h] show ?thesis
    by (auto simp: kept_apart_def heap_ok_def list_all_iff)
next
  case HSnapshot
  obtain snap h' where s: "h_snapshot h = (snap, h')" by (cases "h_snapshot h")
  with assms snapshot_spec [OF _ s] HSnapshot show ?thesis
    by (auto simp: kept_apart_def heap_ok_def list_all_iff intro: less_le_trans)
qed

lemma heap_op_ok_less: "heap_op_ok used o1 h \<Longrightarrow> heap_op_ok [] o1 h"
  by (cases o1) (auto simp: list_all_iff)

lemma kept_apart_run:
  "heap_run_ok used ops h \<Longrightarrow> kept_apart used heap h \<Longrightarrow> kept_apart used heap (heap_run ops h)"
  unfolding heap_run_def by (induction ops arbitrary: h) (simp_all add: kept_apart_step)

lemma kept_apart_snapshot:
  assumes "heap_ok h" and "h_snapshot h = (snap, h')"
  shows "kept_apart (refs snap) (hc_heap h') h'"
proof -
  note s = snapshot_spec [OF assms]
  have v: "a < length (hc_heap h)" if "a \<in> set (refs (hc_nodes h))" for a
    using assms(1) that by (simp add: heap_ok_def list_all_iff)
  show ?thesis using s v assms(1) by (fastforce simp: kept_apart_def heap_ok_def list_all_iff)
qed

text \<open>C10: A snapshot is isolated. Whatever the collectors do to the cache afterwards (new nodes,
  whole maps replaced, temperatures written through the cache's pointers, further snapshots), what a
  reader sees through the pointers of the snapshot stays what the cache held when it was taken.\<close>

theorem snapshot_isolated:
  assumes "heap_ok h" and "h_snapshot h = (snap, h')" and "heap_run_ok (refs snap) ops h'"
  shows "deref (hc_heap (heap_run ops h')) snap = deref (hc_heap h) (hc_nodes h)"
proof -
  from kept_apart_run [OF assms(3) kept_apart_snapshot [OF assms(1,2)]]
  have "deref (hc_heap (heap_run ops h')) snap = deref (hc_heap h') snap"
    by (intro deref_cong) (simp add: kept_apart_def list_all_iff)
  with snapshot_spec [OF assms(1,2)] show ?thesis by simp
qed

theorem snapshot_isolated_witness:
  "(let n = \<lparr>n_instance = ''i'', n_name = ''a'', n_status = [], n_cpu = Fin 0, n_cpuinfo = \<lparr>ci_model = [], ci_cores = 0,
        ci_threads = 0, ci_sockets = 0\<rparr>, n_memory = \<lparr>us_used = 0, us_total = 0\<rparr>, n_swap = \<lparr>us_used = 0, us_total = 0\<rparr>,
        n_rootfs = \<lparr>us_used = 0, us_total = 0\<rparr>, n_load = (Fin 0, Fin 0, Fin 0), n_uptime = 0, n_iowait = Fin 0,
        n_pveversion = [], n_kernel = [], n_temperature = None\<rparr>;
      h = \<lparr>hc_heap = [n], hc_nodes = [(''i'', [(''a'', 0)])]\<rparr>;
      (snap, h') = h_snapshot h
    in deref (hc_heap (heap_run [HTemperature ''i'' ''a'' (Fin 50)] h')) snap = [(''i'', [(''a'', n)])])"
proof -
  let ?n = "\<lparr>n_instance = ''i'', n_name = ''a'', n_status = [], n_cpu = Fin 0, n_cpuinfo = \<lparr>ci_model = [], ci_cores = 0,
        ci_threads = 0, ci_sockets = 0\<rparr>, n_memory = \<lparr>us_used = 0, us_total = 0\<rparr>, n_swap = \<lparr>us_used = 0, us_total = 0\<rparr>,
        n_rootfs = \<lparr>us_used = 0, us_total = 0\<rparr>, n_load = (Fin 0, Fin 0, Fin 0), n_uptime = 0, n_iowait = Fin 0,
        n_pveversion = [], n_kernel = [], n_temperature = None\<rparr>"
  let ?h = "\<lparr>hc_heap = [?n], hc_nodes = [(''i'', [(''a'', 0)])]\<rparr>"
  have ok: "heap_ok ?h" by (simp add: heap_ok_def wf_nested_def wf_gomap_def)
  obtain snap h' where s: "h_snapshot ?h = (snap, h')" by (cases "h_snapshot ?h")
  have "heap_run_ok (refs snap) [HTemperature ''i'' ''a'' (Fin 50)] h'" by simp
  from snapshot_isolated [OF ok s this] s show ?thesis by (simp add: Let_def)
qed

section \<open>The value-level model is exact\<close>

text \<open>The value-level operations that a pointer-level one amounts to.\<close>

fun value_op :: "heap_cache \<Rightarrow> heap_op \<Rightarrow> cache_op list" where
  "value_op h (HNodes i m) = [PutNodes i (gm_map (\<lambda>a. hc_heap h ! a) m)]"
| "value_op h (HTemperature i n t) = [PutTemperature i n t]"
| "value_op h _ = []"

fun value_ops :: "heap_cache \<Rightarrow> heap_op list \<Rightarrow> cache_op list" where
  "value_ops h [] = []"
| "value_ops h (o1 # ops) = value_op h o1 @ value_ops (heap_apply o1 h) ops"

lemma gm_map_put: "gm_map f (gm_put k v m) = gm_put k (f v) (gm_map f m)"
  by (induction m) (auto simp: gm_put_def)

lemma deref_put: "deref heap (gm_put i ns m) = gm_put i (gm_map (\<lambda>a. heap ! a) ns) (deref heap m)"
  by (simp add: deref_def gm_map_put)

lemma gm_map_heap_upd:
  "wf_gomap ns \<Longrightarrow> distinct (map snd ns) \<Longrightarrow> gm_get ns nd = Some a \<Longrightarrow>
    list_all (\<lambda>a. a < length heap) (map snd ns) \<Longrightarrow>
    gm_map (\<lambda>a'. heap[a := x] ! a') ns = gm_put nd x (gm_map (\<lambda>a. heap ! a) ns)"
proof (induction ns)
  case (Cons p ns)
  obtain k b where p: "p = (k, b)" by (cases p)
  show ?case
  proof (cases "k = nd")
    case True
    with Cons.prems p have "gm_map (\<lambda>a'. heap[a := x] ! a') ns = gm_map (\<lambda>a. heap ! a) ns"
      by (intro gm_map_heap_cong nth_list_update_neq) auto
    with True Cons.prems p show ?thesis by (simp add: gm_put_def)
  next
    case False
    with Cons p have "a \<in> snd ` set ns" by (force dest: map_of_SomeD)
    with Cons.prems p have "a \<noteq> b" by auto
    with False Cons p show ?thesis by (auto simp: gm_put_def)
  qed
qed simp

lemma deref_heap_upd:
  "wf_nested m \<Longrightarrow> distinct (refs m) \<Longrightarrow> list_all (\<lambda>a. a < length heap) (refs m) \<Longrightarrow>
    gm_get m i = Some ns \<Longrightarrow> gm_get ns nd = Some a \<Longrightarrow>
    deref (heap[a := x]) m = gm_put i (gm_put nd x (gm_map (\<lambda>a. heap ! a) ns)) (deref heap m)"
proof (induction m)
  case (Cons p m)
  obtain j ms where p: "p = (j, ms)" by (cases p)
  show ?case
  proof (cases "j = i")
    case True
    with Cons.prems p have e: "ms = ns" and w: "wf_gomap ns" by (simp_all add: wf_nested_def)
    from Cons.prems e p have "a \<in> set (map snd ns)" by (force dest: map_of_SomeD)
    with Cons.prems e p have "deref (heap[a := x]) m = deref heap m"
      by (intro deref_cong nth_list_update_neq) auto
    with True Cons.prems p e w show ?thesis by (simp add: gm_map_heap_upd gm_put_def)
  next
    case False
    with Cons.prems p have g: "gm_get m i = Some ns" by simp
    have "a \<in> set (map snd ns)" using Cons.prems(5) by (force dest: map_of_SomeD)
    with refs_get [OF g] have "a \<in> set (refs m)" by blast
    with Cons.prems p have "gm_map (\<lambda>a'. heap[a := x] ! a') ms = gm_map (\<lambda>a. heap ! a) ms"
      by (intro gm_map_heap_cong nth_list_update_neq) force
    with False Cons g p show ?thesis by (simp add: gm_put_def wf_nested_def)
  qed
qed simp

lemma deref_get: "gm_get (deref heap m) i = map_option (gm_map (\<lambda>a. heap ! a)) (gm_get m i)"
  by (simp add: deref_def)

lemma value_step:
  assumes "heap_ok h" and "heap_op_ok used o1 h" and "c_nodes c = deref (hc_heap h) (hc_nodes h)"
  shows "c_nodes (cache_run (value_op h o1) c) = deref (hc_heap (heap_apply o1 h)) (hc_nodes (heap_apply o1 h))"
proof (cases o1)
  case (HAlloc n)
  have "deref (hc_heap h @ [n]) (hc_nodes h) = deref (hc_heap h) (hc_nodes h)"
    by (rule deref_cong) (use assms(1) in \<open>auto simp: heap_ok_def list_all_iff nth_append\<close>)
  with HAlloc assms show ?thesis by (simp add: cache_run_def h_alloc_def)
next
  case (HNodes i m)
  with assms show ?thesis
    by (simp add: cache_run_def UpdateNodes_def h_update_nodes_def deref_put)
next
  case (HTemperature i n t)
  show ?thesis
    using assms(1,3) deref_heap_upd [of "hc_nodes h" "hc_heap h" i _ n]
    by (auto simp: HTemperature cache_run_def UpdateNodeTemperature_def h_update_temperature_def
        deref_get heap_ok_def split: option.split)
next
  case HSnapshot
  obtain snap h' where s: "h_snapshot h = (snap, h')" by (cases "h_snapshot h")
  from snapshot_spec [OF assms(1) s] have "deref (hc_heap h') (hc_nodes h) = deref (hc_heap h) (hc_nodes h)"
    using assms(1) by (intro deref_cong) (auto simp: heap_ok_def list_all_iff)
  with HSnapshot s assms snapshot_spec [OF assms(1) s] show ?thesis by (simp add: cache_run_def)
qed

lemma heap_run_refines:
  assumes "heap_ok h" and "heap_run_ok used ops h" and "c_nodes c = deref (hc_heap h) (hc_nodes h)"
  shows "c_nodes (cache_run (value_ops h ops) c) =
      deref (hc_heap (heap_run ops h)) (hc_nodes (heap_run ops h)) \<and> heap_ok (heap_run ops h)"
  using assms
proof (induction ops arbitrary: h c)
  case (Cons o1 ops)
  have ok: "heap_ok (heap_apply o1 h)"
    using kept_apart_step [of "[]" "[]" h o1] heap_op_ok_less Cons.prems by (auto simp: kept_apart_def)
  have "c_nodes (cache_run (value_op h o1) c) =
      deref (hc_heap (heap_apply o1 h)) (hc_nodes (heap_apply o1 h))"
    using Cons.prems by (intro value_step [where used = used]) simp_all
  from Cons.IH [OF ok _ this] Cons.prems show ?case by (simp add: cache_run_def heap_run_def)
qed (simp add: cache_run_def heap_run_def)

section \<open>The whole cache\<close>

text \<open>The cache with the nodes behind pointers and its other maps, which only hold values that are never written again; of
  \<open>sh_rest\<close> the nodes are not used.\<close>

record shared_cache =
  sh_nodes :: heap_cache
  sh_rest :: cache

datatype shared_op = OnNodes heap_op | OnRest cache_op

fun shared_apply :: "shared_op \<Rightarrow> shared_cache \<Rightarrow> shared_cache" where
  "shared_apply (OnNodes o1) f = f\<lparr>sh_nodes := heap_apply o1 (sh_nodes f)\<rparr>"
| "shared_apply (OnRest o1) f = f\<lparr>sh_rest := cache_apply o1 (sh_rest f)\<rparr>"

definition shared_run :: "shared_op list \<Rightarrow> shared_cache \<Rightarrow> shared_cache" where
  "shared_run ops f = fold shared_apply ops f"

fun on_nodes :: "cache_op \<Rightarrow> bool" where
  "on_nodes (PutNodes i m) = True"
| "on_nodes (PutTemperature i n t) = True"
| "on_nodes _ = False"

fun shared_run_ok :: "addr list \<Rightarrow> shared_op list \<Rightarrow> shared_cache \<Rightarrow> bool" where
  "shared_run_ok used [] f \<longleftrightarrow> True"
| "shared_run_ok used (OnNodes o1 # ops) f \<longleftrightarrow> heap_op_ok used o1 (sh_nodes f) \<and> shared_run_ok used ops (shared_apply (OnNodes o1) f)"
| "shared_run_ok used (OnRest o1 # ops) f \<longleftrightarrow> \<not> on_nodes o1 \<and> shared_run_ok used ops (shared_apply (OnRest o1) f)"

text \<open>The whole \<open>Snapshot\<close>: copies of the nodes, and of the rest.\<close>

definition shared_snapshot :: "shared_cache \<Rightarrow> (node_refs \<times> cache) \<times> shared_cache" where
  "shared_snapshot f = (let (m, h) = h_snapshot (sh_nodes f) in ((m, Snapshot (sh_rest f)), f\<lparr>sh_nodes := h\<rparr>))"

text \<open>What the program sees: in the cache, and through a snapshot at a later moment.\<close>

definition contents :: "shared_cache \<Rightarrow> cache" where
  "contents f = (sh_rest f)\<lparr>c_nodes := deref (hc_heap (sh_nodes f)) (hc_nodes (sh_nodes f))\<rparr>"

definition seen_in :: "shared_cache \<Rightarrow> node_refs \<times> cache \<Rightarrow> cache_snapshot" where
  "seen_in f = (\<lambda>(m, r). r\<lparr>c_nodes := deref (hc_heap (sh_nodes f)) m\<rparr>)"

fun shared_values :: "shared_cache \<Rightarrow> shared_op list \<Rightarrow> cache_op list" where
  "shared_values f [] = []"
| "shared_values f (OnNodes o1 # ops) = value_op (sh_nodes f) o1 @ shared_values (shared_apply (OnNodes o1) f) ops"
| "shared_values f (OnRest o1 # ops) = o1 # shared_values (shared_apply (OnRest o1) f) ops"

fun node_op :: "shared_op \<Rightarrow> heap_op list" where
  "node_op (OnNodes o1) = [o1]"
| "node_op (OnRest o1) = []"

lemma nodes_run: "sh_nodes (shared_run ops f) = heap_run (concat (map node_op ops)) (sh_nodes f)"
  unfolding shared_run_def heap_run_def
proof (induction ops arbitrary: f)
  case (Cons o1 ops)
  then show ?case by (cases o1) simp_all
qed simp

lemma nodes_run_ok: "shared_run_ok used ops f \<Longrightarrow> heap_run_ok used (concat (map node_op ops)) (sh_nodes f)"
  by (induction used ops f rule: shared_run_ok.induct) simp_all

lemma value_frame: "cache_run (value_op h o1) c = c\<lparr>c_nodes := c_nodes (cache_run (value_op h o1) c)\<rparr>"
  by (cases o1) (simp_all add: cache_run_def UpdateNodes_def UpdateNodeTemperature_def split: option.split)

lemma rest_frame: "\<not> on_nodes o1 \<Longrightarrow> (cache_apply o1 c)\<lparr>c_nodes := m\<rparr> = cache_apply o1 (c\<lparr>c_nodes := m\<rparr>)"
  by (cases o1) (simp_all add: cache_ops)

lemma shared_step:
  assumes "heap_ok (sh_nodes f)" and "heap_op_ok used o1 (sh_nodes f)"
  shows "contents (shared_apply (OnNodes o1) f) = cache_run (value_op (sh_nodes f) o1) (contents f)"
  using value_step [OF assms, of "contents f"] value_frame [of "sh_nodes f" o1 "contents f"]
  by (simp add: contents_def)

lemma shared_run_refines:
  assumes "heap_ok (sh_nodes f)" and "shared_run_ok used ops f"
  shows "contents (shared_run ops f) = cache_run (shared_values f ops) (contents f)"
  using assms
proof (induction used ops f rule: shared_run_ok.induct)
  case (2 used o1 ops f)
  have "heap_ok (sh_nodes (shared_apply (OnNodes o1) f))"
    using kept_apart_step [of "[]" "[]" "sh_nodes f" o1] heap_op_ok_less "2.prems" by (auto simp: kept_apart_def)
  with 2 show ?case using shared_step [of f used o1] by (simp add: shared_run_def cache_run_def)
next
  case (3 used o1 ops f)
  then have "contents (shared_apply (OnRest o1) f) = cache_apply o1 (contents f)"
    by (simp add: contents_def rest_frame)
  with 3 show ?case by (simp add: shared_run_def cache_run_def)
qed (simp add: shared_run_def cache_run_def)

lemma wf_deref: "wf_nested m \<Longrightarrow> wf_nested (deref heap m)"
  by (auto simp: wf_nested_def deref_def gm_map_def wf_gomap_def comp_def case_prod_unfold)



end
