(* ===== verification/GoDuration.thy ===== *)
theory GoDuration
  imports GoTime
begin

text \<open>
  The text form of a duration, which the configuration uses: \<open>time.ParseDuration\<close> and
  \<open>Duration.String\<close>. Strings are UTF-8 bytes, so the two spellings of micro are two bytes each. The main
  result is that every duration is read back from its text.
\<close>

section \<open>ParseDuration\<close>

definition unit_ns :: "string \<Rightarrow> nat option" where
  "unit_ns = map_of [(''ns'', 1), ([CHR 0xC2, CHR 0xB5, CHR ''s''], 1000), ([CHR 0xCE, CHR 0xBC, CHR ''s''], 1000),
     (''us'', 1000), (''ms'', 1000000), (''s'', 1000000000), (''m'', 60000000000), (''h'', 3600000000000)]"

definition digit_of :: "char \<Rightarrow> nat" where
  "digit_of c = byte_of c - 48"

definition number_of :: "nat \<Rightarrow> string \<Rightarrow> nat" where
  "number_of x ds = fold (\<lambda>c x. 10 * x + digit_of c) ds x"

text \<open>The digits at the front, unless their number passes \<open>2 ^ 63\<close>.\<close>

definition leading_int :: "string \<Rightarrow> (nat \<times> string) option" where
  "leading_int s =
     (let v = number_of 0 (takeWhile is_digit s)
      in if v > 2 ^ 63 then None else Some (v, dropWhile is_digit s))"

text \<open>The fraction \<open>x / scale\<close>; digits that no longer fit are skipped.\<close>

fun leading_fraction :: "nat \<Rightarrow> nat \<Rightarrow> bool \<Rightarrow> string \<Rightarrow> nat \<times> nat \<times> string" where
  "leading_fraction x scale ovf [] = (x, scale, [])"
| "leading_fraction x scale ovf (c # cs) =
     (if \<not> is_digit c then (x, scale, c # cs)
      else if ovf \<or> x > (2 ^ 63 - 1) div 10 then leading_fraction x scale True cs
      else let y = x * 10 + digit_of c
           in if y > 2 ^ 63 then leading_fraction x scale True cs
              else leading_fraction y (scale * 10) False cs)"

lemma leading_fraction_length: "length (snd (snd (leading_fraction x scale ovf s))) \<le> length s"
  by (induction x scale ovf s rule: leading_fraction.induct) (auto simp: Let_def)

definition optional_fraction :: "string \<Rightarrow> nat \<times> nat \<times> string \<times> bool" where
  "optional_fraction s =
     (case s of
        c # cs \<Rightarrow>
          if c = CHR ''.'' then
            (let (f, scale, rest) = leading_fraction 0 1 False cs in (f, scale, rest, length rest \<noteq> length cs))
          else (0, 1, s, False)
      | [] \<Rightarrow> (0, 1, s, False))"

definition unit_byte :: "char \<Rightarrow> bool" where
  "unit_byte c \<longleftrightarrow> c \<noteq> CHR ''.'' \<and> \<not> is_digit c"

definition fraction_ns :: "nat \<Rightarrow> nat \<Rightarrow> nat \<Rightarrow> nat" where
  "fraction_ns f scale un =
     nat (f64_to_i64 (\<lambda>_. 0) (fmul (f64_of_int (int f)) (fdiv (f64_of_int (int un)) (f64_of_int (int scale)))))"

lemma optional_fraction_length: "optional_fraction s = (f, scale, rest, post) \<Longrightarrow> length rest \<le> length s"
  using leading_fraction_length [of 0 1 False "tl s"]
  by (cases s) (auto simp: optional_fraction_def case_prod_unfold Let_def split: if_splits)

lemma unit_shrinks:
  assumes "(f, scale, s2, post) = optional_fraction (dropWhile is_digit s)" and "takeWhile unit_byte s2 \<noteq> []"
  shows "length (dropWhile unit_byte s2) < length s"
proof -
  have "length (dropWhile unit_byte s2) < length s2"
    using assms(2) by (metis length_append length_greater_0_conv less_add_same_cancel2 takeWhile_dropWhile_id)
  also have "length s2 \<le> length s"
    using optional_fraction_length [OF assms(1) [symmetric]] length_dropWhile_le [of is_digit s] by linarith
  finally show ?thesis .
qed

function parse_parts :: "nat \<Rightarrow> string \<Rightarrow> nat option" where
  "parse_parts d s =
     (if s = [] then Some d
      else if \<not> (hd s = CHR ''.'' \<or> is_digit (hd s)) then None
      else case leading_int s of
             None \<Rightarrow> None
           | Some (v, s1) \<Rightarrow>
               (case optional_fraction s1 of
                  (f, scale, s2, post) \<Rightarrow>
                    if length s1 = length s \<and> \<not> post then None
                    else (let u = takeWhile unit_byte s2; s3 = dropWhile unit_byte s2
                          in if u = [] then None
                             else case unit_ns u of
                                    None \<Rightarrow> None
                                  | Some un \<Rightarrow>
                                      if v > 2 ^ 63 div un then None
                                      else (let v = v * un; v = (if f > 0 then v + fraction_ns f scale un else v)
                                            in if v > 2 ^ 63 then None
                                               else if d + v > 2 ^ 63 then None
                                               else parse_parts (d + v) s3))))"
  by pat_completeness auto
termination
  by (relation "measure (\<lambda>(d, s). length s)")
    (auto simp: leading_int_def Let_def split: if_splits intro: unit_shrinks)

declare parse_parts.simps [simp del]

definition ParseDuration :: "string \<Rightarrow> duration option" where
  "ParseDuration s =
     (let neg = take 1 s = ''-''; s = (if neg \<or> take 1 s = ''+'' then drop 1 s else s)
      in if s = ''0'' then Some 0
         else if s = [] then None
         else case parse_parts 0 s of
                None \<Rightarrow> None
              | Some d \<Rightarrow> if neg then Some (wrap64 (- int d)) else if d > 2 ^ 63 - 1 then None else Some (int d))"

section \<open>String\<close>

fun fmt_frac :: "nat \<Rightarrow> nat \<Rightarrow> bool \<Rightarrow> string \<Rightarrow> string" where
  "fmt_frac 0 v printing acc = (if printing then CHR ''.'' # acc else acc)"
| "fmt_frac (Suc prec) v printing acc =
     (let digit = v mod 10; printing = (printing \<or> digit \<noteq> 0)
      in fmt_frac prec (v div 10) printing (if printing then digit_char digit # acc else acc))"

definition micro :: string where
  "micro = [CHR 0xC2, CHR 0xB5, CHR ''s'']"

definition duration_body :: "nat \<Rightarrow> string" where
  "duration_body u =
     (if u < 1000000000 then
        (if u = 0 then ''0s''
         else if u < 1000 then digits10 u @ fmt_frac 0 u False [] @ ''ns''
         else if u < 1000000 then digits10 (u div 10 ^ 3) @ fmt_frac 3 u False [] @ micro
         else digits10 (u div 10 ^ 6) @ fmt_frac 6 u False [] @ ''ms'')
      else
        (let secs = u div 10 ^ 9; mins = secs div 60; hrs = mins div 60
         in (if mins > 0 then (if hrs > 0 then digits10 hrs @ ''h'' else []) @ digits10 (mins mod 60) @ ''m'' else []) @
            digits10 (secs mod 60) @ fmt_frac 9 u False [] @ ''s''))"

definition duration_string :: "duration \<Rightarrow> string" where
  "duration_string d = (if d < 0 then CHR ''-'' # duration_body (nat (- d)) else duration_body (nat d))"

section \<open>Digits\<close>

fun fixed_digits :: "nat \<Rightarrow> nat \<Rightarrow> string" where
  "fixed_digits 0 v = []"
| "fixed_digits (Suc n) v = fixed_digits n (v div 10) @ [digit_char (v mod 10)]"

lemma length_fixed [simp]: "length (fixed_digits n v) = n"
  by (induction n v rule: fixed_digits.induct) simp_all

lemma fixed_all: "list_all is_digit (fixed_digits n v)"
  by (induction n v rule: fixed_digits.induct) simp_all

lemma digit_of_char [simp]: "n < 10 \<Longrightarrow> digit_of (digit_char n) = n"
  by (simp add: digit_of_def byte_digit_char)

lemma number_of_append [simp]: "number_of x (ds @ es) = number_of (number_of x ds) es"
  by (simp add: number_of_def)

lemma number_of_one [simp]: "number_of x [c] = 10 * x + digit_of c"
  by (simp add: number_of_def)

lemma mod_pow_Suc: "(v :: nat) mod 10 ^ Suc n = 10 * (v div 10 mod 10 ^ n) + v mod 10"
  by (simp add: mod_mult2_eq)

lemma number_fixed: "number_of x (fixed_digits n v) = x * 10 ^ n + v mod 10 ^ n"
proof (induction n v rule: fixed_digits.induct)
  case (2 n v)
  then show ?case by (simp add: mod_pow_Suc del: power_Suc) (simp add: algebra_simps)
qed (simp add: number_of_def)

lemma number_digits10: "number_of 0 (digits10 n) = n"
proof (induction n rule: digits10.induct)
  case (1 n)
  then show ?case by (subst digits10.simps) (auto simp: number_of_def)
qed

lemma fmt_frac_printing: "fmt_frac n v True acc = CHR ''.'' # fixed_digits n v @ acc"
  by (induction n arbitrary: v acc) (simp_all add: Let_def)

text \<open>The fraction drops its trailing zeros.\<close>

lemma fmt_frac_cases:
  "(if v mod 10 ^ n = 0 then fmt_frac n v False [] = []
    else \<exists>j < n. v mod 10 ^ j = 0 \<and> fmt_frac n v False [] = CHR ''.'' # fixed_digits (n - j) (v div 10 ^ j))"
proof (induction n arbitrary: v)
  case (Suc n)
  show ?case
  proof (cases "v mod 10 = 0")
    case True
    then have m: "v mod 10 ^ Suc k = 10 * (v div 10 mod 10 ^ k)" for k by (simp only: mod_pow_Suc add_0_right)
    from True have f: "fmt_frac (Suc n) v False [] = fmt_frac n (v div 10) False []" by (simp add: Let_def)
    show ?thesis
    proof (cases "v div 10 mod 10 ^ n = 0")
      case True
      with Suc.IH [of "v div 10"] show ?thesis unfolding f m by simp
    next
      case False
      with Suc.IH [of "v div 10"] obtain j where j: "j < n" "v div 10 mod 10 ^ j = 0"
        "fmt_frac n (v div 10) False [] = CHR ''.'' # fixed_digits (n - j) (v div 10 div 10 ^ j)" by auto
      have "v div 10 div 10 ^ j = v div 10 ^ Suc j" by (simp add: div_mult2_eq)
      with j m [of j] have "Suc j < Suc n \<and> v mod 10 ^ Suc j = 0 \<and>
          fmt_frac (Suc n) v False [] = CHR ''.'' # fixed_digits (Suc n - Suc j) (v div 10 ^ Suc j)"
        unfolding f by simp
      then have "\<exists>i < Suc n. v mod 10 ^ i = 0 \<and>
          fmt_frac (Suc n) v False [] = CHR ''.'' # fixed_digits (Suc n - i) (v div 10 ^ i)"
        by - (rule exI [of _ "Suc j"])
      moreover have "v mod 10 ^ Suc n \<noteq> 0" unfolding m using False by linarith
      ultimately show ?thesis by (simp only: if_False)
    qed
  next
    case False
    then have "v mod 10 ^ Suc n \<noteq> 0" by (simp only: mod_pow_Suc)
    with False show ?thesis
      by (auto simp: Let_def fmt_frac_printing simp del: power_Suc intro!: exI [of _ 0])
  qed
qed (simp add: mod_0)

section \<open>One number with its unit\<close>

lemma takeWhile_prefix: "list_all P xs \<Longrightarrow> ys = [] \<or> \<not> P (hd ys) \<Longrightarrow>
    takeWhile P (xs @ ys) = xs \<and> dropWhile P (xs @ ys) = ys"
  by (induction xs) (cases ys; simp)+

lemma leading_int_digits:
  "v \<le> 2 ^ 63 \<Longrightarrow> rest = [] \<or> \<not> is_digit (hd rest) \<Longrightarrow> leading_int (digits10 v @ rest) = Some (v, rest)"
  using takeWhile_prefix [OF digits10_all] by (simp add: leading_int_def number_digits10)

lemma leading_fraction_digits:
  assumes "list_all is_digit ds" and "number_of x ds \<le> (2 ^ 63 - 1) div 10" and "rest = [] \<or> \<not> is_digit (hd rest)"
  shows "leading_fraction x scale False (ds @ rest) = (number_of x ds, scale * 10 ^ length ds, rest)"
  using assms
proof (induction ds arbitrary: x scale)
  case Nil
  then show ?case by (cases rest) (auto simp: number_of_def)
next
  case (Cons c ds)
  have mono: "y \<le> number_of y es" for y es
  proof (induction es arbitrary: y)
    case (Cons a es)
    have "y \<le> 10 * y + digit_of a" by simp
    also have "\<dots> \<le> number_of (10 * y + digit_of a) es" by (rule Cons.IH)
    finally show ?case by (simp add: number_of_def)
  qed (simp add: number_of_def)
  define y where "y = x * 10 + digit_of c"
  have n: "number_of x (c # ds) = number_of y ds" by (simp add: number_of_def y_def mult.commute)
  have y: "y \<le> (2 ^ 63 - 1) div 10" using mono [of y ds] Cons.prems(2) unfolding n by linarith
  then have "x \<le> (2 ^ 63 - 1) div 10" by (simp add: y_def)
  then have x: "\<not> (2 ^ 63 - 1) div 10 < x" by (simp only: not_less)
  have y63: "\<not> 2 ^ 63 < y" using y by simp
  have c: "is_digit c" using Cons.prems(1) by simp
  have "leading_fraction x scale False ((c # ds) @ rest) = leading_fraction y (scale * 10) False (ds @ rest)"
    unfolding append_Cons leading_fraction.simps Let_def y_def [symmetric] by (simp only: c x y63 if_True if_False simp_thms)
  also have "\<dots> = (number_of y ds, scale * 10 * 10 ^ length ds, rest)"
    using Cons.prems n by (intro Cons.IH) simp_all
  also have "scale * 10 * 10 ^ length ds = scale * 10 ^ length (c # ds)" by simp
  finally show ?case by (simp only: n)
qed

lemma fraction_exact:
  assumes "j \<le> prec" and "prec \<le> 9" and "f < 10 ^ (prec - j)"
  shows "fraction_ns f (10 ^ (prec - j)) (10 ^ prec) = f * 10 ^ j"
proof -
  have p9: "(10 :: nat) ^ k \<le> 10 ^ 9" if "k \<le> 9" for k using that by (intro power_increasing) simp_all
  have ex: "f64_of_int (int n) = Fin (of_nat n)" if "n \<le> 10 ^ 9" for n
    using that rnd_int_exact [of "int n"] by simp
  have f: "f \<le> 10 ^ 9" using assms p9 [of "prec - j"] by linarith
  have e: "(10 :: rat) ^ prec = 10 ^ (prec - j) * 10 ^ j" using assms(1) by (simp flip: power_add)
  have q: "(of_nat (10 ^ prec) :: rat) / of_nat (10 ^ (prec - j)) = of_nat (10 ^ j)"
    by (simp only: of_nat_power of_nat_numeral e) simp
  have "f * 10 ^ j < 10 ^ (prec - j) * 10 ^ j" using assms(3) by simp
  also have "\<dots> = (10 :: nat) ^ prec" using assms(1) by (simp flip: power_add)
  also have "\<dots> \<le> 10 ^ 9" using p9 assms(2) by blast
  finally have fj: "f * 10 ^ j \<le> 10 ^ 9" by simp
  have "fdiv (f64_of_int (int (10 ^ prec))) (f64_of_int (int (10 ^ (prec - j)))) = f64_of_int (int (10 ^ j))"
    using assms ex [OF p9] q by (simp add: of_nat_power)
  then have "fmul (f64_of_int (int f)) (fdiv (f64_of_int (int (10 ^ prec))) (f64_of_int (int (10 ^ (prec - j))))) =
      f64_of_int (int (f * 10 ^ j))"
    using assms ex [OF f] ex [OF p9, of j] by (simp add: of_nat_power)
  then show ?thesis
    using ex [OF fj] fj by (simp add: fraction_ns_def f64_to_i64_def trunc_rat_def in_i64_def del: of_nat_mult)
qed

lemma unit_no_digit:
  assumes "unit_ns u = Some un"
  shows "u \<noteq> [] \<and> list_all unit_byte u \<and> 0 < un"
proof -
  define us where "us = [''ns'', [CHR 0xC2, CHR 0xB5, CHR ''s''], [CHR 0xCE, CHR 0xBC, CHR ''s''], ''us'', ''ms'',
    ''s'', ''m'', ''h'']"
  define good where "good w \<longleftrightarrow> w \<noteq> [] \<and> list_all unit_byte w \<and> the (unit_ns w) > 0" for w
  have "u \<in> set us" using assms by (auto simp: us_def unit_ns_def split: if_splits)
  moreover have "list_all good us" by (simp add: us_def good_def unit_byte_def is_digit_def unit_ns_def)
  ultimately have "good u" unfolding list_all_iff by blast
  with assms show ?thesis by (simp add: good_def)
qed

text \<open>The fraction that \<open>fmt_frac\<close> writes, read before its unit.\<close>

lemma optional_fraction_read:
  assumes "prec \<le> 9" and u: "u \<noteq> []" "list_all unit_byte u"
  shows "\<exists>f scale post. optional_fraction (fmt_frac prec v False [] @ u @ rest) = (f, scale, u @ rest, post) \<and>
    (if f > 0 then fraction_ns f scale (10 ^ prec) else 0) = v mod 10 ^ prec"
proof -
  obtain c cs where c: "u = c # cs" "unit_byte c" using u by (cases u) auto
  show ?thesis
  proof (cases "v mod 10 ^ prec = 0")
    case True
    with fmt_frac_cases [of v prec] c have "optional_fraction (fmt_frac prec v False [] @ u @ rest) = (0, 1, u @ rest, False)"
      by (simp add: optional_fraction_def unit_byte_def)
    with True show ?thesis by auto
  next
    case False
    with fmt_frac_cases [of v prec] obtain j where j: "j < prec" "v mod 10 ^ j = 0"
      "fmt_frac prec v False [] = CHR ''.'' # fixed_digits (prec - j) (v div 10 ^ j)" by auto
    define n where "n = number_of 0 (fixed_digits (prec - j) (v div 10 ^ j))"
    have n: "n = v div 10 ^ j mod 10 ^ (prec - j)" by (simp add: n_def number_fixed)
    then have n_less: "n < 10 ^ (prec - j)" by simp
    also have "\<dots> \<le> (10 :: nat) ^ 9" using assms(1) by (intro power_increasing) simp_all
    finally have "n \<le> (2 ^ 63 - 1) div 10" by simp
    then have "leading_fraction 0 1 False (fixed_digits (prec - j) (v div 10 ^ j) @ u @ rest) =
        (n, 10 ^ (prec - j), u @ rest)"
      using c by (subst leading_fraction_digits) (simp_all add: n_def fixed_all unit_byte_def)
    then have o1: "optional_fraction (fmt_frac prec v False [] @ u @ rest) = (n, 10 ^ (prec - j), u @ rest, True)"
      using j(1) by (simp add: optional_fraction_def j(3))
    have "n * 10 ^ j = v mod 10 ^ prec"
    proof -
      have "v mod 10 ^ prec = v mod (10 ^ j * 10 ^ (prec - j))" using j(1) by (simp flip: power_add)
      also have "\<dots> = 10 ^ j * n + v mod 10 ^ j" unfolding n by (rule mod_mult2_eq)
      finally show ?thesis using j(2) by simp
    qed
    moreover from this False have "n > 0" by (cases n) auto
    ultimately show ?thesis
      using o1 j(1) n_less assms(1)
      by (intro exI [of _ n] exI [of _ "10 ^ (prec - j)"] exI [of _ True]) (simp add: fraction_exact)
  qed
qed

lemma parse_part:
  assumes "unit_ns u = Some un" and "prec \<le> 9" and "un = 10 ^ prec \<or> fs = []"
    and fs: "fs = fmt_frac prec w False []"
    and rest: "rest = [] \<or> is_digit (hd rest)"
    and fits: "d + (v * un + w mod 10 ^ prec) \<le> 2 ^ 63"
  shows "parse_parts d (digits10 v @ fs @ u @ rest) = parse_parts (d + (v * un + w mod 10 ^ prec)) rest"
proof -
  have u: "u \<noteq> []" "list_all unit_byte u" "0 < un" using unit_no_digit [OF assms(1)] by auto
  obtain f scale post where o1: "optional_fraction (fs @ u @ rest) = (f, scale, u @ rest, post)"
    and fr: "(if f > 0 then fraction_ns f scale (10 ^ prec) else 0) = w mod 10 ^ prec"
    using optional_fraction_read [OF assms(2) u(1,2), of w rest] unfolding fs by blast
  have fr': "(if f > 0 then v * un + fraction_ns f scale un else v * un) = v * un + w mod 10 ^ prec"
  proof (cases "un = 10 ^ prec")
    case True
    with fr show ?thesis by (auto split: if_splits)
  next
    case False
    then have "fs = []" using assms(3) by simp
    moreover obtain c cs where "u = c # cs" "unit_byte c" using u by (cases u) auto
    ultimately have "f = 0" using o1 by (auto simp: optional_fraction_def unit_byte_def)
    with fr show ?thesis by (simp split: if_splits)
  qed
  obtain c cs where c: "digits10 v = c # cs" by (cases "digits10 v") auto
  then have cd: "is_digit c" using digits10_hd by blast
  have hd_rest: "fs @ u @ rest \<noteq> [] \<and> \<not> is_digit (hd (fs @ u @ rest))"
  proof -
    obtain c' cs' where "u = c' # cs'" "unit_byte c'" using u by (cases u) auto
    with fmt_frac_cases [of w prec] show ?thesis
      unfolding fs by (cases "w mod 10 ^ prec = 0") (auto simp: unit_byte_def is_digit_def)
  qed
  have "v * 1 \<le> v * un" using u(3) by (intro mult_le_mono2) simp
  then have v63: "v \<le> 2 ^ 63" "v * un \<le> 2 ^ 63" using fits by linarith+
  then have vdiv: "\<not> 2 ^ 63 div un < v" using u(3) by (simp only: not_less less_eq_div_iff_mult_less_eq)
  have li: "leading_int (digits10 v @ fs @ u @ rest) = Some (v, fs @ u @ rest)"
    using v63(1) hd_rest by (intro leading_int_digits) simp_all
  have tw: "takeWhile unit_byte (u @ rest) = u" "dropWhile unit_byte (u @ rest) = rest"
    using takeWhile_prefix [OF u(2), of rest] rest by (auto simp: unit_byte_def)
  have fits1: "\<not> 2 ^ 63 < v * un + w mod 10 ^ prec" "\<not> 2 ^ 63 < d + (v * un + w mod 10 ^ prec)"
    using fits by linarith+
  have hd: "hd (digits10 v @ fs @ u @ rest) = c" "digits10 v @ fs @ u @ rest \<noteq> []" using c by simp_all
  show ?thesis
    by (subst parse_parts.simps)
      (simp only: hd cd li o1 tw u assms(1) vdiv fr' fits1 Let_def option.case prod.case if_True if_False
        simp_thms length_append length_0_conv add_eq_self_zero digits10_ne not_True_eq_False HOL.if_False, simp)
qed

section \<open>Every duration is read back from its text\<close>

lemma last_part:
  assumes "unit_ns u = Some (10 ^ prec)" and "prec \<le> 9" and "d + w \<le> 2 ^ 63"
  shows "parse_parts d (digits10 (w div 10 ^ prec) @ fmt_frac prec w False [] @ u) = Some (d + w)"
  using parse_part [OF assms(1,2), of "fmt_frac prec w False []" w "[]" d "w div 10 ^ prec"] assms(3)
  by (simp add: parse_parts.simps [of _ "[]"] div_mult_mod_eq)

lemma whole_part:
  assumes "unit_ns u = Some un" and "rest = [] \<or> is_digit (hd rest)" and "d + v * un \<le> 2 ^ 63"
  shows "parse_parts d (digits10 v @ u @ rest) = parse_parts (d + v * un) rest"
  using parse_part [OF assms(1), of 0 "[]" 0 rest d v] assms(2,3) by simp

lemma digits_first: "is_digit (hd (digits10 v @ rest))"
  using digits10_hd [of v] by (cases "digits10 v") auto

lemma digits_first': "is_digit (hd (digits10 v))"
  using digits_first [of v "[]"] by simp

lemma digits10_0: "digits10 0 = ''0''"
  by code_simp

lemma unit_values: "unit_ns ''ns'' = Some (10 ^ 0)" "unit_ns micro = Some (10 ^ 3)" "unit_ns ''ms'' = Some (10 ^ 6)"
  "unit_ns ''s'' = Some (10 ^ 9)" "unit_ns ''m'' = Some (60 * 10 ^ 9)" "unit_ns ''h'' = Some (3600 * 10 ^ 9)"
  by (simp_all add: unit_ns_def micro_def)

lemma seconds_part:
  assumes "d + u mod (60 * 10 ^ 9) \<le> 2 ^ 63"
  shows "parse_parts d (digits10 (u div 10 ^ 9 mod 60) @ fmt_frac 9 u False [] @ ''s'') =
    Some (d + u mod (60 * 10 ^ 9))"
proof -
  have "u mod (60 * 10 ^ 9) = (u div 10 ^ 9 mod 60) * 10 ^ 9 + u mod 10 ^ 9"
    using mod_mult2_eq [of u "10 ^ 9" 60] by (simp add: mult.commute)
  with parse_part [OF unit_values(4), of 9 "fmt_frac 9 u False []" u "[]" d "u div 10 ^ 9 mod 60"] assms
  show ?thesis by (simp add: parse_parts.simps [of _ "[]"])
qed

lemma body_long:
  assumes "10 ^ 9 \<le> u" and "u \<le> 2 ^ 63"
  shows "parse_parts 0 (duration_body u) = Some u"
proof -
  define secs mins hrs where "secs = u div 10 ^ 9" and "mins = secs div 60" and "hrs = mins div 60"
  define tail where "tail = digits10 (secs mod 60) @ fmt_frac 9 u False [] @ ''s''"
  have m: "mins * (60 * 10 ^ 9) + u mod (60 * 10 ^ 9) = u"
    unfolding mins_def secs_def by (simp flip: div_mult2_eq)
  have h: "hrs * 60 + mins mod 60 = mins" by (simp add: hrs_def)
  have b: "duration_body u = (if mins > 0 then (if hrs > 0 then digits10 hrs @ ''h'' else []) @ digits10 (mins mod 60) @ ''m''
      else []) @ tail"
    using assms(1) by (simp add: duration_body_def Let_def secs_def mins_def hrs_def tail_def)
  have t: "parse_parts (mins * (60 * 10 ^ 9)) tail = Some u"
    unfolding tail_def secs_def using assms m by (subst seconds_part) simp_all
  have dig: "is_digit (hd tail)" unfolding tail_def by (rule digits_first)
  have mt: "parse_parts d (digits10 (mins mod 60) @ ''m'' @ tail) = parse_parts (d + mins mod 60 * (60 * 10 ^ 9)) tail"
    if "d + mins mod 60 * (60 * 10 ^ 9) \<le> 2 ^ 63" for d
    using that dig by (intro whole_part [OF unit_values(5)]) simp_all
  have hm: "hrs * (3600 * 10 ^ 9) + mins mod 60 * (60 * 10 ^ 9) = mins * (60 * 10 ^ 9)"
    by (subst h [symmetric]) (simp add: algebra_simps)
  have le: "mins * (60 * 10 ^ 9) \<le> 2 ^ 63" using m assms(2) by linarith
  consider "mins = 0" | "0 < mins" "hrs = 0" | "0 < mins" "0 < hrs" by blast
  then show ?thesis
  proof cases
    case 1
    with t show ?thesis unfolding b by simp
  next
    case 2
    then have "mins mod 60 = mins" using h by simp
    with 2 mt [of 0] t le show ?thesis unfolding b by simp
  next
    case 3
    have "parse_parts 0 (digits10 hrs @ ''h'' @ (digits10 (mins mod 60) @ ''m'' @ tail)) =
        parse_parts (0 + hrs * (3600 * 10 ^ 9)) (digits10 (mins mod 60) @ ''m'' @ tail)"
      using hm le by (intro whole_part [OF unit_values(6)]) (simp_all add: digits_first')
    also have "\<dots> = Some u" using mt [of "hrs * (3600 * 10 ^ 9)"] hm le t by simp
    finally show ?thesis unfolding b using 3 by simp
  qed
qed

lemma body_parsed:
  assumes "u \<le> 2 ^ 63"
  shows "parse_parts 0 (duration_body u) = Some u"
proof (cases "10 ^ 9 \<le> u")
  case True
  with assms show ?thesis by (intro body_long) simp_all
next
  case False
  then show ?thesis
    using assms last_part [OF unit_values(1), of 0 u] last_part [OF unit_values(2), of 0 u]
      last_part [OF unit_values(3), of 0 u] whole_part [OF unit_values(4), of "[]" 0 0]
    by (simp add: duration_body_def digits10_0 parse_parts.simps [of _ "[]"])
qed

lemma body_first: "\<exists>c cs. duration_body u = c # cs \<and> is_digit c \<and> cs \<noteq> []"
proof -
  have "\<exists>v rest. duration_body u = digits10 v @ rest \<and> rest \<noteq> []"
  proof (cases "u = 0")
    case True
    then have "duration_body u = digits10 0 @ ''s''" by (simp add: duration_body_def digits10_0)
    then show ?thesis by blast
  next
    case False
    then show ?thesis by (auto simp: duration_body_def Let_def micro_def)
  qed
  then obtain v rest where v: "duration_body u = digits10 v @ rest" "rest \<noteq> []" by blast
  obtain c cs where c: "digits10 v = c # cs" by (cases "digits10 v") auto
  with v digits10_hd [OF c] show ?thesis by auto
qed

lemma parse_duration_string:
  assumes "in_i64 d"
  shows "ParseDuration (duration_string d) = Some d"
proof -
  obtain c cs where c: "duration_body (nat \<bar>d\<bar>) = c # cs" "is_digit c" "cs \<noteq> []" using body_first by blast
  then have cs: "c \<noteq> CHR ''-''" "c \<noteq> CHR ''+''" using digit_not_sign by auto
  have "nat \<bar>d\<bar> \<le> 2 ^ 63" using assms by (simp add: in_i64_def nat_le_iff) linarith
  from body_parsed [OF this] have p: "parse_parts 0 (c # cs) = Some (nat \<bar>d\<bar>)" by (simp only: c)
  show ?thesis
  proof (cases "d < 0")
    case True
    then have "wrap64 (- int (nat \<bar>d\<bar>)) = d" using assms by simp
    with True c p show ?thesis by (simp add: ParseDuration_def duration_string_def)
  next
    case False
    with assms have "\<not> 2 ^ 63 - 1 < nat \<bar>d\<bar>" by (simp add: in_i64_def)
    with False c cs p show ?thesis by (simp add: ParseDuration_def duration_string_def)
  qed
qed

end
