(* ===== verification/Config.thy ===== *)
theory Config
  imports GoDuration GoJson
begin

text \<open>
  \<open>internal/config/config.go\<close>: the configuration, from a YAML file with \<open>${VAR}\<close> placeholders or from
  environment variables, and its validation. The environment is a function \<open>env\<close> that gives the
  empty string for a variable that is not set, as \<open>os.Getenv\<close> does. Parameters for code outside the
  program: \<open>yaml\<close> (the YAML package: the document decoded over a configuration, \<open>None\<close> for an error) and
  \<open>urlok\<close> (whether \<open>url.Parse\<close> accepts a host).
\<close>

record ssh_settings =
  sh_host :: string
  sh_user :: string
  sh_key :: string
  sh_knownhosts :: string

record pve_settings =
  ps_name :: string
  ps_host :: string
  ps_tokenid :: string
  ps_secret :: string
  ps_insecure :: bool
  ps_interval :: duration
  ps_diskinterval :: duration
  ps_ssh :: "ssh_settings option"

record pbs_settings =
  bs_name :: string
  bs_host :: string
  bs_tokenid :: string
  bs_secret :: string
  bs_insecure :: bool
  bs_datastores :: "string list"
  bs_interval :: duration

record notification_settings =
  no_type :: string
  no_url :: string
  no_topic :: string
  no_method :: string
  no_headers :: "(string, string) gomap"

record cpu_alert_settings =
  ca_threshold :: f64
  ca_duration :: duration
  ca_severity :: string

record guest_alert_settings =
  gr_grace :: duration
  gr_severity :: string

record backup_alert_settings =
  bk_maxage :: duration
  bk_severity :: string

record smart_alert_settings =
  sl_severity :: string

record ds_alert_settings =
  dl_threshold :: f64
  dl_severity :: string

record alert_settings =
  as_cpu :: "cpu_alert_settings option"
  as_guest :: "guest_alert_settings option"
  as_backup :: "backup_alert_settings option"
  as_smart :: "smart_alert_settings option"
  as_ds :: "ds_alert_settings option"

record config =
  cf_listen :: string
  cf_dbpath :: string
  cf_loglevel :: string
  cf_logformat :: string
  cf_history :: int
  cf_workers :: int
  cf_pve :: "pve_settings list"
  cf_pbs :: "pbs_settings list"
  cf_notifications :: "notification_settings list"
  cf_alerts :: alert_settings

definition defaults :: config where
  "defaults = \<lparr>cf_listen = '':3800'', cf_dbpath = ''/data/glint.db'', cf_loglevel = ''info'',
     cf_logformat = ''text'', cf_history = 48, cf_workers = 4, cf_pve = [], cf_pbs = [],
     cf_notifications = [],
     cf_alerts = \<lparr>as_cpu = None, as_guest = None, as_backup = None, as_smart = None, as_ds = None\<rparr>\<rparr>"

section \<open>Durations\<close>

text \<open>The scalar of the YAML node, when it decodes to a string.\<close>

definition UnmarshalDuration :: "string option \<Rightarrow> duration option" where
  "UnmarshalDuration node = (case node of None \<Rightarrow> None | Some s \<Rightarrow> ParseDuration s)"

definition MarshalDuration :: "duration \<Rightarrow> string" where
  "MarshalDuration d = duration_string d"

text \<open>C25: every duration is read back from the text it is written as, the negative, the fractional and the
  extreme ones included.\<close>

theorem duration_roundtrip:
  assumes "in_i64 d"
  shows "UnmarshalDuration (Some (MarshalDuration d)) = Some d"
  by (simp add: UnmarshalDuration_def MarshalDuration_def parse_duration_string [OF assms])

theorem duration_roundtrip_witness:
  "UnmarshalDuration (Some (MarshalDuration (- 5400000000000))) = Some (- 5400000000000) \<and>
   UnmarshalDuration (Some (MarshalDuration 1500000)) = Some 1500000"
  using duration_roundtrip [of "- 5400000000000"] duration_roundtrip [of 1500000] by (simp add: in_i64_def)

section \<open>Placeholders\<close>

text \<open>\<open>${\<close>, at least one byte that is no \<open>}\<close>, and the first \<open>}\<close>.\<close>

definition placeholder :: "string \<Rightarrow> (string \<times> string) option" where
  "placeholder s =
     (let key = takeWhile (\<lambda>c. c \<noteq> CHR ''}'') (drop 2 s); rest = dropWhile (\<lambda>c. c \<noteq> CHR ''}'') (drop 2 s)
      in if take 2 s = ''${'' \<and> key \<noteq> [] \<and> rest \<noteq> [] then Some (key, tl rest) else None)"

lemma placeholder_shrinks: "placeholder s = Some (key, rest) \<Longrightarrow> length rest < length s"
  using length_dropWhile_le [of "\<lambda>c. c \<noteq> CHR ''}''" "drop 2 s"]
  by (cases s) (auto simp: placeholder_def Let_def split: if_splits)

function expandEnvVars :: "(string \<Rightarrow> string) \<Rightarrow> string \<Rightarrow> string" where
  "expandEnvVars env [] = []"
| "expandEnvVars env (c # cs) =
     (case placeholder (c # cs) of
        Some (key, rest) \<Rightarrow> env key @ expandEnvVars env rest
      | None \<Rightarrow> c # expandEnvVars env cs)"
  by pat_completeness auto
termination
  by (relation "measure (\<lambda>(env, s). length s)") (auto dest: placeholder_shrinks)

section \<open>The environment\<close>

definition env_set :: "(string \<Rightarrow> string) \<Rightarrow> string \<Rightarrow> string \<Rightarrow> string" where
  "env_set env var old = (if env var \<noteq> [] then env var else old)"

definition env_true :: "(string \<Rightarrow> string) \<Rightarrow> string \<Rightarrow> bool" where
  "env_true env var \<longleftrightarrow> env var = ''true'' \<or> env var = ''1''"

definition env_int :: "(string \<Rightarrow> string) \<Rightarrow> string \<Rightarrow> int \<Rightarrow> int" where
  "env_int env var old =
     (if env var \<noteq> [] then (case atoi (env var) of Some n \<Rightarrow> n | None \<Rightarrow> old) else old)"

definition env_pve :: "(string \<Rightarrow> string) \<Rightarrow> pve_settings list \<Rightarrow> pve_settings list" where
  "env_pve env ps =
     (if ps = [] \<and> env ''GLINT_PVE_URL'' \<noteq> [] then
        [\<lparr>ps_name = ''default'', ps_host = env ''GLINT_PVE_URL'', ps_tokenid = env ''GLINT_PVE_TOKEN_ID'',
          ps_secret = env ''GLINT_PVE_TOKEN_SECRET'', ps_insecure = env_true env ''GLINT_PVE_INSECURE'',
          ps_interval = 15 * second, ps_diskinterval = 1 * hour, ps_ssh = None\<rparr>]
      else ps)"

definition env_pbs :: "(string \<Rightarrow> string) \<Rightarrow> pbs_settings list \<Rightarrow> pbs_settings list" where
  "env_pbs env bs =
     (if bs = [] \<and> env ''GLINT_PBS_URL'' \<noteq> [] then
        (let ds = env ''GLINT_PBS_DATASTORE''
         in [\<lparr>bs_name = ''default'', bs_host = env ''GLINT_PBS_URL'', bs_tokenid = env ''GLINT_PBS_TOKEN_ID'',
              bs_secret = env ''GLINT_PBS_TOKEN_SECRET'', bs_insecure = env_true env ''GLINT_PBS_INSECURE'',
              bs_datastores = (if ds \<noteq> [] then split_on (CHR '','') ds else []), bs_interval = 5 * minute\<rparr>])
      else bs)"

definition env_ntfy :: "(string \<Rightarrow> string) \<Rightarrow> notification_settings list \<Rightarrow> notification_settings list" where
  "env_ntfy env ns =
     (if ns = [] \<and> env ''GLINT_NTFY_URL'' \<noteq> [] then
        [\<lparr>no_type = ''ntfy'', no_url = env ''GLINT_NTFY_URL'',
          no_topic = (if env ''GLINT_NTFY_TOPIC'' = [] then ''glint-alerts'' else env ''GLINT_NTFY_TOPIC''),
          no_method = [], no_headers = []\<rparr>]
      else ns)"

definition applyEnvOverrides :: "(string \<Rightarrow> string) \<Rightarrow> config \<Rightarrow> config" where
  "applyEnvOverrides env cfg =
     cfg\<lparr>cf_listen := env_set env ''GLINT_LISTEN'' (cf_listen cfg),
       cf_dbpath := env_set env ''GLINT_DB_PATH'' (cf_dbpath cfg),
       cf_loglevel := env_set env ''GLINT_LOG_LEVEL'' (cf_loglevel cfg),
       cf_logformat := env_set env ''GLINT_LOG_FORMAT'' (cf_logformat cfg),
       cf_pve := env_pve env (cf_pve cfg),
       cf_pbs := env_pbs env (cf_pbs cfg),
       cf_notifications := env_ntfy env (cf_notifications cfg),
       cf_history := env_int env ''GLINT_HISTORY_HOURS'' (cf_history cfg),
       cf_workers := env_int env ''GLINT_WORKER_POOL_SIZE'' (cf_workers cfg)\<rparr>"

section \<open>Validation\<close>

datatype config_field = Host | HostURL | TokenID | TokenSecret | Name | URL | Topic | TypeName

datatype config_error = NoPVE | BadPVE nat config_field | BadPBS nat config_field | BadNotification nat config_field
  | BadLogLevel | BadLogFormat | BadHistory | BadWorkers | BadCPUThreshold | BadCPUDuration | BadGrace | BadMaxAge
  | BadDsThreshold

definition check_pve :: "(string \<Rightarrow> bool) \<Rightarrow> pve_settings \<Rightarrow> config_field option" where
  "check_pve urlok p =
     (if ps_host p = [] then Some Host
      else if \<not> urlok (ps_host p) then Some HostURL
      else if ps_tokenid p = [] then Some TokenID
      else if ps_secret p = [] then Some TokenSecret
      else if ps_name p = [] then Some Name
      else None)"

definition check_pbs :: "pbs_settings \<Rightarrow> config_field option" where
  "check_pbs b =
     (if bs_host b = [] then Some Host
      else if bs_tokenid b = [] then Some TokenID
      else if bs_secret b = [] then Some TokenSecret
      else if bs_name b = [] then Some Name
      else None)"

definition check_notification :: "notification_settings \<Rightarrow> config_field option" where
  "check_notification n =
     (if no_type n = ''ntfy'' then
        (if no_url n = [] then Some URL else if no_topic n = [] then Some Topic else None)
      else if no_type n = ''webhook'' then (if no_url n = [] then Some URL else None)
      else Some TypeName)"

text \<open>A loop over a list that returns the error of the first bad element, with its index.\<close>

fun first_bad :: "('a \<Rightarrow> config_field option) \<Rightarrow> nat \<Rightarrow> 'a list \<Rightarrow> (nat \<times> config_field) option" where
  "first_bad chk i [] = None"
| "first_bad chk i (x # xs) = (case chk x of Some e \<Rightarrow> Some (i, e) | None \<Rightarrow> first_bad chk (Suc i) xs)"

text \<open>A sequence of checks, each returning at once when it fails.\<close>

fun first_error :: "'e option list \<Rightarrow> 'e option" where
  "first_error [] = None"
| "first_error (Some e # es) = Some e"
| "first_error (None # es) = first_error es"

definition fail_if :: "bool \<Rightarrow> 'e \<Rightarrow> 'e option" where
  "fail_if b e = (if b then Some e else None)"

definition check_alerts :: "alert_settings \<Rightarrow> config_error option" where
  "check_alerts a = first_error
     [(case as_cpu a of None \<Rightarrow> None
       | Some c \<Rightarrow> first_error [fail_if (fle (ca_threshold c) (Fin 0)) BadCPUThreshold,
                              fail_if (ca_duration c \<le> 0) BadCPUDuration]),
      (case as_guest a of None \<Rightarrow> None | Some g \<Rightarrow> fail_if (gr_grace g \<le> 0) BadGrace),
      (case as_backup a of None \<Rightarrow> None | Some b \<Rightarrow> fail_if (bk_maxage b \<le> 0) BadMaxAge),
      (case as_ds a of None \<Rightarrow> None | Some d \<Rightarrow> fail_if (fle (dl_threshold d) (Fin 0)) BadDsThreshold)]"

definition Validate :: "(string \<Rightarrow> bool) \<Rightarrow> config \<Rightarrow> config_error option" where
  "Validate urlok c = first_error
     [fail_if (cf_pve c = []) NoPVE,
      map_option (\<lambda>(i, f). BadPVE i f) (first_bad (check_pve urlok) 0 (cf_pve c)),
      map_option (\<lambda>(i, f). BadPBS i f) (first_bad check_pbs 0 (cf_pbs c)),
      map_option (\<lambda>(i, f). BadNotification i f) (first_bad check_notification 0 (cf_notifications c)),
      fail_if (cf_loglevel c \<notin> set [''debug'', ''info'', ''warn'', ''error'']) BadLogLevel,
      fail_if (cf_logformat c \<notin> set [''text'', ''json'']) BadLogFormat,
      fail_if (cf_history c < 1) BadHistory,
      fail_if (cf_workers c < 1) BadWorkers,
      check_alerts (cf_alerts c)]"

section \<open>Loading\<close>

datatype config_file = NotExist | Unreadable | Content string

datatype load_error = FileNotFound | ReadFailed | ParseFailed | Invalid config_error

definition finish_load :: "(string \<Rightarrow> string) \<Rightarrow> (string \<Rightarrow> bool) \<Rightarrow> config \<Rightarrow> load_error + config" where
  "finish_load env urlok cfg =
     (let cfg = applyEnvOverrides env cfg
      in case Validate urlok cfg of Some e \<Rightarrow> Inl (Invalid e) | None \<Rightarrow> Inr cfg)"

definition Load :: "(string \<Rightarrow> string) \<Rightarrow> (string \<Rightarrow> bool) \<Rightarrow> (string \<Rightarrow> config \<Rightarrow> config option) \<Rightarrow>
    (string \<Rightarrow> config_file) \<Rightarrow> string \<Rightarrow> load_error + config" where
  "Load env urlok yaml readfile path =
     (if path \<noteq> [] then
        (case readfile path of
           NotExist \<Rightarrow> Inl FileNotFound
         | Unreadable \<Rightarrow> Inl ReadFailed
         | Content bytes \<Rightarrow>
             if bytes \<noteq> [] then
               (case yaml (expandEnvVars env bytes) defaults of
                  None \<Rightarrow> Inl ParseFailed
                | Some cfg \<Rightarrow> finish_load env urlok cfg)
             else finish_load env urlok defaults)
      else finish_load env urlok defaults)"

section \<open>Placeholders are replaced once\<close>

datatype piece = Lit string | Var string

fun render :: "piece list \<Rightarrow> string" where
  "render [] = []"
| "render (Lit s # ps) = s @ render ps"
| "render (Var key # ps) = ''${'' @ key @ ''}'' @ render ps"

fun piece_ok :: "piece \<Rightarrow> bool" where
  "piece_ok (Lit s) \<longleftrightarrow> CHR ''$'' \<notin> set s"
| "piece_ok (Var key) \<longleftrightarrow> key \<noteq> [] \<and> CHR ''}'' \<notin> set key"

fun piece_value :: "(string \<Rightarrow> string) \<Rightarrow> piece \<Rightarrow> string" where
  "piece_value env (Lit s) = s"
| "piece_value env (Var key) = env key"

lemma placeholder_none: "CHR ''$'' \<noteq> c \<Longrightarrow> placeholder (c # cs) = None"
  by (auto simp: placeholder_def Let_def)

lemma expand_lit: "CHR ''$'' \<notin> set s \<Longrightarrow> expandEnvVars env (s @ t) = s @ expandEnvVars env t"
  by (induction s) (auto simp: placeholder_none)

lemma placeholder_var:
  "key \<noteq> [] \<Longrightarrow> CHR ''}'' \<notin> set key \<Longrightarrow> placeholder (CHR ''$'' # CHR ''{'' # key @ CHR ''}'' # t) = Some (key, t)"
proof -
  assume k: "key \<noteq> []" "CHR ''}'' \<notin> set key"
  have "takeWhile (\<lambda>c. c \<noteq> CHR ''}'') (key @ CHR ''}'' # t) = key"
    "dropWhile (\<lambda>c. c \<noteq> CHR ''}'') (key @ CHR ''}'' # t) = CHR ''}'' # t"
    using k(2) by (induction key) auto
  with k(1) show ?thesis by (simp add: placeholder_def)
qed

text \<open>A configuration text made of literal pieces without a dollar sign and of placeholders expands
  to the literal pieces with each placeholder replaced by the value of its variable; the values themselves
  are not expanded again, and an unset variable leaves nothing.\<close>

theorem expand_template:
  assumes "list_all piece_ok ps"
  shows "expandEnvVars env (render ps) = concat (map (piece_value env) ps)"
  using assms
proof (induction ps rule: render.induct)
  case (3 key ps)
  then show ?case by (simp add: placeholder_var)
qed (simp_all add: expand_lit)

theorem expand_template_witness:
  "expandEnvVars (\<lambda>v. if v = ''T'' then ''${T}'' else []) ''id: ${T} ${U}.'' = ''id: ${T} .''"
  using expand_template [of "[Lit ''id: '', Var ''T'', Lit '' '', Var ''U'', Lit ''.'']"
      "\<lambda>v. if v = ''T'' then ''${T}'' else []"] by simp

section \<open>What a loaded configuration guarantees\<close>

definition nonempty :: "string \<Rightarrow> bool" where
  "nonempty s \<longleftrightarrow> s \<noteq> []"

definition usable_pve :: "(string \<Rightarrow> bool) \<Rightarrow> pve_settings \<Rightarrow> bool" where
  "usable_pve urlok p \<longleftrightarrow> list_all nonempty [ps_host p, ps_tokenid p, ps_secret p, ps_name p] \<and> urlok (ps_host p)"

definition usable_pbs :: "pbs_settings \<Rightarrow> bool" where
  "usable_pbs b \<longleftrightarrow> list_all nonempty [bs_host b, bs_tokenid b, bs_secret b, bs_name b]"

definition usable_notification :: "notification_settings \<Rightarrow> bool" where
  "usable_notification n \<longleftrightarrow> nonempty (no_url n) \<and>
     (no_type n = ''webhook'' \<or> no_type n = ''ntfy'' \<and> nonempty (no_topic n))"

definition usable_alerts :: "alert_settings \<Rightarrow> bool" where
  "usable_alerts a \<longleftrightarrow>
     pred_option (\<lambda>c. \<not> fle (ca_threshold c) (Fin 0) \<and> 0 < ca_duration c) (as_cpu a) \<and>
     pred_option (\<lambda>g. 0 < gr_grace g) (as_guest a) \<and> pred_option (\<lambda>b. 0 < bk_maxage b) (as_backup a) \<and>
     pred_option (\<lambda>d. \<not> fle (dl_threshold d) (Fin 0)) (as_ds a)"

definition usable :: "(string \<Rightarrow> bool) \<Rightarrow> config \<Rightarrow> bool" where
  "usable urlok c \<longleftrightarrow> cf_pve c \<noteq> [] \<and> list_all (usable_pve urlok) (cf_pve c) \<and> list_all usable_pbs (cf_pbs c) \<and>
     list_all usable_notification (cf_notifications c) \<and>
     cf_loglevel c \<in> {''debug'', ''info'', ''warn'', ''error''} \<and> cf_logformat c \<in> {''text'', ''json''} \<and>
     1 \<le> cf_history c \<and> 1 \<le> cf_workers c \<and> usable_alerts (cf_alerts c)"

lemma first_error_None: "first_error es = None \<longleftrightarrow> list_all (\<lambda>e. e = None) es"
  by (induction es rule: first_error.induct) simp_all

lemma fail_if_None: "fail_if b e = None \<longleftrightarrow> \<not> b"
  by (simp add: fail_if_def)

lemma first_bad_None: "first_bad chk i xs = None \<longleftrightarrow> list_all (\<lambda>x. chk x = None) xs"
  by (induction xs arbitrary: i) (auto split: option.split)

lemma first_bad_Some: "first_bad chk i xs = Some (j, e) \<Longrightarrow>
    i \<le> j \<and> j - i < length xs \<and> chk (xs ! (j - i)) = Some e \<and> list_all (\<lambda>x. chk x = None) (take (j - i) xs)"
proof (induction xs arbitrary: i)
  case (Cons x xs)
  show ?case
  proof (cases "chk x")
    case None
    with Cons have "Suc i \<le> j \<and> j - Suc i < length xs \<and> chk (xs ! (j - Suc i)) = Some e \<and>
        list_all (\<lambda>x. chk x = None) (take (j - Suc i) xs)" by simp
    moreover from this have "Suc i \<le> j" by blast
    then have "j - i = Suc (j - Suc i)" by simp
    ultimately show ?thesis using None by simp
  qed (use Cons.prems in auto)
qed simp

lemma check_usable:
  "check_pve urlok p = None \<longleftrightarrow> usable_pve urlok p"
  "check_pbs b = None \<longleftrightarrow> usable_pbs b"
  "check_notification n = None \<longleftrightarrow> usable_notification n"
  "check_alerts a = None \<longleftrightarrow> usable_alerts a"
  by (auto simp: check_pve_def usable_pve_def check_pbs_def usable_pbs_def check_notification_def
      usable_notification_def nonempty_def check_alerts_def usable_alerts_def first_error_None fail_if_None
      split: option.split)

lemma validate_usable: "Validate urlok c = None \<longleftrightarrow> usable urlok c"
  by (auto simp: Validate_def usable_def first_error_None fail_if_None first_bad_None check_usable)

lemma first_error_Some: "first_error (x # xs) = Some e \<longleftrightarrow> x = Some e \<or> x = None \<and> first_error xs = Some e"
  by (cases x) auto

lemma fail_if_Some: "fail_if b e' = Some e \<longleftrightarrow> b \<and> e = e'"
  by (auto simp: fail_if_def)

lemma indexed_Some: "map_option (\<lambda>(i, f). C i f) r = Some e \<longleftrightarrow> (\<exists>i f. r = Some (i, f) \<and> e = C i f)"
  by auto

lemma alert_errors: "check_alerts a = Some e \<Longrightarrow>
    e \<in> {BadCPUThreshold, BadCPUDuration, BadGrace, BadMaxAge, BadDsThreshold}"
  by (auto simp: check_alerts_def first_error_Some fail_if_Some split: option.splits)

lemma validate_errors:
  "Validate urlok c = Some (BadPVE i f) \<Longrightarrow> first_bad (check_pve urlok) 0 (cf_pve c) = Some (i, f)"
  "Validate urlok c = Some (BadPBS i f) \<Longrightarrow>
    first_bad (check_pve urlok) 0 (cf_pve c) = None \<and> first_bad check_pbs 0 (cf_pbs c) = Some (i, f)"
  "Validate urlok c = Some (BadNotification i f) \<Longrightarrow> first_bad check_notification 0 (cf_notifications c) = Some (i, f)"
  using alert_errors [of "cf_alerts c"]
  unfolding Validate_def first_error_Some indexed_Some fail_if_Some fail_if_None by auto

text \<open>C23: validation accepts exactly the usable configurations, and a complaint about an instance names
  the first one that is not usable, all before it being fine.\<close>

theorem validate_exact:
  "(case Validate urlok c of
      None \<Rightarrow> usable urlok c
    | Some e \<Rightarrow> \<not> usable urlok c \<and>
        (case e of
           BadPVE i f \<Rightarrow> i < length (cf_pve c) \<and> check_pve urlok (cf_pve c ! i) = Some f \<and>
             list_all (usable_pve urlok) (take i (cf_pve c))
         | BadPBS i f \<Rightarrow> i < length (cf_pbs c) \<and> check_pbs (cf_pbs c ! i) = Some f \<and>
             list_all usable_pbs (take i (cf_pbs c)) \<and> list_all (usable_pve urlok) (cf_pve c)
         | BadNotification i f \<Rightarrow> i < length (cf_notifications c) \<and>
             check_notification (cf_notifications c ! i) = Some f \<and>
             list_all usable_notification (take i (cf_notifications c))
         | _ \<Rightarrow> True))"
proof (cases "Validate urlok c")
  case None
  with validate_usable [of urlok c] show ?thesis by simp
next
  case (Some e)
  with validate_usable [of urlok c] have n: "\<not> usable urlok c" by simp
  have u: "list_all (\<lambda>p. check_pve urlok p = None) = list_all (usable_pve urlok)"
    "list_all (\<lambda>b. check_pbs b = None) = list_all usable_pbs"
    "list_all (\<lambda>n. check_notification n = None) = list_all usable_notification"
    by (simp_all add: check_usable)
  show ?thesis
  proof (cases e)
    case (BadPVE i f)
    from first_bad_Some [OF validate_errors(1) [OF Some [unfolded BadPVE]]] n show ?thesis
      by (simp add: Some BadPVE u)
  next
    case (BadPBS i f)
    from validate_errors(2) [OF Some [unfolded BadPBS]] have
      "first_bad (check_pve urlok) 0 (cf_pve c) = None" "first_bad check_pbs 0 (cf_pbs c) = Some (i, f)" by auto
    from this(1) first_bad_Some [OF this(2)] n show ?thesis by (simp add: Some BadPBS u first_bad_None)
  next
    case (BadNotification i f)
    from first_bad_Some [OF validate_errors(3) [OF Some [unfolded BadNotification]]] n show ?thesis
      by (simp add: Some BadNotification u)
  qed (use Some n in simp_all)
qed

text \<open>What the environment makes of a configuration, setting by setting: a variable that is set wins over the file, a
  number only when it is one, and an instance or notification target from the environment is only used when the
  file lists none.\<close>

definition overridden :: "(string \<Rightarrow> string) \<Rightarrow> config \<Rightarrow> config \<Rightarrow> bool" where
  "overridden env base cfg \<longleftrightarrow>
     cf_listen cfg = (if env ''GLINT_LISTEN'' = [] then cf_listen base else env ''GLINT_LISTEN'') \<and>
     cf_dbpath cfg = (if env ''GLINT_DB_PATH'' = [] then cf_dbpath base else env ''GLINT_DB_PATH'') \<and>
     cf_loglevel cfg = (if env ''GLINT_LOG_LEVEL'' = [] then cf_loglevel base else env ''GLINT_LOG_LEVEL'') \<and>
     cf_logformat cfg = (if env ''GLINT_LOG_FORMAT'' = [] then cf_logformat base else env ''GLINT_LOG_FORMAT'') \<and>
     cf_history cfg = (case atoi (env ''GLINT_HISTORY_HOURS'') of Some n \<Rightarrow> n | None \<Rightarrow> cf_history base) \<and>
     cf_workers cfg = (case atoi (env ''GLINT_WORKER_POOL_SIZE'') of Some n \<Rightarrow> n | None \<Rightarrow> cf_workers base) \<and>
     cf_alerts cfg = cf_alerts base \<and>
     cf_pve cfg = (if cf_pve base \<noteq> [] \<or> env ''GLINT_PVE_URL'' = [] then cf_pve base
       else [\<lparr>ps_name = ''default'', ps_host = env ''GLINT_PVE_URL'', ps_tokenid = env ''GLINT_PVE_TOKEN_ID'',
         ps_secret = env ''GLINT_PVE_TOKEN_SECRET'', ps_insecure = (env ''GLINT_PVE_INSECURE'' \<in> {''true'', ''1''}),
         ps_interval = 15 * second, ps_diskinterval = 1 * hour, ps_ssh = None\<rparr>]) \<and>
     cf_pbs cfg = (if cf_pbs base \<noteq> [] \<or> env ''GLINT_PBS_URL'' = [] then cf_pbs base
       else [\<lparr>bs_name = ''default'', bs_host = env ''GLINT_PBS_URL'', bs_tokenid = env ''GLINT_PBS_TOKEN_ID'',
         bs_secret = env ''GLINT_PBS_TOKEN_SECRET'', bs_insecure = (env ''GLINT_PBS_INSECURE'' \<in> {''true'', ''1''}),
         bs_datastores = (if env ''GLINT_PBS_DATASTORE'' = [] then [] else split_on (CHR '','') (env ''GLINT_PBS_DATASTORE'')),
         bs_interval = 5 * minute\<rparr>]) \<and>
     cf_notifications cfg = (if cf_notifications base \<noteq> [] \<or> env ''GLINT_NTFY_URL'' = [] then cf_notifications base
       else [\<lparr>no_type = ''ntfy'', no_url = env ''GLINT_NTFY_URL'',
         no_topic = (if env ''GLINT_NTFY_TOPIC'' = [] then ''glint-alerts'' else env ''GLINT_NTFY_TOPIC''),
         no_method = [], no_headers = []\<rparr>])"

text \<open>What the environment is applied to: the defaults when no file is named or the file is empty, else the
  expanded file decoded over the defaults.\<close>

definition file_base :: "(string \<Rightarrow> string) \<Rightarrow> (string \<Rightarrow> config \<Rightarrow> config option) \<Rightarrow> (string \<Rightarrow> config_file) \<Rightarrow> string \<Rightarrow>
    config option" where
  "file_base env yaml readfile path =
     (if path = [] \<or> readfile path = Content [] then Some defaults
      else case readfile path of Content bytes \<Rightarrow> yaml (expandEnvVars env bytes) defaults | _ \<Rightarrow> None)"

lemma atoi_empty: "atoi [] = None"
  by code_simp

lemma env_wins: "env_set env var old = (if env var = [] then old else env var)"
  "env_int env var n = (case atoi (env var) of Some m \<Rightarrow> m | None \<Rightarrow> n)"
  by (simp_all add: env_set_def env_int_def atoi_empty split: option.split)

lemma overrides: "overridden env base (applyEnvOverrides env base)"
  by (simp add: overridden_def applyEnvOverrides_def env_wins env_pve_def env_pbs_def env_ntfy_def
      env_true_def atoi_empty Let_def split: option.split)

lemma load_base:
  "Load env urlok yaml readfile path =
    (case file_base env yaml readfile path of
       Some base \<Rightarrow> finish_load env urlok base
     | None \<Rightarrow> Inl (case readfile path of NotExist \<Rightarrow> FileNotFound | Unreadable \<Rightarrow> ReadFailed | Content _ \<Rightarrow> ParseFailed))"
  by (auto simp: Load_def file_base_def split: config_file.split option.split)

text \<open>C24: a configuration that loads is usable, and is its base (the defaults when there is no file or an empty one, else the
  expanded file decoded over the defaults) with the settings of the environment that take precedence over it, one by
  one: a variable that is set wins over the file and the defaults, a number only when it is one, and a listed instance or
  notification target is never replaced by one from the environment. Loading fails with exactly the reason
  that applies: there is no such file, it cannot be read, it does not decode, or this configuration is not
  usable.\<close>

theorem load_result:
  "case Load env urlok yaml readfile path of
     Inr cfg \<Rightarrow> usable urlok cfg \<and> (\<exists>base. file_base env yaml readfile path = Some base \<and> overridden env base cfg)
   | Inl FileNotFound \<Rightarrow> path \<noteq> [] \<and> readfile path = NotExist
   | Inl ReadFailed \<Rightarrow> path \<noteq> [] \<and> readfile path = Unreadable
   | Inl ParseFailed \<Rightarrow> path \<noteq> [] \<and>
       (\<exists>bytes. readfile path = Content bytes \<and> bytes \<noteq> [] \<and> yaml (expandEnvVars env bytes) defaults = None)
   | Inl (Invalid e) \<Rightarrow> \<exists>base cfg. file_base env yaml readfile path = Some base \<and> overridden env base cfg \<and>
       \<not> usable urlok cfg \<and> Validate urlok cfg = Some e"
proof (cases "file_base env yaml readfile path")
  case None
  then show ?thesis
    by (auto simp: load_base file_base_def split: if_splits config_file.splits)
next
  case (Some base)
  have v: "Validate urlok c = None \<longleftrightarrow> usable urlok c" for c by (rule validate_usable)
  show ?thesis
  proof (cases "Validate urlok (applyEnvOverrides env base)")
    case None
    with Some have "Load env urlok yaml readfile path = Inr (applyEnvOverrides env base)"
      by (simp add: load_base finish_load_def Let_def)
    with Some None v [of "applyEnvOverrides env base"] overrides [of env base] show ?thesis by auto
  next
    case (Some e)
    with \<open>file_base env yaml readfile path = Some base\<close> have
      "Load env urlok yaml readfile path = Inl (Invalid e)" by (simp add: load_base finish_load_def Let_def)
    with Some \<open>file_base env yaml readfile path = Some base\<close> v [of "applyEnvOverrides env base"] overrides [of env base]
    show ?thesis by auto
  qed
qed

end
