(* ===== verification/Notify.thy ===== *)
theory Notify
  imports Domain
begin

text \<open>
  The notification providers: \<open>internal/notify/provider.go\<close>, \<open>ntfy.go\<close> and \<open>webhook.go\<close>. Parameters:
  \<open>okreq\<close> says whether \<open>net/http\<close> can build a request with a method and a URL, \<open>http\<close> is the answer of the
  network. A send returns its error, if any, and the requests it made. The JSON text of a
  notification is represented by the notification itself; \<open>encoding/json\<close> refuses it when the year of
  its timestamp does not have four digits.
\<close>

datatype body = Text string | Json notification

record request =
  rq_method :: string
  rq_url :: string
  rq_headers :: "string \<Rightarrow> string option"
  rq_body :: body

datatype reply = NetError | Status int

datatype send_error = Marshal | BuildRequest | SendFailed | UnexpectedStatus int

type_synonym sent = "send_error option \<times> request list"

text \<open>\<open>http.Header.Set\<close> writes under the canonical form of the key: capitals at the start and after
  each dash, small letters elsewhere, unless some byte is not allowed in a key.\<close>

definition token_byte :: "char \<Rightarrow> bool" where
  "token_byte c \<longleftrightarrow> is_digit c \<or> 65 \<le> byte_of c \<and> byte_of c \<le> 90 \<or> 97 \<le> byte_of c \<and> byte_of c \<le> 122 \<or>
     c \<in> set ''!#$%&*+-.^_|~'' \<or> byte_of c = 39 \<or> byte_of c = 96"

fun canon_from :: "bool \<Rightarrow> string \<Rightarrow> string" where
  "canon_from up [] = []"
| "canon_from up (c # cs) = (if up then upper_byte c else lower_byte c) # canon_from (c = CHR ''-'') cs"

definition canonical_key :: "string \<Rightarrow> string" where
  "canonical_key k = (if list_all token_byte k then canon_from True k else k)"

definition header_set :: "string \<Rightarrow> string \<Rightarrow> (string \<Rightarrow> string option) \<Rightarrow> string \<Rightarrow> string option" where
  "header_set k v h = h(canonical_key k \<mapsto> v)"

definition year_ok :: "gotime \<Rightarrow> bool" where
  "year_ok t \<longleftrightarrow> - 62167219200 * second \<le> t \<and> t < 253402300800 * second"

definition send_request :: "(request \<Rightarrow> reply) \<Rightarrow> request \<Rightarrow> sent" where
  "send_request http r =
     (case http r of
        NetError \<Rightarrow> (Some SendFailed, [r])
      | Status c \<Rightarrow> (if c < 200 \<or> c \<ge> 300 then Some (UnexpectedStatus c) else None, [r]))"

section \<open>ntfy.go\<close>

record ntfy =
  nf_url :: string
  nf_topic :: string

definition NewNtfy :: "string \<Rightarrow> string \<Rightarrow> ntfy" where
  "NewNtfy url topic = \<lparr>nf_url = trim_right_byte (CHR ''/'') url, nf_topic = topic\<rparr>"

definition severityToNtfyPriority :: "string \<Rightarrow> string" where
  "severityToNtfyPriority severity =
     (if severity = ''critical'' then ''5'' else if severity = ''warning'' then ''3''
      else if severity = ''info'' then ''2'' else ''3'')"

definition ntfyTags :: "notification \<Rightarrow> string" where
  "ntfyTags n =
     (let tags = (if nt_severity n = ''critical'' then [''rotating_light'']
                  else if nt_severity n = ''warning'' then [''warning'']
                  else if nt_severity n = ''info'' then [''information_source''] else []);
          tags = (if nt_type n \<noteq> [] then tags @ [nt_type n] else tags);
          tags = (if nt_resolved n then tags @ [''white_check_mark''] else tags)
      in str_join '','' tags)"

definition ntfy_send :: "(string \<Rightarrow> string \<Rightarrow> bool) \<Rightarrow> (request \<Rightarrow> reply) \<Rightarrow> ntfy \<Rightarrow> notification \<Rightarrow> sent" where
  "ntfy_send okreq http p n =
     (let endpoint = nf_url p @ ''/'' @ nf_topic p
      in if \<not> okreq ''POST'' endpoint then (Some BuildRequest, [])
         else let h = (\<lambda>_. None);
                  h = header_set ''Title'' (nt_title n) h;
                  h = header_set ''Priority'' (severityToNtfyPriority (nt_severity n)) h;
                  h = header_set ''Tags'' (ntfyTags n) h
              in send_request http \<lparr>rq_method = ''POST'', rq_url = endpoint, rq_headers = h,
                   rq_body = Text (nt_message n)\<rparr>)"

section \<open>webhook.go\<close>

record webhook =
  wh_url :: string
  wh_method :: string
  wh_headers :: "(string, string) gomap"

definition NewWebhook :: "string \<Rightarrow> string \<Rightarrow> (string, string) gomap \<Rightarrow> webhook" where
  "NewWebhook url method headers =
     \<lparr>wh_url = url, wh_method = (if method = [] then ''POST'' else method), wh_headers = headers\<rparr>"

definition webhook_send :: "(string \<Rightarrow> string \<Rightarrow> bool) \<Rightarrow> (request \<Rightarrow> reply) \<Rightarrow> webhook \<Rightarrow> notification \<Rightarrow> sent" where
  "webhook_send okreq http p n =
     (if \<not> year_ok (nt_timestamp n) then (Some Marshal, [])
      else if \<not> okreq (wh_method p) (wh_url p) then (Some BuildRequest, [])
      else let h = header_set ''Content-Type'' ''application/json'' (\<lambda>_. None);
               h = fold (\<lambda>(k, v). header_set k v) (wh_headers p) h
           in send_request http \<lparr>rq_method = wh_method p, rq_url = wh_url p, rq_headers = h,
                rq_body = Json n\<rparr>)"

section \<open>The contract of a provider\<close>

text \<open>What the alerter relies on: a provider makes at most one request, the one it builds for the
  notification, and reports success exactly when that request was answered with a status of the
  200s.\<close>

definition accepted :: "reply \<Rightarrow> bool" where
  "accepted r \<longleftrightarrow> (case r of NetError \<Rightarrow> False | Status c \<Rightarrow> 200 \<le> c \<and> c < 300)"

locale provider =
  fixes send :: "(request \<Rightarrow> reply) \<Rightarrow> notification \<Rightarrow> sent"
    and req :: "notification \<Rightarrow> request option"
  assumes no_request: "req n = None \<Longrightarrow> fst (send http n) \<noteq> None \<and> snd (send http n) = []"
    and one_request: "req n = Some r \<Longrightarrow> send http n = send_request http r"
begin

lemma success_iff: "fst (send http n) = None \<longleftrightarrow> (\<exists>r. req n = Some r \<and> accepted (http r))"
  by (cases "req n") (auto simp: no_request one_request send_request_def accepted_def split: reply.split)

lemma requests: "snd (send http n) = (case req n of None \<Rightarrow> [] | Some r \<Rightarrow> [r])"
  by (cases "req n") (auto simp: no_request one_request send_request_def split: reply.split)

lemma depends_on_reply: "(\<And>r. req n = Some r \<Longrightarrow> http r = http' r) \<Longrightarrow> req n \<noteq> None \<Longrightarrow>
    send http n = send http' n"
  by (auto simp: one_request send_request_def)

end

definition ntfy_request :: "(string \<Rightarrow> string \<Rightarrow> bool) \<Rightarrow> ntfy \<Rightarrow> notification \<Rightarrow> request option" where
  "ntfy_request okreq p n =
     (if okreq ''POST'' (nf_url p @ ''/'' @ nf_topic p)
      then Some \<lparr>rq_method = ''POST'', rq_url = nf_url p @ ''/'' @ nf_topic p,
             rq_headers = [''Title'' \<mapsto> nt_title n, ''Priority'' \<mapsto> severityToNtfyPriority (nt_severity n),
               ''Tags'' \<mapsto> ntfyTags n],
             rq_body = Text (nt_message n)\<rparr>
      else None)"

definition webhook_headers :: "webhook \<Rightarrow> string \<Rightarrow> string option" where
  "webhook_headers p = fold (\<lambda>(k, v). header_set k v) (wh_headers p) [''Content-Type'' \<mapsto> ''application/json'']"

definition webhook_request :: "(string \<Rightarrow> string \<Rightarrow> bool) \<Rightarrow> webhook \<Rightarrow> notification \<Rightarrow> request option" where
  "webhook_request okreq p n =
     (if year_ok (nt_timestamp n) \<and> okreq (wh_method p) (wh_url p)
      then Some \<lparr>rq_method = wh_method p, rq_url = wh_url p, rq_headers = webhook_headers p, rq_body = Json n\<rparr>
      else None)"

lemma canonical_own [simp]: "canonical_key ''Title'' = ''Title''" "canonical_key ''Priority'' = ''Priority''"
  "canonical_key ''Tags'' = ''Tags''" "canonical_key ''Content-Type'' = ''Content-Type''"
  by code_simp+

interpretation nt: provider "\<lambda>http. ntfy_send okreq http p" "ntfy_request okreq p" for okreq p
  by unfold_locales (auto simp: ntfy_send_def ntfy_request_def header_set_def Let_def split: if_splits)

interpretation wh: provider "\<lambda>http. webhook_send okreq http p" "webhook_request okreq p" for okreq p
  by unfold_locales
    (auto simp: webhook_send_def webhook_request_def webhook_headers_def header_set_def [of "''Content-Type''"]
      Let_def split: if_splits)

section \<open>The headers of a webhook do not depend on the order of the map\<close>

interpretation hdr: range_loop "\<lambda>(k, v) (h :: string \<Rightarrow> string option). h(k \<mapsto> v)"
  by unfold_locales (auto simp: fun_upd_twist)

lemma fold_upd: "fold (\<lambda>(k, v) h. h(k \<mapsto> v)) xs h = h ++ map_of (rev xs)"
  by (induction xs arbitrary: h) (auto simp: map_add_def fun_eq_iff split: option.splits)

lemma webhook_fold:
  "fold (\<lambda>(k, v). header_set k v) hs h = fold (\<lambda>(k, v) h. h(k \<mapsto> v)) (map (\<lambda>(k, v). (canonical_key k, v)) hs) h"
  by (induction hs arbitrary: h) (auto simp: header_set_def)

text \<open>Ntfy. A notification is delivered exactly when the one request made for it is answered with
  a 2xx status: a POST to the server's URL without trailing slashes followed by the topic, with the
  message as body, the title, a priority that depends on the severity only (critical 5, info 2, all
  others 3) and, for an alert type without commas, tags that split into the severity's symbol, the
  type and the mark of a resolved alert.\<close>

theorem ntfy_delivery:
  assumes "okreq ''POST'' (trim_right_byte (CHR ''/'') url @ ''/'' @ topic)"
    and "CHR '','' \<notin> set (nt_type n)" and "nt_type n \<noteq> []"
  shows "\<exists>r. snd (ntfy_send okreq http (NewNtfy url topic) n) = [r] \<and>
    (fst (ntfy_send okreq http (NewNtfy url topic) n) = None) = accepted (http r) \<and>
    rq_method r = ''POST'' \<and> rq_url r = trim_right_byte (CHR ''/'') url @ ''/'' @ topic \<and>
    rq_body r = Text (nt_message n) \<and> rq_headers r ''Title'' = Some (nt_title n) \<and>
    rq_headers r ''Priority'' = Some (if nt_severity n = ''critical'' then ''5''
      else if nt_severity n = ''info'' then ''2'' else ''3'') \<and>
    map_option (split_on (CHR '','')) (rq_headers r ''Tags'') =
      Some ((if nt_severity n = ''critical'' then [''rotating_light'']
             else if nt_severity n = ''warning'' then [''warning'']
             else if nt_severity n = ''info'' then [''information_source''] else []) @
            [nt_type n] @ (if nt_resolved n then [''white_check_mark''] else []))"
proof -
  let ?p = "NewNtfy url topic"
  have r: "ntfy_request okreq ?p n = Some \<lparr>rq_method = ''POST'', rq_url = trim_right_byte (CHR ''/'') url @ ''/'' @ topic,
      rq_headers = [''Title'' \<mapsto> nt_title n, ''Priority'' \<mapsto> severityToNtfyPriority (nt_severity n),
        ''Tags'' \<mapsto> ntfyTags n], rq_body = Text (nt_message n)\<rparr>" (is "_ = Some ?r")
    using assms(1) by (simp add: ntfy_request_def NewNtfy_def)
  have "split_on (CHR '','') (ntfyTags n) =
      (if nt_severity n = ''critical'' then [''rotating_light'']
             else if nt_severity n = ''warning'' then [''warning'']
             else if nt_severity n = ''info'' then [''information_source''] else []) @
            [nt_type n] @ (if nt_resolved n then [''white_check_mark''] else [])"
    unfolding ntfyTags_def Let_def using assms(2,3) by (subst split_on_join) auto
  then show ?thesis
    using nt.requests [of okreq http ?p n] nt.success_iff [of okreq http ?p n]
    by (intro exI [of _ ?r]) (simp add: r severityToNtfyPriority_def)
qed

theorem ntfy_delivery_witness:
  "fst (ntfy_send (\<lambda>_ _. True) (\<lambda>r. if rq_url r = ''http://h/t'' then Status 200 else NetError) (NewNtfy ''http://h/'' ''t'')
     \<lparr>nt_type = ''guest_down'', nt_severity = ''critical'', nt_title = [], nt_message = [], nt_instance = [],
      nt_subject = [], nt_timestamp = 0, nt_resolved = False, nt_metadata = []\<rparr>) = None"
proof -
  have t: "trim_right_byte (CHR ''/'') ''http://h/'' = ''http://h''" by (simp add: trim_right_byte_def)
  show ?thesis
    using ntfy_delivery [of "\<lambda>_ _. True" "''http://h/''" "''t''"
      "\<lparr>nt_type = ''guest_down'', nt_severity = ''critical'', nt_title = [], nt_message = [], nt_instance = [],
      nt_subject = [], nt_timestamp = 0, nt_resolved = False, nt_metadata = []\<rparr>"
      "\<lambda>r. if rq_url r = ''http://h/t'' then Status 200 else NetError"]
    by (auto simp: t accepted_def)
qed

text \<open>Webhooks. When the request can be built, exactly one is made, with the configured method
  (POST by default) and the notification as JSON, and success is a 2xx answer. Its headers are the
  configured ones in canonical form, whatever the order in which the map is visited, and
  \<open>Content-Type\<close> is JSON unless the configuration has a header that is the same up to capitals.\<close>

theorem webhook_delivery:
  assumes "year_ok (nt_timestamp n)" and "okreq (if m = [] then ''POST'' else m) url"
    and "distinct (map (\<lambda>(k, v). canonical_key k) hs)" and "mset hs' = mset hs"
  shows "\<exists>r. snd (webhook_send okreq http (NewWebhook url m hs') n) = [r] \<and>
    (fst (webhook_send okreq http (NewWebhook url m hs') n) = None) = accepted (http r) \<and>
    rq_method r = (if m = [] then ''POST'' else m) \<and> rq_url r = url \<and> rq_body r = Json n \<and>
    rq_headers r = [''Content-Type'' \<mapsto> ''application/json''] ++ map_of (map (\<lambda>(k, v). (canonical_key k, v)) hs)"
proof -
  let ?p = "NewWebhook url m hs'" and ?c = "\<lambda>(k, v). (canonical_key k, v)"
  let ?h0 = "[''Content-Type'' \<mapsto> ''application/json''] :: string \<Rightarrow> string option"
  have d: "distinct (map fst (map ?c hs))" using assms(3) by (simp add: comp_def case_prod_unfold)
  have "webhook_headers ?p = fold (\<lambda>(k, v) h. h(k \<mapsto> v)) (map ?c hs') ?h0"
    by (simp add: webhook_headers_def NewWebhook_def webhook_fold)
  also have "\<dots> = fold (\<lambda>(k, v) h. h(k \<mapsto> v)) (map ?c hs) ?h0"
    using d assms(4) by (intro hdr.order_irrelevant [symmetric]) (simp_all add: mset_map)
  also have "\<dots> = ?h0 ++ map_of (rev (map ?c hs))"
    by (rule fold_upd)
  also have "map_of (rev (map ?c hs)) = map_of (map ?c hs)"
    by (rule map_of_rev_distinct [OF d])
  finally have h: "webhook_headers ?p = ?h0 ++ map_of (map ?c hs)" .
  have r: "webhook_request okreq ?p n = Some \<lparr>rq_method = (if m = [] then ''POST'' else m), rq_url = url,
      rq_headers = webhook_headers ?p, rq_body = Json n\<rparr>" (is "_ = Some ?r")
    using assms(1,2) by (simp add: webhook_request_def NewWebhook_def)
  show ?thesis
    using wh.requests [of okreq http ?p n] wh.success_iff [of okreq http ?p n]
    by (intro exI [of _ ?r]) (simp add: r h)
qed

theorem webhook_delivery_witness:
  "\<exists>r. snd (webhook_send (\<lambda>_ _. True) (\<lambda>_. Status 204) (NewWebhook ''u'' [] [(''content-type'', ''text/plain'')])
     \<lparr>nt_type = [], nt_severity = [], nt_title = [], nt_message = [], nt_instance = [],
      nt_subject = [], nt_timestamp = 0, nt_resolved = False, nt_metadata = []\<rparr>) = [r] \<and>
     rq_headers r ''Content-Type'' = Some ''text/plain''"
proof -
  have c: "canonical_key ''content-type'' = ''Content-Type''" by code_simp
  show ?thesis
    using webhook_delivery [of "\<lparr>nt_type = [], nt_severity = [], nt_title = [], nt_message = [], nt_instance = [],
      nt_subject = [], nt_timestamp = 0, nt_resolved = False, nt_metadata = []\<rparr>" "\<lambda>_ _. True" "[]" "''u''"
      "[(''content-type'', ''text/plain'')]" "[(''content-type'', ''text/plain'')]" "\<lambda>_. Status 204"]
    by (auto simp: c year_ok_def)
qed

end
