(* ===== verification/Startup.thy ===== *)
theory Startup
  imports Config Notify "HOL-Library.Word"
begin

text \<open>
  The parts of \<open>cmd/glint/main.go\<close> around the start: what the binary says of itself, the health check that
  a container runs, and the addresses printed at the start; with the two functions of the standard
  package \<open>net\<close> they use. Parameters: the environment, the build information of the binary, the answer
  of an HTTP GET and the network interfaces.
\<close>

section \<open>Build information\<close>

definition apply_setting :: "string \<times> string \<Rightarrow> string \<times> string \<times> string \<Rightarrow> string \<times> string \<times> string" where
  "apply_setting = (\<lambda>(key, value) (sha, built, dirty).
     if key = ''vcs.revision'' then (if sha = ''none'' then value else sha, built, dirty)
     else if key = ''vcs.time'' then (sha, if built = ''unknown'' then value else built, dirty)
     else if key = ''vcs.modified'' then (sha, built, if value = ''true'' then ''dirty'' else dirty)
     else (sha, built, dirty))"

definition buildInfo :: "string \<Rightarrow> string \<Rightarrow> string \<Rightarrow> (string \<times> string) list option \<Rightarrow>
    string \<times> string \<times> string \<times> string" where
  "buildInfo version commit buildTime info =
     (let start = (commit, buildTime, ''clean'')
      in (version, case info of None \<Rightarrow> start | Some settings \<Rightarrow> fold apply_setting settings start))"

section \<open>Host and port\<close>

text \<open>\<open>net.SplitHostPort\<close>; its errors are not told apart by the program.\<close>

definition SplitHostPort :: "string \<Rightarrow> (string \<times> string) option" where
  "SplitHostPort s =
     (case after_last (CHR '':'') s of
        None \<Rightarrow> None
      | Some port \<Rightarrow>
          (let i = length s - Suc (length port)
           in if take 1 s = ''['' then
                (let e = length (takeWhile (\<lambda>c. c \<noteq> CHR '']'') s)
                 in if Suc e \<noteq> i \<or> CHR ''['' \<in> set (drop 1 s) \<or> CHR '']'' \<in> set (drop (Suc e) s) then None
                    else Some (drop 1 (take e s), port))
              else if CHR '':'' \<in> set (take i s) \<or> CHR ''['' \<in> set s \<or> CHR '']'' \<in> set s then None
              else Some (take i s, port)))"

definition JoinHostPort :: "string \<Rightarrow> string \<Rightarrow> string" where
  "JoinHostPort host port =
     (if CHR '':'' \<in> set host then ''['' @ host @ '']:'' @ port else host @ '':'' @ port)"

text \<open>A host or a port that an address can hold.\<close>

definition plain_address :: "string \<Rightarrow> string \<Rightarrow> bool" where
  "plain_address host port \<longleftrightarrow> set ''[]'' \<inter> (set host \<union> set port) = {} \<and> CHR '':'' \<notin> set port"

lemma after_last_append: "c \<notin> set t \<Longrightarrow> after_last c (s @ c # t) = Some t"
proof -
  assume t: "c \<notin> set t"
  have "takeWhile (\<lambda>x. x \<noteq> c) (rev t @ c # rev s) = rev t" using t by (induction t rule: rev_induct) auto
  then show ?thesis by (simp add: after_last_def)
qed

lemma split_join: "plain_address host port \<Longrightarrow> SplitHostPort (JoinHostPort host port) = Some (host, port)"
proof -
  assume p: "plain_address host port"
  then have c: "CHR '':'' \<notin> set port" and b: "CHR ''['' \<notin> set host" "CHR '']'' \<notin> set host"
      "CHR ''['' \<notin> set port" "CHR '']'' \<notin> set port"
    by (auto simp: plain_address_def)
  show ?thesis
  proof (cases "CHR '':'' \<in> set host")
    case True
    have "after_last (CHR '':'') (''['' @ host @ '']'' @ CHR '':'' # port) = Some port"
      using after_last_append [OF c, of "''['' @ host @ '']''"] by simp
    moreover have "takeWhile (\<lambda>c. c \<noteq> CHR '']'') (host @ '']'' @ t) = host" for t
      using b(2) by (induction host) auto
    ultimately show ?thesis using True b c by (simp add: SplitHostPort_def JoinHostPort_def Let_def)
  next
    case False
    have "take 1 (host @ CHR '':'' # port) \<noteq> ''[''" using b(1) by (cases host) auto
    with False show ?thesis
      using after_last_append [OF c, of host] b c by (simp add: SplitHostPort_def JoinHostPort_def Let_def)
  qed
qed

text \<open>An address put together from a host and a port is taken apart into the same host and port, an
  IPv6 host in its brackets and an empty host or port included.\<close>

theorem address_roundtrip:
  assumes "set ''[]'' \<inter> (set host \<union> set port) = {}" and "CHR '':'' \<notin> set port"
  shows "SplitHostPort (JoinHostPort host port) = Some (host, port)"
  using assms by (intro split_join) (simp add: plain_address_def)

theorem address_roundtrip_witness:
  "SplitHostPort ''[fe80::1]:3800'' = Some (''fe80::1'', ''3800'') \<and> SplitHostPort '':80'' = Some ([], ''80'')"
  using address_roundtrip [of "''fe80::1''" "''3800''"] address_roundtrip [of "[]" "''80''"]
  by (simp add: JoinHostPort_def)

section \<open>The health check\<close>

definition health_listen :: "(string \<Rightarrow> string) \<Rightarrow> string" where
  "health_listen env = (if env ''GLINT_LISTEN'' = [] then '':3800'' else env ''GLINT_LISTEN'')"

definition any_host :: "string \<Rightarrow> bool" where
  "any_host host \<longleftrightarrow> host = [] \<or> host = ''0.0.0.0'' \<or> host = ''::''"

definition health_url :: "string \<Rightarrow> string" where
  "health_url listen =
     (let (host, port) = (case SplitHostPort listen of
            Some hp \<Rightarrow> hp
          | None \<Rightarrow> ([], if has_prefix listen '':'' then drop 1 listen else listen));
          host = (if any_host host then ''127.0.0.1'' else host)
      in ''http://'' @ JoinHostPort host port @ ''/healthz'')"

definition runHealthcheck :: "(string \<Rightarrow> string) \<Rightarrow> (string \<Rightarrow> reply) \<Rightarrow> int" where
  "runHealthcheck env http =
     (case http (health_url (health_listen env)) of
        NetError \<Rightarrow> 1
      | Status c \<Rightarrow> if c \<noteq> 200 then 1 else 0)"

text \<open>The address the health check probes is the one a loaded configuration listens on when the variable is
  set or no file was read.\<close>

lemma loaded_listen: "Load env urlok yaml readfile path = Inr cfg \<Longrightarrow>
    env ''GLINT_LISTEN'' \<noteq> [] \<or> path = [] \<or> readfile path = Content [] \<Longrightarrow> cf_listen cfg = health_listen env"
  by (auto simp: Load_def finish_load_def applyEnvOverrides_def env_set_def health_listen_def defaults_def Let_def
      split: if_splits config_file.splits option.splits)

text \<open>When the variable for the listen address is set, or no configuration file has content, the health
  check exits with 0 exactly when a GET of \<open>/healthz\<close> at the address the server listens on (the loopback
  address when it listens on all of them) is answered with status 200. (A listen address from the
  file alone is not what the check probes.)\<close>

theorem healthcheck_probes_server:
  assumes "Load env urlok yaml readfile path = Inr cfg"
    and "env ''GLINT_LISTEN'' \<noteq> [] \<or> path = [] \<or> readfile path = Content []"
    and "cf_listen cfg = JoinHostPort host port"
    and "set ''[]'' \<inter> (set host \<union> set port) = {}" and "CHR '':'' \<notin> set port"
  shows "runHealthcheck env http =
    (if http (''http://'' @ JoinHostPort (if any_host host then ''127.0.0.1'' else host) port @ ''/healthz'') = Status 200
     then 0 else 1)"
  using loaded_listen [OF assms(1,2)] assms(3) split_join [of host port] assms(4,5)
  by (simp add: runHealthcheck_def health_url_def plain_address_def split: reply.split)

theorem healthcheck_probes_server_witness:
  "(let env = (\<lambda>v. if v = ''GLINT_PVE_URL'' then ''https://pve:8006'' else if v = ''GLINT_PVE_TOKEN_ID'' then ''t''
        else if v = ''GLINT_PVE_TOKEN_SECRET'' then ''s'' else []);
      http = (\<lambda>url. if url = ''http://127.0.0.1:3800/healthz'' then Status 200 else NetError)
    in runHealthcheck env http = 0)"
proof -
  define env where "env = (\<lambda>v. if v = ''GLINT_PVE_URL'' then ''https://pve:8006'' else if v = ''GLINT_PVE_TOKEN_ID''
    then ''t'' else if v = ''GLINT_PVE_TOKEN_SECRET'' then ''s'' else [])"
  define http where "http = (\<lambda>url. if url = ''http://127.0.0.1:3800/healthz'' then Status 200 else NetError)"
  have "usable (\<lambda>_. True) (applyEnvOverrides env defaults)"
    by (simp add: usable_def applyEnvOverrides_def defaults_def env_set_def env_int_def env_pve_def env_pbs_def
        env_ntfy_def env_def usable_pve_def usable_alerts_def nonempty_def)
  then have l: "Load env (\<lambda>_. True) (\<lambda>_ _. None) (\<lambda>_. NotExist) [] = Inr (applyEnvOverrides env defaults)"
    by (simp add: Load_def finish_load_def Let_def flip: validate_usable)
  have "cf_listen (applyEnvOverrides env defaults) = JoinHostPort [] ''3800''"
    by (simp add: applyEnvOverrides_def defaults_def env_set_def env_def JoinHostPort_def)
  then have "runHealthcheck env http = 0"
    by (subst healthcheck_probes_server [OF l, where host = "[]" and port = "''3800''"]) (simp_all add: any_host_def JoinHostPort_def http_def)
  then show ?thesis by (simp add: env_def http_def)
qed

section \<open>The printed addresses\<close>

type_synonym ip = "8 word list"

datatype address = IPNet ip | IPAddr ip | OtherAddr

record interface =
  if_up :: bool
  if_loopback :: bool
  if_addrs :: "address list option"

definition to4 :: "ip \<Rightarrow> ip option" where
  "to4 ip = (if length ip = 4 then Some ip
     else if length ip = 16 \<and> take 12 ip = replicate 10 0 @ [255, 255] then Some (drop 12 ip)
     else None)"

definition is_loopback :: "ip \<Rightarrow> bool" where
  "is_loopback ip = (case to4 ip of Some a \<Rightarrow> take 1 a = [127] | None \<Rightarrow> ip = replicate 15 0 @ [1])"

definition ip4_text :: "ip \<Rightarrow> string" where
  "ip4_text ip = str_join ''.'' (map (\<lambda>b. itoa (uint b)) (case to4 ip of Some a \<Rightarrow> a | None \<Rightarrow> []))"

definition url_line :: "string \<Rightarrow> string \<Rightarrow> string \<Rightarrow> string" where
  "url_line label host port =
     ''  '' @ [CHR 0xE2, CHR 0x9E, CHR 0x9C] @ ''  '' @ label @ '' http://'' @ host @ '':'' @ port @ ''/'' @ [nl]"

definition address_ip :: "address \<Rightarrow> ip" where
  "address_ip a = (case a of IPNet ip \<Rightarrow> ip | IPAddr ip \<Rightarrow> ip | OtherAddr \<Rightarrow> [])"

definition address_line :: "string \<Rightarrow> address \<Rightarrow> string" where
  "address_line port a =
     (let ip = address_ip a
      in if ip = [] \<or> is_loopback ip \<or> to4 ip = None then [] else url_line ''Network:'' (ip4_text ip) port)"

definition interface_lines :: "string \<Rightarrow> interface \<Rightarrow> string" where
  "interface_lines port ifc =
     (if \<not> if_up ifc \<or> if_loopback ifc then []
      else case if_addrs ifc of None \<Rightarrow> [] | Some as \<Rightarrow> concat (map (address_line port) as))"

definition printListenURLs :: "interface list option \<Rightarrow> string \<Rightarrow> string" where
  "printListenURLs ifaces listen =
     (case SplitHostPort listen of
        None \<Rightarrow> []
      | Some (host, port) \<Rightarrow>
          nl # url_line ''Local:  '' ''localhost'' port @
          (if \<not> any_host host then
             (if host \<noteq> ''localhost'' \<and> host \<noteq> ''127.0.0.1'' \<and> host \<noteq> ''::1'' then url_line ''Network:'' host port else [])
           else (case ifaces of None \<Rightarrow> [] | Some ifs \<Rightarrow> concat (map (interface_lines port) ifs))) @ [nl])"

end
