(* ===== verification/Temperature.thy ===== *)
theory Temperature
  imports Cache GoJson
begin

text \<open>
  \<open>internal/collector/temperature.go\<close>: the CPU temperature of a node, read from the output of
  \<open>sensors -j\<close> over SSH. Parameters: the key file and its parse at the start, and what the SSH
  session gives, up to the decoded JSON of the output (\<open>None\<close> when it is not JSON).
\<close>

datatype temp_error = KeyFile | KeyParse | KnownHosts | Dial | Handshake | Session | RunSensors | BadJson | NoTemperature

definition isRelevantChip :: "string \<Rightarrow> bool" where
  "isRelevantChip name = list_ex (has_prefix name) [''coretemp'', ''k10temp'', ''zenpower'', ''acpitz'', ''Package'']"

definition is_input_key :: "string \<Rightarrow> bool" where
  "is_input_key key \<longleftrightarrow> length key > 6 \<and> take 4 key = ''temp'' \<and> drop (length key - 6) key = ''_input''"

definition upd_max :: "string \<times> any \<Rightarrow> f64 \<times> bool \<Rightarrow> f64 \<times> bool" where
  "upd_max = (\<lambda>(key, val) (maxTemp, found).
     if is_input_key key then
       (case val of AF64 temp \<Rightarrow> if flt maxTemp temp then (temp, True) else (maxTemp, found)
        | _ \<Rightarrow> (maxTemp, found))
     else (maxTemp, found))"

definition sensor_max :: "string \<times> any \<Rightarrow> f64 \<times> bool \<Rightarrow> f64 \<times> bool" where
  "sensor_max = (\<lambda>(_, sensorData) acc. case sensorData of AMap m \<Rightarrow> fold upd_max m acc | _ \<Rightarrow> acc)"

definition chip_max :: "string \<times> any \<Rightarrow> f64 \<times> bool \<Rightarrow> f64 \<times> bool" where
  "chip_max = (\<lambda>(chipName, chipData) acc.
     case chipData of
       AMap m \<Rightarrow> if \<not> isRelevantChip chipName then acc else fold sensor_max m acc
     | _ \<Rightarrow> acc)"

definition parseSensorsJSON :: "any option \<Rightarrow> temp_error + f64" where
  "parseSensorsJSON doc =
     (let sensors = (case doc of Some (AMap m) \<Rightarrow> Some m | Some ANil \<Rightarrow> Some [] | _ \<Rightarrow> None)
      in case sensors of
           None \<Rightarrow> Inl BadJson
         | Some m \<Rightarrow>
             (let (maxTemp, found) = fold chip_max m (Fin 0, False)
              in if \<not> found then Inl NoTemperature else Inr maxTemp))"

record ssh_config =
  sc_host :: string
  sc_user :: string
  sc_key :: string
  sc_knownhosts :: string

record temp_collector =
  tc_instance :: string
  tc_node :: string
  tc_ssh :: ssh_config

definition NewTempCollector :: "(string \<Rightarrow> string option) \<Rightarrow> (string \<Rightarrow> bool) \<Rightarrow> string \<Rightarrow> string \<Rightarrow> ssh_config \<Rightarrow>
    temp_error + temp_collector" where
  "NewTempCollector readfile parsekey inst nd cfg =
     (case readfile (sc_key cfg) of
        None \<Rightarrow> Inl KeyFile
      | Some bytes \<Rightarrow>
          if \<not> parsekey bytes then Inl KeyParse
          else Inr \<lparr>tc_instance = inst, tc_node = nd, tc_ssh = cfg\<rparr>)"

definition temp_name :: "temp_collector \<Rightarrow> string" where
  "temp_name t = ''temp:'' @ tc_instance t @ ''/'' @ tc_node t"

text \<open>What the outside gives on one poll.\<close>

record ssh_world =
  sw_knownhosts :: "string \<Rightarrow> bool"
  sw_dial :: "string \<Rightarrow> bool"
  sw_handshake :: bool
  sw_session :: bool
  sw_sensors :: "any option option"

definition hostKeyCallback :: "ssh_world \<Rightarrow> temp_collector \<Rightarrow> bool" where
  "hostKeyCallback w t = (sc_knownhosts (tc_ssh t) = [] \<or> sw_knownhosts w (sc_knownhosts (tc_ssh t)))"

definition pollTemperature :: "ssh_world \<Rightarrow> temp_collector \<Rightarrow> temp_error + f64" where
  "pollTemperature w t =
     (if \<not> hostKeyCallback w t then Inl KnownHosts
      else if \<not> sw_dial w (sc_host (tc_ssh t) @ '':22'') then Inl Dial
      else if \<not> sw_handshake w then Inl Handshake
      else if \<not> sw_session w then Inl Session
      else case sw_sensors w of
             None \<Rightarrow> Inl RunSensors
           | Some doc \<Rightarrow> parseSensorsJSON doc)"

definition temp_collect :: "ssh_world \<Rightarrow> temp_collector \<Rightarrow> cache \<Rightarrow> temp_error option \<times> cache" where
  "temp_collect w t c =
     (case pollTemperature w t of
        Inl e \<Rightarrow> (None, c)
      | Inr temp \<Rightarrow> (None, UpdateNodeTemperature (tc_instance t) (tc_node t) temp c))"

section \<open>The highest temperature\<close>

text \<open>The readings the loops look at.\<close>

definition readings_of :: "string \<times> any \<Rightarrow> f64 list" where
  "readings_of = (\<lambda>(key, val). if is_input_key key then (case val of AF64 t \<Rightarrow> [t] | _ \<Rightarrow> []) else [])"

definition sensor_readings :: "string \<times> any \<Rightarrow> f64 list" where
  "sensor_readings = (\<lambda>(_, d). case d of AMap m \<Rightarrow> concat (map readings_of m) | _ \<Rightarrow> [])"

definition chip_readings :: "string \<times> any \<Rightarrow> f64 list" where
  "chip_readings = (\<lambda>(nm, d). case d of
     AMap m \<Rightarrow> if isRelevantChip nm then concat (map sensor_readings m) else [] | _ \<Rightarrow> [])"

definition readings :: "any option \<Rightarrow> f64 list" where
  "readings doc = (case doc of Some (AMap m) \<Rightarrow> concat (map chip_readings m) | _ \<Rightarrow> [])"

definition higher :: "f64 \<Rightarrow> f64 \<times> bool \<Rightarrow> f64 \<times> bool" where
  "higher t = (\<lambda>(m, found). if flt m t then (t, True) else (m, found))"

lemma fold_flat:
  assumes "\<And>x a. g x a = fold h (f x) a"
  shows "fold g xs a = fold h (concat (map f xs)) a"
  by (induction xs arbitrary: a) (simp_all add: assms)

lemma loops_flat: "fold chip_max m a = fold higher (concat (map chip_readings m)) a"
proof -
  have u: "upd_max x a = fold higher (readings_of x) a" for x a
    by (simp add: upd_max_def readings_of_def higher_def case_prod_unfold split: any.split)
  have s: "sensor_max x a = fold higher (sensor_readings x) a" for x a
    by (cases x; cases "snd x") (simp_all add: sensor_max_def sensor_readings_def fold_flat [OF u])
  have c: "chip_max x a = fold higher (chip_readings x) a" for x a
    by (cases x; cases "snd x") (simp_all add: chip_max_def chip_readings_def fold_flat [OF s])
  show ?thesis by (rule fold_flat [OF c])
qed

lemma fold_higher:
  assumes "NaN \<notin> set ts" and "m \<noteq> NaN"
  shows "(let (m', found') = fold higher ts (m, found) in
    m' \<in> insert m (set ts) \<and> fle m m' \<and> (\<forall>t \<in> set ts. fle t m') \<and>
    (found' \<longleftrightarrow> found \<or> (\<exists>t \<in> set ts. flt m t)) \<and> (m' \<noteq> m \<longrightarrow> flt m m'))"
  using assms
proof (induction ts arbitrary: m found)
  case (Cons t ts)
  have h: "higher t (m, found) = (if flt m t then (t, True) else (m, found))" by (simp add: higher_def)
  show ?case
  proof (cases "flt m t")
    case True
    obtain m' f' where e: "fold higher ts (t, True) = (m', f')" by fastforce
    from Cons.IH [of t True] Cons.prems e have IH: "m' \<in> insert t (set ts)" "fle t m'" "\<forall>u \<in> set ts. fle u m'" "f'"
      by (auto simp: Let_def)
    have n: "m' \<noteq> NaN" using IH(2) by auto
    from True Cons.prems have "fle m t" using fle_linear [of m t] by (auto simp: flt_iff)
    then have "fle m m'" using IH(2) fle_trans by blast
    moreover have "flt m m'" if "m' \<noteq> m"
      using that True IH(2) n Cons.prems fle_trans [of t m' m] by (auto simp: flt_iff)
    ultimately show ?thesis using IH True e h by auto
  next
    case False
    with Cons.prems have "fle t m" by (auto simp: flt_iff)
    obtain m' f' where e: "fold higher ts (m, found) = (m', f')" by fastforce
    from Cons.IH [of m found] Cons.prems e have IH: "m' \<in> insert m (set ts)" "fle m m'" "\<forall>u \<in> set ts. fle u m'"
        "f' \<longleftrightarrow> found \<or> (\<exists>t \<in> set ts. flt m t)" "m' \<noteq> m \<longrightarrow> flt m m'"
      by (auto simp: Let_def)
    have "fle t m'" using \<open>fle t m\<close> IH(2) fle_trans by blast
    with False IH e h show ?thesis by auto
  qed
qed auto

definition connected :: "ssh_world \<Rightarrow> temp_collector \<Rightarrow> bool" where
  "connected w t \<longleftrightarrow> hostKeyCallback w t \<and> sw_dial w (sc_host (tc_ssh t) @ '':22'') \<and> sw_handshake w \<and> sw_session w"

lemma parse_highest:
  assumes "NaN \<notin> set (readings doc)"
  shows "if list_ex (flt (Fin 0)) (readings doc)
    then \<exists>m. parseSensorsJSON doc = Inr m \<and> m \<in> set (readings doc) \<and> list_all (\<lambda>u. fle u m) (readings doc)
    else \<exists>e. parseSensorsJSON doc = Inl e"
proof (cases "\<exists>m. doc = Some (AMap m)")
  case True
  then obtain m where m: "doc = Some (AMap m)" by blast
  obtain mx f where e: "fold higher (readings doc) (Fin 0, False) = (mx, f)" by fastforce
  have "fold chip_max m (Fin 0, False) = (mx, f)" using e by (simp add: loops_flat readings_def m)
  moreover from fold_higher [OF assms, of "Fin 0" False] e have
    "mx \<in> insert (Fin 0) (set (readings doc))" "\<forall>u \<in> set (readings doc). fle u mx"
    "f \<longleftrightarrow> (\<exists>u \<in> set (readings doc). flt (Fin 0) u)" "mx \<noteq> Fin 0 \<longrightarrow> flt (Fin 0) mx"
    by (simp_all add: Let_def)
  moreover have "mx \<noteq> Fin 0" if "\<exists>u \<in> set (readings doc). flt (Fin 0) u"
    using that calculation(3) by (auto simp: flt_def)
  ultimately show ?thesis by (auto simp: parseSensorsJSON_def m list_ex_iff list_all_iff)
next
  case False
  then show ?thesis
    by (auto simp: parseSensorsJSON_def readings_def Let_def split: option.split any.split)
qed

text \<open>The temperature that is recorded. A poll never fails as far as its caller can see. When the
  connection works and the sensors' output has a positive reading of a CPU chip, the node's
  temperature becomes the highest of the readings; when it has none, or the output or the connection
  is broken, the cache is left exactly as it was.\<close>

theorem temperature_poll:
  assumes "\<And>doc. sw_sensors w = Some doc \<Longrightarrow> NaN \<notin> set (readings doc)"
  shows "fst (temp_collect w t c) = None \<and>
    (case sw_sensors w of
       Some doc \<Rightarrow>
         (if connected w t \<and> list_ex (flt (Fin 0)) (readings doc)
          then \<exists>m. m \<in> set (readings doc) \<and> list_all (\<lambda>u. fle u m) (readings doc) \<and>
            snd (temp_collect w t c) = UpdateNodeTemperature (tc_instance t) (tc_node t) m c
          else snd (temp_collect w t c) = c)
     | None \<Rightarrow> snd (temp_collect w t c) = c)"
proof (cases "connected w t \<and> sw_sensors w \<noteq> None")
  case True
  then obtain doc where d: "sw_sensors w = Some doc" by blast
  with True have "pollTemperature w t = parseSensorsJSON doc"
    by (auto simp: pollTemperature_def connected_def)
  with parse_highest [OF assms [OF d]] d True show ?thesis
    by (auto simp: temp_collect_def split: if_splits)
next
  case False
  then have "\<exists>e. pollTemperature w t = Inl e"
    by (auto simp: pollTemperature_def connected_def split: option.split)
  with False show ?thesis by (auto simp: temp_collect_def split: option.split)
qed

theorem temperature_poll_witness:
  "\<exists>m. snd (temp_collect \<lparr>sw_knownhosts = \<lambda>_. True, sw_dial = \<lambda>_. True, sw_handshake = True, sw_session = True,
       sw_sensors = Some (Some (AMap [(''coretemp-isa-0000'', AMap [(''Core 0'', AMap [(''temp2_input'', AF64 (Fin 48)),
         (''temp2_max'', AF64 (Fin 90))])])]))\<rparr>
     \<lparr>tc_instance = ''pve'', tc_node = ''n'', tc_ssh = \<lparr>sc_host = ''h'', sc_user = ''u'', sc_key = ''k'', sc_knownhosts = []\<rparr>\<rparr> cache_new) =
     UpdateNodeTemperature ''pve'' ''n'' m cache_new \<and> fle (Fin 48) m"
proof -
  let ?w = "\<lparr>sw_knownhosts = \<lambda>_. True, sw_dial = \<lambda>_. True, sw_handshake = True, sw_session = True,
       sw_sensors = Some (Some (AMap [(''coretemp-isa-0000'', AMap [(''Core 0'', AMap [(''temp2_input'', AF64 (Fin 48)),
         (''temp2_max'', AF64 (Fin 90))])])]))\<rparr>"
  have r: "readings (Some (AMap [(''coretemp-isa-0000'', AMap [(''Core 0'', AMap [(''temp2_input'', AF64 (Fin 48)),
         (''temp2_max'', AF64 (Fin 90))])])])) = [Fin 48]"
    by (simp add: readings_def chip_readings_def sensor_readings_def readings_of_def isRelevantChip_def
        has_prefix_def is_input_key_def)
  let ?t = "\<lparr>tc_instance = ''pve'', tc_node = ''n'', tc_ssh = \<lparr>sc_host = ''h'', sc_user = ''u'',
      sc_key = ''k'', sc_knownhosts = []\<rparr>\<rparr>"
  have "connected ?w ?t" by (simp add: connected_def hostKeyCallback_def)
  with temperature_poll [of ?w ?t cache_new] obtain m where
    "m \<in> set [Fin 48]" "snd (temp_collect ?w ?t cache_new) = UpdateNodeTemperature ''pve'' ''n'' m cache_new"
    by (auto simp: r)
  then show ?thesis by (intro exI [of _ m]) simp
qed

end
