(* ===== verification/Collector.thy ===== *)
theory Collector
  imports Prelude
begin

text \<open>
  \<open>internal/collector/collector.go\<close>: the worker pool that bounds the concurrent polls, as a step
  relation over all interleavings of its callers, and the loop that polls at an interval. A channel
  of capacity \<open>n\<close> is the number of tokens in it; a send to a full channel waits, which also covers a
  channel without capacity, since the only receivers are the jobs that already run.
\<close>

section \<open>The worker pool\<close>

datatype job_state = Waiting | Running | Finished | Rejected

record worker_pool =
  wp_cap :: nat
  wp_sem :: nat
  wp_done :: bool
  wp_jobs :: "job_state list"

definition NewWorkerPool :: "nat \<Rightarrow> worker_pool" where
  "NewWorkerPool maxWorkers = \<lparr>wp_cap = maxWorkers, wp_sem = 0, wp_done = False, wp_jobs = []\<rparr>"

text \<open>The steps: a caller enters \<open>Submit\<close>; the send succeeds and the job's goroutine starts; a job ends
  and its deferred receive takes a token out; the context is cancelled; a waiting caller takes the
  branch of the cancelled context. When both branches of the \<open>select\<close> are ready either may be taken.\<close>

inductive pool_step :: "worker_pool \<Rightarrow> worker_pool \<Rightarrow> bool" where
  enter: "pool_step p (p\<lparr>wp_jobs := wp_jobs p @ [Waiting]\<rparr>)"
| start: "i < length (wp_jobs p) \<Longrightarrow> wp_jobs p ! i = Waiting \<Longrightarrow> wp_sem p < wp_cap p \<Longrightarrow>
    pool_step p (p\<lparr>wp_jobs := (wp_jobs p)[i := Running], wp_sem := wp_sem p + 1\<rparr>)"
| finish: "i < length (wp_jobs p) \<Longrightarrow> wp_jobs p ! i = Running \<Longrightarrow>
    pool_step p (p\<lparr>wp_jobs := (wp_jobs p)[i := Finished], wp_sem := wp_sem p - 1\<rparr>)"
| cancel: "pool_step p (p\<lparr>wp_done := True\<rparr>)"
| reject: "i < length (wp_jobs p) \<Longrightarrow> wp_jobs p ! i = Waiting \<Longrightarrow> wp_done p \<Longrightarrow>
    pool_step p (p\<lparr>wp_jobs := (wp_jobs p)[i := Rejected]\<rparr>)"

definition pool_reachable :: "nat \<Rightarrow> worker_pool \<Rightarrow> bool" where
  "pool_reachable n p \<longleftrightarrow> pool_step\<^sup>*\<^sup>* (NewWorkerPool n) p"

definition running :: "worker_pool \<Rightarrow> nat" where
  "running p = count_list (wp_jobs p) Running"

text \<open>The invariant: the tokens in the channel are the running jobs, and fit into it; nobody is turned
  away unless the context is cancelled.\<close>

definition pool_inv :: "nat \<Rightarrow> worker_pool \<Rightarrow> bool" where
  "pool_inv n p \<longleftrightarrow> wp_cap p = n \<and> wp_sem p = running p \<and> wp_sem p \<le> n \<and>
     (wp_done p \<or> Rejected \<notin> set (wp_jobs p))"

lemma count_list_update:
  "i < length xs \<Longrightarrow> count_list (xs[i := y]) x + (if xs ! i = x then 1 else 0) =
     count_list xs x + (if y = x then 1 else 0)"
proof (induction xs arbitrary: i)
  case (Cons a xs)
  show ?case
  proof (cases i)
    case (Suc j)
    with Cons.IH [of j] Cons.prems show ?thesis by auto
  qed auto
qed simp

lemma set_update_no: "x \<notin> set xs \<Longrightarrow> y \<noteq> x \<Longrightarrow> x \<notin> set (xs[i := y])"
  using set_update_subset_insert [of xs i y] by auto

lemma pool_inv_step: "pool_step p p' \<Longrightarrow> pool_inv n p \<Longrightarrow> pool_inv n p'"
proof (induction rule: pool_step.induct)
  case (start i p)
  then show ?case
    using count_list_update [of i "wp_jobs p" Running Running] by (auto simp: pool_inv_def running_def set_update_no)
next
  case (finish i p)
  then show ?case
    using count_list_update [of i "wp_jobs p" Finished Running] by (auto simp: pool_inv_def running_def set_update_no)
next
  case (reject i p)
  then show ?case
    using count_list_update [of i "wp_jobs p" Rejected Running] by (auto simp: pool_inv_def running_def)
qed (auto simp: pool_inv_def running_def)

lemma pool_inv_reachable: "pool_reachable n p \<Longrightarrow> pool_inv n p"
  unfolding pool_reachable_def
proof (induction rule: rtranclp_induct)
  case base
  then show ?case by (simp add: pool_inv_def running_def NewWorkerPool_def)
qed (rule pool_inv_step)

text \<open>C16: The worker pool is safe: in every state that any interleaving of its callers can reach, at
  most \<open>maxWorkers\<close> jobs run, exactly as many as there are tokens in the channel, and no caller has
  been turned away unless the context was cancelled.\<close>

theorem pool_bounded:
  assumes "pool_reachable n p"
  shows "running p \<le> n \<and> wp_sem p = running p \<and> (wp_done p \<or> Rejected \<notin> set (wp_jobs p))"
  using pool_inv_reachable [OF assms] by (auto simp: pool_inv_def)

theorem pool_bounded_witness:
  "running (\<lparr>wp_cap = 1, wp_sem = 1, wp_done = False, wp_jobs = [Running]\<rparr>) \<le> 1"
proof -
  have 1: "pool_step (NewWorkerPool 1) \<lparr>wp_cap = 1, wp_sem = 0, wp_done = False, wp_jobs = [Waiting]\<rparr>"
    using pool_step.enter [of "NewWorkerPool 1"] by (simp add: NewWorkerPool_def)
  have 2: "pool_step \<lparr>wp_cap = 1, wp_sem = 0, wp_done = False, wp_jobs = [Waiting]\<rparr>
      \<lparr>wp_cap = 1, wp_sem = 1, wp_done = False, wp_jobs = [Running]\<rparr>"
    using pool_step.start [of 0 "\<lparr>wp_cap = 1, wp_sem = 0, wp_done = False, wp_jobs = [Waiting]\<rparr>"] by simp
  have "pool_reachable 1 \<lparr>wp_cap = 1, wp_sem = 1, wp_done = False, wp_jobs = [Running]\<rparr>"
    unfolding pool_reachable_def using 1 2 by (meson rtranclp.rtrancl_refl rtranclp.rtrancl_into_rtrancl)
  from pool_bounded [OF this] show ?thesis by simp
qed

section \<open>Nobody waits for ever, unless the pool has no workers\<close>

definition settled :: "worker_pool \<Rightarrow> bool" where
  "settled p \<longleftrightarrow> list_all (\<lambda>j. j = Finished \<or> j = Rejected) (wp_jobs p)"

definition work_left :: "worker_pool \<Rightarrow> nat" where
  "work_left p = 2 * count_list (wp_jobs p) Waiting + count_list (wp_jobs p) Running"

text \<open>As long as not every job is settled, some job that runs can end or, with a worker free, some job
  that waits can start; either leaves less work.\<close>

lemma pool_progress:
  assumes "pool_inv n p" and "0 < n" and "\<not> settled p"
  shows "\<exists>p'. pool_step p p' \<and> work_left p' < work_left p \<and> wp_done p' = wp_done p \<and>
    length (wp_jobs p') = length (wp_jobs p)"
proof (cases "Running \<in> set (wp_jobs p)")
  case True
  then obtain i where i: "i < length (wp_jobs p)" "wp_jobs p ! i = Running" by (auto simp: in_set_conv_nth)
  then show ?thesis
    using count_list_update [OF i(1), of Finished Running] count_list_update [OF i(1), of Finished Waiting]
    pool_step.finish [OF i]
    by (intro exI [of _ "p\<lparr>wp_jobs := (wp_jobs p)[i := Finished], wp_sem := wp_sem p - 1\<rparr>"]) (simp add: work_left_def)
next
  case False
  with assms have "running p = 0" by (simp add: running_def count_list_0_iff)
  with assms have s: "wp_sem p < wp_cap p" by (auto simp: pool_inv_def)
  from False assms(3) obtain j where "j \<in> set (wp_jobs p)" "j = Waiting"
    by (auto simp: settled_def list_all_iff) (metis job_state.exhaust)
  then obtain i where i: "i < length (wp_jobs p)" "wp_jobs p ! i = Waiting" by (auto simp: in_set_conv_nth)
  then show ?thesis
    using count_list_update [OF i(1), of Running Running] count_list_update [OF i(1), of Running Waiting]
    pool_step.start [OF i s]
    by (intro exI [of _ "p\<lparr>wp_jobs := (wp_jobs p)[i := Running], wp_sem := wp_sem p + 1\<rparr>"]) (simp add: work_left_def)
qed

text \<open>A step of the jobs submitted so far: one starts, ends or is turned away. Only the entering of further callers
  and the cancellation are left out.\<close>

definition job_step :: "worker_pool \<Rightarrow> worker_pool \<Rightarrow> bool" where
  "job_step p p' \<longleftrightarrow> pool_step p p' \<and> length (wp_jobs p') = length (wp_jobs p) \<and> wp_jobs p' \<noteq> wp_jobs p"

lemma job_step_inv: "job_step p p' \<Longrightarrow> pool_inv n p \<Longrightarrow> pool_inv n p'"
  using pool_inv_step by (auto simp: job_step_def)

lemma job_step_less: "job_step p p' \<Longrightarrow> work_left p' < work_left p"
proof -
  assume "job_step p p'"
  then have "pool_step p p'" "length (wp_jobs p') = length (wp_jobs p)" "wp_jobs p' \<noteq> wp_jobs p"
    by (simp_all add: job_step_def)
  then show ?thesis
  proof (induction rule: pool_step.induct)
    case (start i p)
    then show ?case
      using count_list_update [of i "wp_jobs p" Running Running] count_list_update [of i "wp_jobs p" Running Waiting]
      by (simp add: work_left_def)
  next
    case (finish i p)
    then show ?case
      using count_list_update [of i "wp_jobs p" Finished Running] count_list_update [of i "wp_jobs p" Finished Waiting]
      by (simp add: work_left_def)
  next
    case (reject i p)
    then show ?case
      using count_list_update [of i "wp_jobs p" Rejected Running] count_list_update [of i "wp_jobs p" Rejected Waiting]
      by (simp add: work_left_def)
  qed simp_all
qed

lemma job_steps: "(job_step ^^ k) p q \<Longrightarrow> pool_inv n p \<Longrightarrow> pool_inv n q \<and> k + work_left q \<le> work_left p"
proof (induction k arbitrary: q)
  case (Suc k)
  then obtain r where r: "(job_step ^^ k) p r" "job_step r q" by auto
  from Suc.IH [OF r(1) Suc.prems(2)] job_step_less [OF r(2)] job_step_inv [OF r(2)] show ?case by force
qed simp

lemma job_step_exists: "pool_inv n p \<Longrightarrow> 0 < n \<Longrightarrow> \<not> settled p \<Longrightarrow> \<exists>q. job_step p q \<and> wp_done q = wp_done p"
proof -
  assume "pool_inv n p" "0 < n" "\<not> settled p"
  from pool_progress [OF this] obtain q where
    "pool_step p q" "work_left q < work_left p" "wp_done q = wp_done p" "length (wp_jobs q) = length (wp_jobs p)" by blast
  then show ?thesis by (intro exI [of _ q]) (auto simp: job_step_def work_left_def)
qed

text \<open>C17: The worker pool is live. In a pool with at least one worker every run of the jobs submitted so far, in which nobody
  else enters and nothing is cancelled, takes at most two steps for each caller that waits and one
  for each job that runs; where it stops, every job has ended or was turned away, since as long as one has not,
  some job can start or end without a cancellation. So no caller is ever blocked for good.\<close>

theorem pool_live:
  assumes "pool_reachable n p" and "0 < n" and "(job_step ^^ k) p q"
  shows "k \<le> 2 * count_list (wp_jobs p) Waiting + count_list (wp_jobs p) Running \<and>
    (if settled q then \<nexists>r. job_step q r else \<exists>r. job_step q r \<and> wp_done r = wp_done q)"
proof -
  from job_steps [OF assms(3) pool_inv_reachable [OF assms(1)]]
  have q: "pool_inv n q" "k + work_left q \<le> work_left p" by simp_all
  have "work_left q = 0" if "settled q"
    using that by (auto simp: settled_def work_left_def list_all_iff count_list_0_iff)
  with job_step_less have "\<nexists>r. job_step q r" if "settled q" using that by (metis less_nat_zero_code)
  with q job_step_exists [OF q(1) assms(2)] show ?thesis by (auto simp: work_left_def)
qed

theorem pool_live_witness:
  "\<exists>q r. (job_step ^^ 2) \<lparr>wp_cap = 1, wp_sem = 0, wp_done = False, wp_jobs = [Waiting, Waiting]\<rparr> q \<and>
    wp_jobs q = [Finished, Waiting] \<and> job_step q r \<and> wp_done r = False"
proof -
  let ?p = "\<lparr>wp_cap = 1, wp_sem = 0, wp_done = False, wp_jobs = [Waiting, Waiting]\<rparr>"
    and ?o = "\<lparr>wp_cap = 1, wp_sem = 1, wp_done = False, wp_jobs = [Running, Waiting]\<rparr>"
    and ?q = "\<lparr>wp_cap = 1, wp_sem = 0, wp_done = False, wp_jobs = [Finished, Waiting]\<rparr>"
  have "pool_step (NewWorkerPool 1) \<lparr>wp_cap = 1, wp_sem = 0, wp_done = False, wp_jobs = [Waiting]\<rparr>"
    using pool_step.enter [of "NewWorkerPool 1"] by (simp add: NewWorkerPool_def)
  moreover have "pool_step \<lparr>wp_cap = 1, wp_sem = 0, wp_done = False, wp_jobs = [Waiting]\<rparr> ?p"
    using pool_step.enter [of "\<lparr>wp_cap = 1, wp_sem = 0, wp_done = False, wp_jobs = [Waiting]\<rparr>"] by simp
  ultimately have p: "pool_reachable 1 ?p"
    unfolding pool_reachable_def by (meson rtranclp.rtrancl_refl rtranclp.rtrancl_into_rtrancl)
  have "job_step ?p ?o" using pool_step.start [of 0 ?p] by (simp add: job_step_def)
  moreover have "job_step ?o ?q" using pool_step.finish [of 0 ?o] by (simp add: job_step_def)
  ultimately have q: "(job_step ^^ 2) ?p ?q" by (auto simp: numeral_2_eq_2)
  have "\<not> settled ?q" by (simp add: settled_def)
  with pool_live [OF p _ q] obtain r where "job_step ?q r" "wp_done r = wp_done ?q" by auto
  with q show ?thesis by (intro exI [of _ ?q] exI [of _ r]) simp
qed

section \<open>The polling loop\<close>

datatype loop_event = Ticked | CtxDone

text \<open>\<open>Run\<close>: collect at the start and at each tick, whatever the result, until the context is done;
  the flag says that the loop has returned. The state is whatever \<open>collect\<close> changes.\<close>

fun run_events :: "('s \<Rightarrow> 'e option \<times> 's) \<Rightarrow> loop_event list \<Rightarrow> 's \<Rightarrow> 's \<times> bool" where
  "run_events collect [] s = (s, False)"
| "run_events collect (CtxDone # es) s = (s, True)"
| "run_events collect (Ticked # es) s = run_events collect es (snd (collect s))"

definition Run :: "('s \<Rightarrow> 'e option \<times> 's) \<Rightarrow> loop_event list \<Rightarrow> 's \<Rightarrow> 's \<times> bool" where
  "Run collect es s = run_events collect es (snd (collect s))"

lemma run_events_eq: "run_events collect es s =
    (((snd \<circ> collect) ^^ length (takeWhile (\<lambda>e. e = Ticked) es)) s, CtxDone \<in> set es)"
proof (induction es arbitrary: s)
  case (Cons e es)
  then show ?case
    by (cases e) (simp_all add: comp_def funpow_swap1 [where f = "\<lambda>a. snd (collect a)"])
qed simp

text \<open>The polling loop polls once at the start and once per tick up to the cancellation, no matter
  which polls fail, and returns exactly when the context is cancelled.\<close>

theorem run_polls:
  "Run collect es s =
    (((snd \<circ> collect) ^^ Suc (length (takeWhile (\<lambda>e. e = Ticked) es))) s, CtxDone \<in> set es)"
  by (simp add: Run_def run_events_eq comp_def funpow_swap1 [where f = "\<lambda>a. snd (collect a)"])

section \<open>Errors of an API\<close>

datatype api_error = RequestError | Retryable | ReadError | APIError int

definition IsRetryable :: "api_error \<Rightarrow> bool" where
  "IsRetryable e = (case e of Retryable \<Rightarrow> True | APIError c \<Rightarrow> c \<ge> 500 \<or> c = 429 | _ \<Rightarrow> False)"

end
