(* ===== verification/PveApi.thy ===== *)
theory PveApi
  imports GoJson Collector SmartParse
begin

text \<open>
  \<open>internal/collector/pve.go\<close>, the part that talks to a Proxmox VE instance: one request, and what is
  made of the answers (nodes, cluster, node status, guests, disks with their SMART data). The answers
  of one poll are a function \<open>ae_get\<close> of the request, with bodies already parsed as JSON (\<open>None\<close> when
  they are not JSON); \<open>ae_ok\<close> says for which URLs a request can be built. \<open>oor\<close>
  and \<open>fmtv\<close> are as in \<open>SmartParse\<close>.
\<close>

record get_request =
  gr_url :: string
  gr_auth :: string

datatype api_reply = NoAnswer | Broken | Answer int "json option"

record api_env =
  ae_ok :: "string \<Rightarrow> bool"
  ae_get :: "get_request \<Rightarrow> api_reply"
  ae_oor :: "f64 \<Rightarrow> int"
  ae_fmtv :: "any \<Rightarrow> string"

record pve_config =
  pc_name :: string
  pc_host :: string
  pc_tokenid :: string
  pc_secret :: string
  pc_iscluster :: bool
  pc_interval :: duration
  pc_diskinterval :: duration

record pve =
  pv_config :: pve_config
  pv_nodes :: "string list"
  pv_clusterid :: string
  pv_lastdisk :: gotime

definition NewPVECollector :: "pve_config \<Rightarrow> pve" where
  "NewPVECollector cfg = \<lparr>pv_config = cfg, pv_nodes = [], pv_clusterid = [], pv_lastdisk = zero_time\<rparr>"

definition pve_name :: "pve \<Rightarrow> string" where
  "pve_name p = ''pve:'' @ pc_name (pv_config p)"

datatype pve_error = Api api_error | BadEnvelope | BadData | NoCluster | NotSubmitted string

definition do_get :: "api_env \<Rightarrow> string \<Rightarrow> string \<Rightarrow> string \<Rightarrow> api_error + json option" where
  "do_get env host auth path =
     (let url = trim_right_byte (CHR ''/'') host @ path
      in if \<not> ae_ok env url then Inl RequestError
         else case ae_get env \<lparr>gr_url = url, gr_auth = auth\<rparr> of
                NoAnswer \<Rightarrow> Inl Retryable
              | Broken \<Rightarrow> Inl ReadError
              | Answer status body \<Rightarrow> if status \<noteq> 200 then Inl (APIError status) else Inr body)"

definition pve_get :: "api_env \<Rightarrow> pve \<Rightarrow> string \<Rightarrow> api_error + json option" where
  "pve_get env p path =
     do_get env (pc_host (pv_config p))
       (''PVEAPIToken='' @ pc_tokenid (pv_config p) @ ''='' @ pc_secret (pv_config p)) path"

text \<open>The envelope \<open>{"data": ...}\<close>, and a request whose data is decoded.\<close>

definition pve_data :: "json option \<Rightarrow> pve_error + json" where
  "pve_data body =
     (case body of
        Some (JObj kvs) \<Rightarrow> (case jfield ''data'' kvs of None \<Rightarrow> Inl BadData | Some d \<Rightarrow> Inr d)
      | Some JNull \<Rightarrow> Inl BadData
      | _ \<Rightarrow> Inl BadEnvelope)"

definition get_data :: "api_env \<Rightarrow> pve \<Rightarrow> string \<Rightarrow> (json option \<Rightarrow> 'a option) \<Rightarrow> pve_error + 'a" where
  "get_data env p path dec =
     (case pve_get env p path of
        Inl e \<Rightarrow> Inl (Api e)
      | Inr body \<Rightarrow>
          (case pve_data body of
             Inl e \<Rightarrow> Inl e
           | Inr d \<Rightarrow> (case dec (Some d) of None \<Rightarrow> Inl BadData | Some x \<Rightarrow> Inr x)))"

definition pveNormalizeSentinel :: "string \<Rightarrow> string" where
  "pveNormalizeSentinel s =
     (if trim_space s \<in> set [[], ''unknown'', ''none'', ''-''] then [] else s)"

section \<open>Nodes and cluster\<close>

definition dec_node_entry :: "json option \<Rightarrow> (string \<times> string) option" where
  "dec_node_entry = dec_struct (\<lambda>o1. do {
     nd \<leftarrow> dec_str (jfield ''node'' o1); st \<leftarrow> dec_str (jfield ''status'' o1); Some (nd, st) })"

definition discoverNodes :: "api_env \<Rightarrow> pve \<Rightarrow> pve_error + pve" where
  "discoverNodes env p =
     (case get_data env p ''/api2/json/nodes'' (dec_slice dec_node_entry) of
        Inl e \<Rightarrow> Inl e
      | Inr nodeList \<Rightarrow> Inr (p\<lparr>pv_nodes := map fst (filter (\<lambda>(nd, st). st = ''online'') nodeList)\<rparr>))"

definition dec_cluster_entry :: "json option \<Rightarrow> (string \<times> string) option" where
  "dec_cluster_entry = dec_struct (\<lambda>o1. do {
     ty \<leftarrow> dec_str (jfield ''type'' o1); nm \<leftarrow> dec_str (jfield ''name'' o1); Some (ty, nm) })"

definition detectCluster :: "api_env \<Rightarrow> pve \<Rightarrow> pve_error + pve" where
  "detectCluster env p =
     (case get_data env p ''/api2/json/cluster/status'' (dec_slice dec_cluster_entry) of
        Inl e \<Rightarrow> Inl e
      | Inr entries \<Rightarrow>
          (case find (\<lambda>(ty, nm). ty = ''cluster'') entries of
             None \<Rightarrow> Inl NoCluster
           | Some (ty, nm) \<Rightarrow> Inr (p\<lparr>pv_clusterid := nm\<rparr>)))"

definition parseLoadAvg :: "any \<Rightarrow> f64 \<times> f64 \<times> f64" where
  "parseLoadAvg v =
     (case v of
        AArr la \<Rightarrow>
          (let el = (\<lambda>i. if i < length la
                          then (case la ! i of AF64 x \<Rightarrow> x | AStr s \<Rightarrow> parsed_value (ParseFloat s) | _ \<Rightarrow> Fin 0) else Fin 0)
           in (el 0, el 1, el 2))
      | _ \<Rightarrow> (Fin 0, Fin 0, Fin 0))"

definition dec_usage :: "json option \<Rightarrow> usage option" where
  "dec_usage = dec_struct (\<lambda>o1. do {
     u \<leftarrow> dec_int (jfield ''used'' o1); t \<leftarrow> dec_int (jfield ''total'' o1); Some \<lparr>us_used = u, us_total = t\<rparr> })"

definition dec_cpuinfo :: "json option \<Rightarrow> cpu_info option" where
  "dec_cpuinfo = dec_struct (\<lambda>o1. do {
     m \<leftarrow> dec_str (jfield ''model'' o1); c \<leftarrow> dec_int (jfield ''cores'' o1);
     t \<leftarrow> dec_int (jfield ''cpus'' o1); s \<leftarrow> dec_int (jfield ''sockets'' o1);
     Some \<lparr>ci_model = m, ci_cores = c, ci_threads = t, ci_sockets = s\<rparr> })"

definition parseNodeStatus :: "string \<Rightarrow> string \<Rightarrow> json option \<Rightarrow> node option" where
  "parseNodeStatus inst nodeName = dec_struct (\<lambda>o1. do {
     cpu \<leftarrow> dec_f64 (jfield ''cpu'' o1);
     info \<leftarrow> dec_cpuinfo (jfield ''cpuinfo'' o1);
     mem \<leftarrow> dec_usage (jfield ''memory'' o1);
     swap \<leftarrow> dec_usage (jfield ''swap'' o1);
     root \<leftarrow> dec_usage (jfield ''rootfs'' o1);
     la \<leftarrow> dec_any (jfield ''loadavg'' o1);
     up \<leftarrow> dec_int (jfield ''uptime'' o1);
     wait \<leftarrow> dec_f64 (jfield ''wait'' o1);
     pveversion \<leftarrow> dec_str (jfield ''pveversion'' o1);
     kversion \<leftarrow> dec_str (jfield ''kversion'' o1);
     Some \<lparr>n_instance = inst, n_name = nodeName, n_status = ''online'', n_cpu = cpu, n_cpuinfo = info,
       n_memory = mem, n_swap = swap, n_rootfs = root, n_load = parseLoadAvg la, n_uptime = up,
       n_iowait = wait, n_pveversion = pveversion, n_kernel = kversion, n_temperature = None\<rparr> })"

definition collectNodeStatus :: "api_env \<Rightarrow> pve \<Rightarrow> string \<Rightarrow> pve_error + node" where
  "collectNodeStatus env p nodeName =
     get_data env p (''/api2/json/nodes/'' @ nodeName @ ''/status'')
       (parseNodeStatus (pc_name (pv_config p)) nodeName)"

section \<open>Guests\<close>

definition dec_guest :: "string \<Rightarrow> string \<Rightarrow> string \<Rightarrow> string \<Rightarrow> json option \<Rightarrow> guest option" where
  "dec_guest inst nd cl ty = dec_struct (\<lambda>o1. do {
     vmid \<leftarrow> dec_int (jfield ''vmid'' o1);
     nm \<leftarrow> dec_str (jfield ''name'' o1);
     st \<leftarrow> dec_str (jfield ''status'' o1);
     cpu \<leftarrow> dec_f64 (jfield ''cpu'' o1);
     cpus \<leftarrow> dec_int (jfield ''cpus'' o1);
     mem \<leftarrow> dec_int (jfield ''mem'' o1);
     maxmem \<leftarrow> dec_int (jfield ''maxmem'' o1);
     dsk \<leftarrow> dec_int (jfield ''disk'' o1);
     maxdisk \<leftarrow> dec_int (jfield ''maxdisk'' o1);
     netin \<leftarrow> dec_int (jfield ''netin'' o1);
     netout \<leftarrow> dec_int (jfield ''netout'' o1);
     up \<leftarrow> dec_int (jfield ''uptime'' o1);
     Some \<lparr>g_instance = inst, g_node = nd, g_cluster = cl, g_type = ty, g_vmid = vmid, g_name = nm,
       g_status = st, g_cpu = cpu, g_cpus = cpus, g_mem = mem, g_maxmem = maxmem, g_disk = dsk,
       g_maxdisk = maxdisk, g_netin = netin, g_netout = netout, g_uptime = up\<rparr> })"

definition collectGuestType :: "api_env \<Rightarrow> pve \<Rightarrow> string \<Rightarrow> string \<Rightarrow> pve_error + guest list" where
  "collectGuestType env p nodeName guestType =
     get_data env p (''/api2/json/nodes/'' @ nodeName @ ''/'' @ guestType)
       (dec_slice (dec_guest (pc_name (pv_config p)) nodeName (pv_clusterid p) guestType))"

definition collectGuests :: "api_env \<Rightarrow> pve \<Rightarrow> string \<Rightarrow> guest list" where
  "collectGuests env p nodeName =
     (case collectGuestType env p nodeName ''lxc'' of Inl e \<Rightarrow> [] | Inr gs \<Rightarrow> gs) @
     (case collectGuestType env p nodeName ''qemu'' of Inl e \<Rightarrow> [] | Inr gs \<Rightarrow> gs)"

section \<open>SMART data of a disk\<close>

definition QueryEscape :: "string \<Rightarrow> string" where
  "QueryEscape s = concat (map (\<lambda>c.
     if unreserved c then [c] else if c = CHR '' '' then ''+''
     else [CHR ''%'', hex_digit (byte_of c div 16), hex_digit (byte_of c mod 16)]) s)"

record smart_data =
  sm_health :: string
  sm_wearout :: any
  sm_attrs :: "(string, any) gomap list"
  sm_text :: string

definition dec_smart :: "json option \<Rightarrow> smart_data option" where
  "dec_smart = dec_struct (\<lambda>o1. do {
     h \<leftarrow> dec_str (jfield ''health'' o1);
     _ \<leftarrow> dec_str (jfield ''type'' o1);
     w \<leftarrow> dec_any (jfield ''wearout'' o1);
     as \<leftarrow> dec_slice dec_map (jfield ''attributes'' o1);
     t \<leftarrow> dec_str (jfield ''text'' o1);
     Some \<lparr>sm_health = h, sm_wearout = w, sm_attrs = as, sm_text = t\<rparr> })"

definition set_wearout :: "(f64 \<Rightarrow> int) \<Rightarrow> any \<Rightarrow> disk \<Rightarrow> disk" where
  "set_wearout oor v d =
     (case v of
        AF64 w \<Rightarrow> d\<lparr>d_wearout := Some (f64_to_i64 oor w)\<rparr>
      | AStr w \<Rightarrow> (case atoi w of Some wv \<Rightarrow> d\<lparr>d_wearout := Some wv\<rparr> | None \<Rightarrow> d)
      | _ \<Rightarrow> d)"

text \<open>The scalar metrics of the evaluated attributes, one after the other.\<close>

definition extract_metric :: "smart_attr \<Rightarrow> disk \<Rightarrow> disk" where
  "extract_metric a d =
     (if d_protocol d = ''nvme'' then
        (if a_id a = NVMeTemperature then d\<lparr>d_temperature := Some (safeInt (a_raw a))\<rparr>
         else if a_id a = NVMePowerOnHours then d\<lparr>d_poweron := Some (safeInt (a_raw a))\<rparr>
         else if a_id a = NVMePercentageUsed then
           (if d_wearout d = None then d\<lparr>d_wearout := Some (wrap64 (100 - safeInt (a_raw a)))\<rparr> else d)
         else d)
      else
        (if a_id a = 194 then d\<lparr>d_temperature := Some (safeInt (a_raw a))\<rparr>
         else if a_id a = 190 then
           (if d_temperature d = None then d\<lparr>d_temperature := Some (safeInt (a_raw a))\<rparr> else d)
         else if a_id a = 9 then d\<lparr>d_poweron := Some (safeInt (a_raw a))\<rparr>
         else if a_id a = SCSITemperature then d\<lparr>d_temperature := Some (safeInt (a_raw a))\<rparr>
         else if a_id a = SCSIPowerOnHours then d\<lparr>d_poweron := Some (safeInt (a_raw a))\<rparr>
         else d))"

definition finish_smart :: "smart_attr list \<Rightarrow> disk \<Rightarrow> disk" where
  "finish_smart attrs d =
     (let d = fst (EvaluateDisk (d\<lparr>d_attrs := attrs\<rparr>)) in fold extract_metric (d_attrs d) d)"

definition smart_path :: "string \<Rightarrow> disk \<Rightarrow> string \<Rightarrow> string" where
  "smart_path nodeName d smartType =
     ''/api2/json/nodes/'' @ nodeName @ ''/disks/smart?disk='' @ QueryEscape (d_devpath d) @
     (if smartType \<noteq> [] then ''&type='' @ QueryEscape smartType else [])"

text \<open>The fallback chain: PVE's own choice, then \<open>sat\<close>, then \<open>scsi\<close>. The result is the error, if any,
  the disk, and the paths that were requested.\<close>

function (sequential) collectSMARTWithType :: "api_env \<Rightarrow> pve \<Rightarrow> string \<Rightarrow> disk \<Rightarrow> string \<Rightarrow>
    pve_error option \<times> disk \<times> string list" where
  "collectSMARTWithType env p nodeName d smartType =
     (let path = smart_path nodeName d smartType;
          again = (\<lambda>(err, d', paths). (err, d', path # paths))
      in case pve_get env p path of
           Inl e \<Rightarrow>
             if e = APIError 400 \<and> smartType = ''sat''
             then again (collectSMARTWithType env p nodeName d ''scsi'')
             else if e = APIError 400 \<and> smartType = ''scsi'' then (None, d, [path])
             else (Some (Api e), d, [path])
         | Inr body \<Rightarrow>
             (case pve_data body of
                Inl e \<Rightarrow> (Some e, d, [path])
              | Inr j \<Rightarrow>
                  (case dec_smart (Some j) of
                     None \<Rightarrow> (Some BadData, d, [path])
                   | Some sm \<Rightarrow>
                       (let d' = set_wearout (ae_oor env) (sm_wearout sm) (d\<lparr>d_health := sm_health sm\<rparr>)
                        in if d_protocol d' = ''nvme'' \<and> sm_text sm \<noteq> [] then
                             (None, finish_smart (case ParseNVMeText (sm_text sm) of Inl _ \<Rightarrow> [] | Inr as \<Rightarrow> as) d', [path])
                           else if sm_attrs sm \<noteq> [] then
                             (None, finish_smart (case ParseATAAttributes (ae_oor env) (ae_fmtv env) (sm_attrs sm) of
                                Inl _ \<Rightarrow> [] | Inr as \<Rightarrow> as) d', [path])
                           else if smartType = ''scsi'' \<and> sm_text sm \<noteq> [] then
                             (None, finish_smart (ParseSCSIText (sm_text sm)) d', [path])
                           else if d_protocol d' = ''ata'' \<and> smartType = [] then
                             again (collectSMARTWithType env p nodeName d' ''sat'')
                           else if d_protocol d' = ''ata'' \<and> smartType = ''sat'' then
                             again (collectSMARTWithType env p nodeName d' ''scsi'')
                           else (None, finish_smart [] d', [path])))))"
  by pat_completeness auto
termination
  by (relation "measure (\<lambda>(env, p, nodeName, d, ty). if ty = [] then 2 else if ty = ''sat'' then 1 else 0)") auto

declare collectSMARTWithType.simps [simp del]

definition collectSMART :: "api_env \<Rightarrow> pve \<Rightarrow> string \<Rightarrow> disk \<Rightarrow> pve_error option \<times> disk \<times> string list" where
  "collectSMART env p nodeName d = collectSMARTWithType env p nodeName d []"

section \<open>Disks\<close>

record raw_disk =
  rd_devpath :: string
  rd_model :: string
  rd_serial :: string
  rd_wwn :: string
  rd_size :: int
  rd_type :: string
  rd_rpm :: int

definition dec_raw_disk :: "json option \<Rightarrow> raw_disk option" where
  "dec_raw_disk = dec_struct (\<lambda>o1. do {
     dv \<leftarrow> dec_str (jfield ''devpath'' o1);
     m \<leftarrow> dec_str (jfield ''model'' o1);
     s \<leftarrow> dec_str (jfield ''serial'' o1);
     w \<leftarrow> dec_str (jfield ''wwn'' o1);
     sz \<leftarrow> dec_int (jfield ''size'' o1);
     t \<leftarrow> dec_str (jfield ''type'' o1);
     r \<leftarrow> dec_int (jfield ''rpm'' o1);
     Some \<lparr>rd_devpath = dv, rd_model = m, rd_serial = s, rd_wwn = w, rd_size = sz, rd_type = t, rd_rpm = r\<rparr> })"

definition disk_identity :: "raw_disk \<Rightarrow> string" where
  "disk_identity rd =
     (let wwn = pveNormalizeSentinel (rd_wwn rd);
          wwn = (if wwn = [] then pveNormalizeSentinel (rd_serial rd) else wwn)
      in if wwn = [] then rd_devpath rd else wwn)"

definition disk_kind :: "raw_disk \<Rightarrow> string \<times> string" where
  "disk_kind rd =
     (let nvme = has_prefix (rd_devpath rd) ''/dev/nvme'';
          protocol = (if nvme then ''nvme'' else ''ata'');
          diskType = (if nvme then ''nvme'' else pveNormalizeSentinel (rd_type rd));
          diskType = (if diskType = [] then (if rd_rpm rd \<noteq> 0 then ''hdd'' else ''ssd'') else diskType)
      in (diskType, protocol))"

definition collect_disk :: "api_env \<Rightarrow> pve \<Rightarrow> string \<Rightarrow> gotime \<Rightarrow> raw_disk \<Rightarrow> disk option" where
  "collect_disk env p nodeName now rd =
     (let wwn = disk_identity rd; (diskType, protocol) = disk_kind rd
      in if wwn = [] then None
         else let d = zero_disk\<lparr>d_instance := pc_name (pv_config p), d_node := nodeName, d_wwn := wwn,
                    d_devpath := rd_devpath rd, d_model := rd_model rd, d_serial := rd_serial rd,
                    d_type := diskType, d_protocol := protocol, d_size := rd_size rd,
                    d_firstseen := now, d_lastseen := now\<rparr>
              in (case collectSMART env p nodeName d of
                    (None, d', _) \<Rightarrow> Some d'
                  | (Some e, d', _) \<Rightarrow> Some (d'\<lparr>d_status := StatusInternalError\<rparr>)))"

definition collectDisks :: "api_env \<Rightarrow> pve \<Rightarrow> string \<Rightarrow> gotime \<Rightarrow> pve_error + disk list" where
  "collectDisks env p nodeName now =
     (case get_data env p (''/api2/json/nodes/'' @ nodeName @ ''/disks/list?skipsmart=1'') (dec_slice dec_raw_disk) of
        Inl e \<Rightarrow> Inl e
      | Inr rawDisks \<Rightarrow> Inr (List.map_filter (collect_disk env p nodeName now) rawDisks))"

section \<open>What is known of a collected disk\<close>

text \<open>The identity of a disk: everything but its SMART data.\<close>

definition identity :: "disk \<Rightarrow> disk" where
  "identity d = d\<lparr>d_health := [], d_status := 0, d_temperature := None, d_poweron := None, d_wearout := None,
     d_attrs := []\<rparr>"

lemma identity_upd [simp]:
  "identity (d\<lparr>d_health := x1\<rparr>) = identity d" "identity (d\<lparr>d_status := x2\<rparr>) = identity d"
  "identity (d\<lparr>d_temperature := x3\<rparr>) = identity d" "identity (d\<lparr>d_poweron := x4\<rparr>) = identity d"
  "identity (d\<lparr>d_wearout := x5\<rparr>) = identity d" "identity (d\<lparr>d_attrs := x6\<rparr>) = identity d"
  by (simp_all add: identity_def)

lemma identity_fields:
  "identity d = identity d' \<Longrightarrow> d_wwn d = d_wwn d' \<and> d_devpath d = d_devpath d' \<and> d_protocol d = d_protocol d' \<and>
    d_type d = d_type d' \<and> d_node d = d_node d' \<and> d_instance d = d_instance d'"
  by (cases d; cases d') (simp add: identity_def)

lemma identity_wearout [simp]: "identity (set_wearout oor v d) = identity d"
  by (simp add: set_wearout_def split: any.split option.split)

lemma identity_metric [simp]: "identity (extract_metric a d) = identity d"
  by (simp only: extract_metric_def if_distrib [of identity] identity_upd if_cancel)

lemma status_upd:
  "d_status (d\<lparr>d_temperature := x3\<rparr>) = d_status d" "d_status (d\<lparr>d_poweron := x4\<rparr>) = d_status d"
  "d_status (d\<lparr>d_wearout := x5\<rparr>) = d_status d"
  by simp_all

lemma status_metric [simp]: "d_status (extract_metric a d) = d_status d"
  by (simp only: extract_metric_def if_distrib [of d_status] status_upd if_cancel)

lemma identity_evaluate: "identity (fst (EvaluateDisk d)) = identity d"
  by (simp add: EvaluateDisk_def case_prod_unfold Let_def)

lemma identity_finish [simp]: "identity (finish_smart as d) = identity d"
proof -
  have "identity (fold extract_metric as d) = identity d" for as and d :: disk
    by (rule fold_preserves) simp
  then show ?thesis by (simp add: finish_smart_def Let_def identity_evaluate)
qed

definition status_bits :: "int \<Rightarrow> bool" where
  "status_bits s \<longleftrightarrow> 0 \<le> s \<and> s < 8"

lemma status_finish [simp]: "status_bits (d_status (finish_smart as d))"
proof -
  have "d_status (fold extract_metric as d) = d_status d" for as and d :: disk
    by (rule fold_preserves) simp
  moreover have "take_bit 3 (fold (\<lambda>a s. s OR snd (EvaluateAttribute a pr)) as s) =
      fold (\<lambda>a s. s OR snd (EvaluateAttribute a pr)) as (take_bit 3 s)" for as pr s
  proof (induction as arbitrary: s)
    case (Cons a as)
    have "take_bit 3 (snd (EvaluateAttribute a pr)) = snd (EvaluateAttribute a pr)"
      using verdict_values [of a pr] by (auto simp: take_bit_eq_mod)
    with Cons show ?case by (simp add: take_bit_or)
  qed simp
  then have "take_bit 3 (snd (EvaluateDisk d')) = snd (EvaluateDisk d')" for d'
    by (simp add: EvaluateDisk_def evaluate_attrs_eq Let_def StatusPassed_def)
  then have "0 \<le> snd (EvaluateDisk d') \<and> snd (EvaluateDisk d') < 8" for d'
    by (metis take_bit_nonnegative take_bit_int_less_exp [of 3, simplified])
  moreover have "d_status (fst (EvaluateDisk d')) = snd (EvaluateDisk d')" for d'
    by (simp add: EvaluateDisk_def case_prod_unfold Let_def)
  ultimately show ?thesis by (simp add: finish_smart_def Let_def status_bits_def)
qed

text \<open>The rest of the chain from a type on.\<close>

definition chain_from :: "string \<Rightarrow> string list" where
  "chain_from ty = (if ty = [] then [[], ''sat'', ''scsi''] else if ty = ''sat'' then [''sat'', ''scsi''] else [ty])"

definition chain_ok :: "string \<Rightarrow> disk \<Rightarrow> string \<Rightarrow> pve_error option \<times> disk \<times> string list \<Rightarrow> bool" where
  "chain_ok nd d ty = (\<lambda>(err, d', paths). identity d' = identity d \<and>
     (\<exists>n \<le> length (chain_from ty). 0 < n \<and> paths = map (smart_path nd d) (take n (chain_from ty)) \<and>
       (d_protocol d \<noteq> ''ata'' \<longrightarrow> ty = [] \<longrightarrow> n = 1)) \<and>
     (err = None \<longrightarrow> status_bits (d_status d) \<longrightarrow> status_bits (d_status d')))"

lemma smart_path_identity: "identity d = identity d' \<Longrightarrow> smart_path nd d = smart_path nd d'"
  using identity_fields [of d d'] by (simp only: smart_path_def fun_eq_iff simp_thms)

lemma chain_ok_once: "identity d' = identity d \<Longrightarrow> (err = None \<longrightarrow> status_bits (d_status d) \<longrightarrow> status_bits (d_status d')) \<Longrightarrow>
    chain_ok nd d ty (err, d', [smart_path nd d ty])"
  unfolding chain_ok_def by (auto simp: chain_from_def intro!: exI [of _ "Suc 0"])

lemma chain_ok_again:
  assumes "chain_ok nd d1 ty' (err, d', paths)" and "identity d1 = identity d" and "d_status d1 = d_status d"
    and "ty = [] \<and> ty' = ''sat'' \<and> d_protocol d = ''ata'' \<or> ty = ''sat'' \<and> ty' = ''scsi''"
  shows "chain_ok nd d ty (err, d', smart_path nd d ty # paths)"
proof -
  from assms(1) obtain n where n: "n \<le> length (chain_from ty')" "paths = map (smart_path nd d1) (take n (chain_from ty'))"
    unfolding chain_ok_def by blast
  have "chain_from ty = ty # chain_from ty'" using assms(4) by (auto simp: chain_from_def)
  with n have "smart_path nd d ty # paths = map (smart_path nd d) (take (Suc n) (chain_from ty))"
    "Suc n \<le> length (chain_from ty)"
    using smart_path_identity [OF assms(2)] by simp_all
  moreover have "ty \<noteq> [] \<or> d_protocol d = ''ata''" using assms(4) by auto
  ultimately show ?thesis using assms unfolding chain_ok_def
    by (auto intro!: exI [of _ "Suc n"])
qed

lemma status_wearout [simp]: "d_status (set_wearout oor v d) = d_status d"
  by (simp add: set_wearout_def split: any.split option.split)

lemma chain_ok_err: "chain_ok nd d ty (Some e, d, [smart_path nd d ty])"
  by (rule chain_ok_once) simp_all

lemma chain_ok_done: "identity d' = identity d \<Longrightarrow> chain_ok nd d ty (None, finish_smart as d', [smart_path nd d ty])"
  by (rule chain_ok_once) simp_all

lemma chain_all: "chain_ok nodeName d ty (collectSMARTWithType env p nodeName d ty)"
proof (induction env p nodeName d ty rule: collectSMARTWithType.induct)
  case (1 env p nd d ty)
  let ?path = "smart_path nd d ty"
  show ?case
  proof (cases "pve_get env p ?path")
    case (Inl e)
    have "chain_ok nd d ty (case collectSMARTWithType env p nd d ''scsi'' of
        (err, d', paths) \<Rightarrow> (err, d', ?path # paths))" if "e = APIError 400 \<and> ty = ''sat''"
      using "1.IH"(1) [OF refl refl Inl that] that
      by (cases "collectSMARTWithType env p nd d ''scsi''") (auto intro: chain_ok_again)
    then show ?thesis
      by (subst collectSMARTWithType.simps) (simp add: Inl Let_def chain_ok_err chain_ok_once)
  next
    case body: (Inr body)
    show ?thesis
    proof (cases "pve_data body")
      case (Inl e)
      then show ?thesis by (subst collectSMARTWithType.simps) (simp add: body Let_def chain_ok_err)
    next
      case j: (Inr j)
      show ?thesis
      proof (cases "dec_smart (Some j)")
        case None
        with j show ?thesis by (subst collectSMARTWithType.simps) (simp add: body Let_def chain_ok_err)
      next
        case sm: (Some sm)
        define d1 where "d1 = set_wearout (ae_oor env) (sm_wearout sm) (d\<lparr>d_health := sm_health sm\<rparr>)"
        have id1: "identity d1 = identity d" "d_status d1 = d_status d" by (simp_all add: d1_def)
        have pr: "d_protocol d1 = d_protocol d" using identity_fields [OF id1(1)] by blast
        note ih = "1.IH"(2,3) [OF refl refl body j sm d1_def]
        have again: "chain_ok nd d ty (case collectSMARTWithType env p nd d1 ty' of
            (err, d', paths) \<Rightarrow> (err, d', ?path # paths))"
          if "chain_ok nd d1 ty' (collectSMARTWithType env p nd d1 ty')"
            and "ty = [] \<and> ty' = ''sat'' \<and> d_protocol d = ''ata'' \<or> ty = ''sat'' \<and> ty' = ''scsi''" for ty'
          using that id1 by (cases "collectSMARTWithType env p nd d1 ty'") (auto intro: chain_ok_again)
        have more: "chain_ok nd d ty (case collectSMARTWithType env p nd d1 ty' of
            (err, d', paths) \<Rightarrow> (err, d', ?path # paths))"
          if "ty = [] \<and> ty' = ''sat'' \<or> ty = ''sat'' \<and> ty' = ''scsi''" "d_protocol d = ''ata''" "sm_attrs sm = []" for ty'
          using that by (intro again) (auto intro!: ih simp: pr)
        show ?thesis using more [of "''sat''"] more [of "''scsi''"]
          by (subst collectSMARTWithType.simps)
            (auto simp: body j sm Let_def d1_def [symmetric] pr intro!: chain_ok_done id1)
      qed
    qed
  qed
qed

text \<open>C30: fetching the SMART data of a disk asks PVE for the paths of a prefix of the chain default,
  \<open>sat\<close>, \<open>scsi\<close>, once each and only the default one when the disk is not ATA (so the recursion ends after
  at most three requests); it never changes what identifies the disk, and without an error it keeps a
  status made of the three evaluation bits one.\<close>

theorem smart_chain:
  "case collectSMART env p nodeName d of (err, d', paths) \<Rightarrow>
     identity d' = identity d \<and>
     (\<exists>n. 0 < n \<and> n \<le> 3 \<and> paths = map (smart_path nodeName d) (take n [[], ''sat'', ''scsi'']) \<and>
       (n = 1 \<or> d_protocol d = ''ata'')) \<and>
     (if err = None \<and> 0 \<le> d_status d \<and> d_status d < 8 then 0 \<le> d_status d' \<and> d_status d' < 8 else True)"
  using chain_all [of nodeName d "[]" env p]
  unfolding collectSMART_def chain_ok_def chain_from_def status_bits_def
  by (auto simp: case_prod_unfold)

lemma smart_keeps_identity:
  "collectSMART env p nodeName d = (err, d', paths) \<Longrightarrow> identity d' = identity d"
  using chain_all [of nodeName d "[]" env p] by (simp add: collectSMART_def chain_ok_def)

lemma smart_keeps_status:
  "collectSMART env p nodeName d = (None, d', paths) \<Longrightarrow> status_bits (d_status d) \<Longrightarrow> status_bits (d_status d')"
  using chain_all [of nodeName d "[]" env p] by (simp add: collectSMART_def chain_ok_def)

lemma trim_space_empty: "trim_space [] = []"
  by code_simp

lemma normalize_empty:
  "pveNormalizeSentinel s = [] \<longleftrightarrow> trim_space s \<in> {[], ''unknown'', ''none'', ''-''}"
  using trim_space_empty by (auto simp: pveNormalizeSentinel_def)

lemma disk_identity_empty:
  "disk_identity rd = [] \<longleftrightarrow> rd_devpath rd = [] \<and> pveNormalizeSentinel (rd_wwn rd) = [] \<and>
     pveNormalizeSentinel (rd_serial rd) = []"
  by (simp add: disk_identity_def Let_def)

lemma disk_kind_known:
  "disk_kind rd = (ty, pr) \<Longrightarrow> ty \<noteq> [] \<and> pr = (if has_prefix (rd_devpath rd) ''/dev/nvme'' then ''nvme'' else ''ata'')"
  by (auto simp: disk_kind_def Let_def split: if_splits)

lemma collect_disk_some:
  assumes "collect_disk env p nodeName now rd = Some d" and "disk_kind rd = (ty, pr)"
  shows "disk_identity rd \<noteq> [] \<and> identity d = identity (zero_disk\<lparr>d_instance := pc_name (pv_config p), d_node := nodeName,
      d_wwn := disk_identity rd, d_devpath := rd_devpath rd, d_model := rd_model rd, d_serial := rd_serial rd,
      d_type := ty, d_protocol := pr, d_size := rd_size rd, d_firstseen := now, d_lastseen := now\<rparr>) \<and>
    (status_bits (d_status d) \<or> d_status d = StatusInternalError)"
proof -
  define d0 where "d0 = zero_disk\<lparr>d_instance := pc_name (pv_config p), d_node := nodeName,
      d_wwn := disk_identity rd, d_devpath := rd_devpath rd, d_model := rd_model rd, d_serial := rd_serial rd,
      d_type := ty, d_protocol := pr, d_size := rd_size rd, d_firstseen := now, d_lastseen := now\<rparr>"
  obtain err d' paths where c: "collectSMART env p nodeName d0 = (err, d', paths)"
    by (cases "collectSMART env p nodeName d0") auto
  have n: "disk_identity rd \<noteq> []" using assms(1) by (auto simp: collect_disk_def Let_def assms(2))
  then have "d = (case err of None \<Rightarrow> d' | Some e \<Rightarrow> d'\<lparr>d_status := StatusInternalError\<rparr>)"
    using assms(1) c [unfolded d0_def] by (simp add: collect_disk_def assms(2) Let_def split: option.splits)
  moreover have "status_bits (d_status d0)" by (simp add: d0_def zero_disk_def status_bits_def)
  ultimately show ?thesis
    using n smart_keeps_identity [OF c] smart_keeps_status [of env p nodeName d0 d' paths] c
    by (auto simp: d0_def [symmetric] split: option.splits)
qed

text \<open>A disk PVE lists is collected exactly when it has an identity (a WWN, serial number or device
  path that is not a sentinel); the collected disk then carries that identity, its instance and node, a
  type and one of the two protocols, its SMART data changes none of these, and its status is either a
  combination of the three evaluation bits or the internal-error status.\<close>

theorem disk_collected:
  "case collect_disk env p nodeName now rd of
     None \<Rightarrow> rd_devpath rd = [] \<and> trim_space (rd_wwn rd) \<in> {[], ''unknown'', ''none'', ''-''} \<and>
       trim_space (rd_serial rd) \<in> {[], ''unknown'', ''none'', ''-''}
   | Some d \<Rightarrow> d_wwn d = disk_identity rd \<and> d_wwn d \<noteq> [] \<and> d_instance d = pc_name (pv_config p) \<and>
       d_node d = nodeName \<and> d_devpath d = rd_devpath rd \<and> d_type d \<noteq> [] \<and>
       d_protocol d = (if has_prefix (rd_devpath rd) ''/dev/nvme'' then ''nvme'' else ''ata'') \<and>
       (d_status d \<in> {0..<8} \<or> d_status d = StatusInternalError)"
proof (cases "collect_disk env p nodeName now rd")
  case None
  then have "disk_identity rd = []"
    by (auto simp: collect_disk_def Let_def split: if_splits option.splits prod.splits)
  with None show ?thesis by (simp add: disk_identity_empty normalize_empty)
next
  case (Some d)
  obtain ty pr where k: "disk_kind rd = (ty, pr)" by (cases "disk_kind rd")
  show ?thesis
    using collect_disk_some [OF Some k] disk_kind_known [OF k] identity_fields [of d]
    by (auto simp: Some status_bits_def)
qed

end
