(* ===== verification/Store.thy ===== *)
theory Store
  imports Domain
begin

text \<open>
  The SQLite store: \<open>internal/store/store.go\<close> and the schema of \<open>migrations.go\<close>. A table with a
  primary key is a map from keys to rows (\<open>INSERT OR REPLACE\<close> puts, \<open>ON CONFLICT DO UPDATE\<close> updates the
  named columns), the alert log a list with its counter. SQLite stores a NaN as NULL, which a NOT
  NULL column refuses. Parameters: \<open>dberr\<close>, whether the database fails the statement (disk full, lock,
  closed handle), and the clock. The JSON text of the SMART attributes is represented by the list
  it encodes; it is never read back.
\<close>

datatype store_error = DbError | NotNull | MarshalError | UnknownMetric string | ScanError

record pve_row =
  pr_host :: string
  pr_iscluster :: int
  pr_clusterid :: string

record disk_row =
  dr_instance :: string
  dr_node :: string
  dr_devpath :: string
  dr_model :: string
  dr_serial :: string
  dr_type :: string
  dr_protocol :: string
  dr_size :: int
  dr_first :: int
  dr_last :: int

record smart_row =
  sr_ts :: int
  sr_wwn :: string
  sr_health :: string
  sr_status :: int
  sr_temperature :: "int option"
  sr_poweron :: "int option"
  sr_wearout :: "int option"
  sr_attrs :: "smart_attr list"

record backup_row =
  br_ts :: int
  br_instance :: string
  br_datastore :: string
  br_type :: string
  br_id :: string
  br_time :: int
  br_size :: "int option"
  br_verified :: "int option"

record ds_row =
  wr_ts :: int
  wr_instance :: string
  wr_name :: string
  wr_total :: "int option"
  wr_used :: "int option"
  wr_avail :: "int option"
  wr_dedup :: "f64 option"
  wr_estfull :: "int option"

record alert_row =
  ar_id :: int
  ar_ts :: int
  ar_type :: string
  ar_instance :: string
  ar_subject :: string
  ar_message :: string
  ar_severity :: string

record store =
  st_pve :: "(string, pve_row) gomap"
  st_pbs :: "(string, string) gomap"
  st_disks :: "(string, disk_row) gomap"
  st_nodes :: "(int \<times> string \<times> string, node_snapshot) gomap"
  st_guests :: "(int \<times> string \<times> int, guest_snapshot) gomap"
  st_smart :: "(int \<times> string, smart_row) gomap"
  st_backups :: "(int \<times> string \<times> string \<times> int, backup_row) gomap"
  st_datastores :: "(int \<times> string \<times> string, ds_row) gomap"
  st_alerts :: "alert_row list"
  st_nextid :: int

definition empty_store :: store where
  "empty_store = \<lparr>st_pve = [], st_pbs = [], st_disks = [], st_nodes = [], st_guests = [], st_smart = [],
     st_backups = [], st_datastores = [], st_alerts = [], st_nextid = 1\<rparr>"

text \<open>The primary keys of the schema.\<close>

definition node_key :: "node_snapshot \<Rightarrow> int \<times> string \<times> string" where
  "node_key r = (ns_ts r, ns_instance r, ns_node r)"

definition guest_key :: "guest_snapshot \<Rightarrow> int \<times> string \<times> int" where
  "guest_key r = (gs_ts r, gs_instance r, gs_vmid r)"

definition smart_key :: "smart_row \<Rightarrow> int \<times> string" where
  "smart_key r = (sr_ts r, sr_wwn r)"

definition backup_key :: "backup_row \<Rightarrow> int \<times> string \<times> string \<times> int" where
  "backup_key r = (br_ts r, br_instance r, br_id r, br_time r)"

definition ds_key :: "ds_row \<Rightarrow> int \<times> string \<times> string" where
  "ds_key r = (wr_ts r, wr_instance r, wr_name r)"

definition put_row :: "('r \<Rightarrow> 'k) \<Rightarrow> 'r \<Rightarrow> ('k, 'r) gomap \<Rightarrow> ('k, 'r) gomap" where
  "put_row key r t = gm_put (key r) r t"

type_synonym outcome = "store_error option \<times> store"

definition real_null :: "f64 option \<Rightarrow> f64 option" where
  "real_null x = (if x = Some NaN then None else x)"

section \<open>Insertions\<close>

definition node_valid :: "node_snapshot \<Rightarrow> bool" where
  "node_valid r \<longleftrightarrow> NaN \<notin> set [ns_cpu r, ns_load1 r, ns_load5 r, ns_load15 r, ns_iowait r]"

definition InsertNodeSnapshot :: "bool \<Rightarrow> node_snapshot \<Rightarrow> store \<Rightarrow> outcome" where
  "InsertNodeSnapshot dberr r s =
     (if dberr then (Some DbError, s)
      else if \<not> node_valid r then (Some NotNull, s)
      else (None, s\<lparr>st_nodes := put_row node_key (r\<lparr>ns_cputemp := real_null (ns_cputemp r)\<rparr>) (st_nodes s)\<rparr>))"

definition InsertGuestSnapshot :: "bool \<Rightarrow> guest_snapshot \<Rightarrow> store \<Rightarrow> outcome" where
  "InsertGuestSnapshot dberr r s =
     (if dberr then (Some DbError, s)
      else if gs_cpu r = NaN then (Some NotNull, s)
      else (None, s\<lparr>st_guests := put_row guest_key r (st_guests s)\<rparr>))"

text \<open>\<open>encoding/json\<close> refuses a number that is not finite.\<close>

definition marshals :: "smart_attr list \<Rightarrow> bool" where
  "marshals as = list_all (\<lambda>a. case a_rate a of Some (Fin q) \<Rightarrow> True | None \<Rightarrow> True | _ \<Rightarrow> False) as"

definition InsertSMARTSnapshot :: "bool \<Rightarrow> int \<Rightarrow> disk \<Rightarrow> store \<Rightarrow> outcome" where
  "InsertSMARTSnapshot dberr ts d s =
     (if \<not> marshals (d_attrs d) then (Some MarshalError, s)
      else if dberr then (Some DbError, s)
      else (None, s\<lparr>st_smart := put_row smart_key
        \<lparr>sr_ts = ts, sr_wwn = d_wwn d, sr_health = d_health d, sr_status = d_status d,
         sr_temperature = d_temperature d, sr_poweron = d_poweron d, sr_wearout = d_wearout d,
         sr_attrs = d_attrs d\<rparr> (st_smart s)\<rparr>))"

definition InsertBackupSnapshot :: "bool \<Rightarrow> int \<Rightarrow> backup \<Rightarrow> store \<Rightarrow> outcome" where
  "InsertBackupSnapshot dberr ts b s =
     (let verified = (case b_verified b of None \<Rightarrow> None | Some v \<Rightarrow> Some (if v then 1 else 0))
      in if dberr then (Some DbError, s)
         else (None, s\<lparr>st_backups := put_row backup_key
           \<lparr>br_ts = ts, br_instance = b_instance b, br_datastore = b_datastore b, br_type = b_type b,
            br_id = b_id b, br_time = b_time b, br_size = b_size b, br_verified = verified\<rparr> (st_backups s)\<rparr>))"

definition InsertDatastoreSnapshot :: "bool \<Rightarrow> int \<Rightarrow> datastore_status \<Rightarrow> store \<Rightarrow> outcome" where
  "InsertDatastoreSnapshot dberr ts d s =
     (if dberr then (Some DbError, s)
      else (None, s\<lparr>st_datastores := put_row ds_key
        \<lparr>wr_ts = ts, wr_instance = ds_instance d, wr_name = ds_name d, wr_total = ds_total d,
         wr_used = ds_used d, wr_avail = ds_avail d, wr_dedup = real_null (ds_dedup d),
         wr_estfull = ds_estfull d\<rparr> (st_datastores s)\<rparr>))"

definition store_InsertAlert :: "bool \<Rightarrow> int \<Rightarrow> string \<Rightarrow> string \<Rightarrow> string \<Rightarrow> string \<Rightarrow> string \<Rightarrow> store \<Rightarrow> outcome" where
  "store_InsertAlert dberr ts alertType inst subject message severity s =
     (if dberr then (Some DbError, s)
      else (None, s\<lparr>st_alerts := st_alerts s @
          [\<lparr>ar_id = st_nextid s, ar_ts = ts, ar_type = alertType, ar_instance = inst, ar_subject = subject,
            ar_message = message, ar_severity = severity\<rparr>],
        st_nextid := st_nextid s + 1\<rparr>))"

definition UpsertDisk :: "bool \<Rightarrow> gotime \<Rightarrow> disk \<Rightarrow> store \<Rightarrow> outcome" where
  "UpsertDisk dberr clk d s =
     (let now = unix_of_time clk
      in if dberr then (Some DbError, s)
         else (None, s\<lparr>st_disks := gm_put (d_wwn d)
           (case gm_get (st_disks s) (d_wwn d) of
              None \<Rightarrow> \<lparr>dr_instance = d_instance d, dr_node = d_node d, dr_devpath = d_devpath d,
                 dr_model = d_model d, dr_serial = d_serial d, dr_type = d_type d,
                 dr_protocol = d_protocol d, dr_size = d_size d, dr_first = now, dr_last = now\<rparr>
            | Some old \<Rightarrow> old\<lparr>dr_instance := d_instance d, dr_node := d_node d, dr_devpath := d_devpath d,
                 dr_model := d_model d, dr_serial := d_serial d, dr_last := now\<rparr>) (st_disks s)\<rparr>))"

definition UpsertPVEInstance :: "bool \<Rightarrow> string \<Rightarrow> string \<Rightarrow> bool \<Rightarrow> string \<Rightarrow> store \<Rightarrow> outcome" where
  "UpsertPVEInstance dberr name host isCluster clusterID s =
     (let ic = (if isCluster then 1 else 0)
      in if dberr then (Some DbError, s)
         else (None, s\<lparr>st_pve := gm_put name \<lparr>pr_host = host, pr_iscluster = ic, pr_clusterid = clusterID\<rparr> (st_pve s)\<rparr>))"

definition UpsertPBSInstance :: "bool \<Rightarrow> string \<Rightarrow> string \<Rightarrow> store \<Rightarrow> outcome" where
  "UpsertPBSInstance dberr name host s =
     (if dberr then (Some DbError, s) else (None, s\<lparr>st_pbs := gm_put name host (st_pbs s)\<rparr>))"

section \<open>Sparklines\<close>

text \<open>A row of a result: a timestamp and a number, or NULL, which \<open>Scan\<close> cannot store.\<close>

fun scan_points :: "(int \<times> f64 option) list \<Rightarrow> store_error + sparkline_point list" where
  "scan_points [] = Inr []"
| "scan_points ((t, v) # rows) =
     (case v of None \<Rightarrow> Inl ScanError
      | Some x \<Rightarrow> (case scan_points rows of Inl e \<Rightarrow> Inl e | Inr ps \<Rightarrow> Inr (\<lparr>sp_ts = t, sp_value = x\<rparr> # ps)))"

definition mem_pct_sql :: "node_snapshot \<Rightarrow> f64 option" where
  "mem_pct_sql r = (if ns_memtotal r = 0 then None else Some (pct_of (ns_memused r) (ns_memtotal r)))"

definition QueryNodeSparkline :: "bool \<Rightarrow> string \<Rightarrow> string \<Rightarrow> string \<Rightarrow> int \<Rightarrow> store \<Rightarrow>
    store_error + sparkline_point list" where
  "QueryNodeSparkline dberr inst nd metric since s =
     (let rows = (\<lambda>col. map (\<lambda>r. (ns_ts r, col r)) (sort_key ns_ts
            (filter (\<lambda>r. ns_instance r = inst \<and> ns_node r = nd \<and> ns_ts r \<ge> since) (map snd (st_nodes s)))));
          query = (\<lambda>col. if dberr then Inl DbError else scan_points (rows col))
      in if metric = ''cpu'' then query (\<lambda>r. Some (ns_cpu r))
         else if metric = ''memory'' then query mem_pct_sql
         else Inl (UnknownMetric metric))"

definition QueryGuestSparkline :: "bool \<Rightarrow> string \<Rightarrow> int \<Rightarrow> int \<Rightarrow> store \<Rightarrow> store_error + sparkline_point list" where
  "QueryGuestSparkline dberr inst vmid since s =
     (if dberr then Inl DbError
      else scan_points (map (\<lambda>r. (gs_ts r, Some (gs_cpu r))) (sort_key gs_ts
        (filter (\<lambda>r. gs_instance r = inst \<and> gs_vmid r = vmid \<and> gs_ts r \<ge> since) (map snd (st_guests s))))))"

section \<open>Opening\<close>

datatype open_error = Mkdir | Open | Chmod | Ping | Migrate

text \<open>What each step of opening the database gives: \<open>True\<close> for an error. \<open>op_chmod\<close> is an error other
  than that the file does not exist.\<close>

record open_faults =
  op_indir :: bool
  op_mkdir :: bool
  op_open :: bool
  op_chmod :: bool
  op_ping :: bool
  op_exec :: bool

definition store_New :: "open_faults \<Rightarrow> store \<Rightarrow> open_error + store" where
  "store_New f existing =
     (if op_indir f \<and> op_mkdir f then Inl Mkdir
      else if op_open f then Inl Open
      else if op_chmod f then Inl Chmod
      else if op_ping f then Inl Ping
      else if op_exec f then Inl Migrate
      else Inr existing)"

section \<open>Tables with a primary key\<close>

text \<open>\<open>DELETE FROM t WHERE ts < c\<close>.\<close>

definition delete_before :: "('r \<Rightarrow> int) \<Rightarrow> int \<Rightarrow> ('k, 'r) gomap \<Rightarrow> ('k, 'r) gomap" where
  "delete_before ts c t = filter (\<lambda>(k, r). \<not> ts r < c) t"

text \<open>The contract of the snapshot tables, whose primary key includes the timestamp: replaying
  insertions leaves the last row of each key, and deleting old rows loses nothing else.\<close>

locale snapshot_table =
  fixes key :: "'r \<Rightarrow> 'k" and ts :: "'r \<Rightarrow> int"
  assumes key_ts: "key r = key r' \<Longrightarrow> ts r = ts r'"
begin

definition keyed :: "('k, 'r) gomap \<Rightarrow> bool" where
  "keyed t \<longleftrightarrow> wf_gomap t \<and> (\<forall>(k, r) \<in> set t. k = key r)"

lemma keyed_Nil [simp]: "keyed []"
  by (simp add: keyed_def)

lemma keyed_get: "keyed t \<Longrightarrow> gm_get t k = Some r \<Longrightarrow> k = key r"
  by (auto simp: keyed_def dest: map_of_SomeD)

lemma keyed_put: "keyed t \<Longrightarrow> keyed (put_row key r t)"
proof -
  assume t: "keyed t"
  have "\<forall>p \<in> set (gm_put (key r) r t). fst p = key (snd p)"
  proof
    fix p assume "p \<in> set (gm_put (key r) r t)"
    then have "p = (key r, r) \<or> p \<in> set t"
      by (induction t) (auto simp: gm_put_def split: if_splits)
    with t show "fst p = key (snd p)" by (auto simp: keyed_def)
  qed
  with t show ?thesis by (auto simp: keyed_def put_row_def wf_gm_put)
qed

lemma keyed_delete: "keyed t \<Longrightarrow> keyed (delete_before ts c t)"
  by (auto simp: keyed_def delete_before_def wf_gomap_def distinct_map_filter)

lemma get_delete: "keyed t \<Longrightarrow> gm_get (delete_before ts c t) k =
    (case gm_get t k of None \<Rightarrow> None | Some r \<Rightarrow> if ts r < c then None else Some r)"
proof -
  assume t: "keyed t"
  then have iff: "gm_get (delete_before ts c t) k = Some r \<longleftrightarrow> gm_get t k = Some r \<and> \<not> ts r < c" for r
    using keyed_delete [OF t, of c] gm_get_in [of "delete_before ts c t" k r] gm_get_in [of t k r]
    by (auto simp: keyed_def delete_before_def)
  show ?thesis
  proof (cases "gm_get (delete_before ts c t) k")
    case None
    with iff show ?thesis by (auto split: option.split)
  next
    case (Some r)
    with iff [of r] show ?thesis by simp
  qed
qed

lemma replay: "keyed t \<Longrightarrow> keyed (fold (put_row key) rs t) \<and>
    gm_get (fold (put_row key) rs t) = gm_get t ++ map_of (rev (map (\<lambda>r. (key r, r)) rs))"
proof (induction rs arbitrary: t)
  case (Cons r rs)
  from Cons.IH [OF keyed_put [OF Cons.prems, of r]] show ?case
    by (simp add: put_row_def fun_eq_iff map_add_def split: option.split)
qed simp

lemma put_delete: "keyed t \<Longrightarrow> c \<le> ts r \<Longrightarrow>
    gm_get (delete_before ts c (put_row key r t)) = gm_get (put_row key r (delete_before ts c t))"
  by (rule ext, simp only: get_delete keyed_put)
    (auto simp: put_row_def get_delete split: option.split)

text \<open>The rows of a keyed table whose keys differ only in the timestamp have distinct timestamps.\<close>

lemma rows_distinct:
  assumes "keyed t" and "\<And>r r'. P r \<Longrightarrow> P r' \<Longrightarrow> ts r = ts r' \<Longrightarrow> key r = key r'"
  shows "distinct (map ts (filter P (map snd t)))"
  using assms(1)
proof (induction t)
  case (Cons p t)
  obtain k r where p: "p = (k, r)" by (cases p)
  with Cons.prems have t: "keyed t" and k: "k = key r" "k \<notin> fst ` set t"
    by (auto simp: keyed_def)
  have "ts r \<notin> ts ` {x \<in> snd ` set t. P x}" if "P r"
  proof
    assume "ts r \<in> ts ` {x \<in> snd ` set t. P x}"
    then obtain k' r' where r': "(k', r') \<in> set t" "P r'" "ts r = ts r'" by auto
    with t have "k' = key r'" by (auto simp: keyed_def)
    with assms(2) [OF that r'(2,3)] k r'(1) show False by force
  qed
  with Cons.IH [OF t] p show ?case by simp
qed simp

end

interpretation nodes: snapshot_table node_key ns_ts
  by unfold_locales (simp add: node_key_def)

interpretation guests: snapshot_table guest_key gs_ts
  by unfold_locales (simp add: guest_key_def)

interpretation smart: snapshot_table smart_key sr_ts
  by unfold_locales (simp add: smart_key_def)

interpretation backups: snapshot_table backup_key br_ts
  by unfold_locales (simp add: backup_key_def)

interpretation datastores: snapshot_table ds_key wr_ts
  by unfold_locales (simp add: ds_key_def)

section \<open>Node sparklines\<close>

text \<open>The insertions of a run, each with whether the database failed it, and the rows it accepted.\<close>

definition node_run :: "(bool \<times> node_snapshot) list \<Rightarrow> store \<Rightarrow> store" where
  "node_run ops s = fold (\<lambda>(e, r) s. snd (InsertNodeSnapshot e r s)) ops s"

definition accepted_rows :: "(bool \<times> node_snapshot) list \<Rightarrow> node_snapshot list" where
  "accepted_rows ops = map (\<lambda>(e, r). r\<lparr>ns_cputemp := real_null (ns_cputemp r)\<rparr>)
     (filter (\<lambda>(e, r). \<not> e \<and> node_valid r) ops)"

lemma insert_node_nodes: "st_nodes (snd (InsertNodeSnapshot e r s)) =
    (if \<not> e \<and> node_valid r then put_row node_key (r\<lparr>ns_cputemp := real_null (ns_cputemp r)\<rparr>) (st_nodes s)
     else st_nodes s)"
  by (simp add: InsertNodeSnapshot_def)

lemma node_run_nodes: "st_nodes (node_run ops s) = fold (put_row node_key) (accepted_rows ops) (st_nodes s)"
proof (induction ops arbitrary: s)
  case (Cons op ops)
  obtain e r where op: "op = (e, r)" by (cases op)
  from Cons.IH [of "snd (InsertNodeSnapshot e r s)"] show ?case
    by (cases "\<not> e \<and> node_valid r") (auto simp: op node_run_def accepted_rows_def insert_node_nodes)
qed (simp add: node_run_def accepted_rows_def)

definition latest_row :: "(bool \<times> node_snapshot) list \<Rightarrow> int \<times> string \<times> string \<Rightarrow> node_snapshot option" where
  "latest_row ops = map_of (rev (map (\<lambda>r. (node_key r, r)) (accepted_rows ops)))"

lemma scan_points_eq: "scan_points rows =
    (if list_ex (\<lambda>(t, v). v = None) rows then Inl ScanError
     else Inr (map (\<lambda>(t, v). \<lparr>sp_ts = t, sp_value = the v\<rparr>) rows))"
  by (induction rows rule: scan_points.induct) (auto split: option.splits)

lemma map_of_sort_key:
  assumes "distinct (map f xs)"
  shows "map_of (map (\<lambda>x. (f x, g x)) (sort_key f xs)) = map_of (map (\<lambda>x. (f x, g x)) xs)"
    and "sorted_wrt (<) (map f (sort_key f xs))"
proof -
  have m: "mset (map f (sort_key f xs)) = mset (map f xs)" by simp
  then have d: "distinct (map f (sort_key f xs))"
    using assms mset_eq_imp_distinct_iff by blast
  then show "map_of (map (\<lambda>x. (f x, g x)) (sort_key f xs)) = map_of (map (\<lambda>x. (f x, g x)) xs)"
    using assms by (subst map_of_inject_set) (simp_all add: comp_def)
  show "sorted_wrt (<) (map f (sort_key f xs))"
    using d by (simp add: strict_sorted_iff)
qed


text \<open>C21: Node CPU sparklines. After any sequence of insertions, some failed by the database or refused
  for a NaN, the query returns, in strictly increasing time, exactly one point for each timestamp
  not before \<open>since\<close> at which a row of that node was accepted, and its value is that of the last row
  accepted for that time.\<close>

theorem node_sparkline:
  "\<exists>ps. QueryNodeSparkline False inst nd ''cpu'' since (node_run ops empty_store) = Inr ps \<and>
    sorted_wrt (<) (map sp_ts ps) \<and>
    map_of (map (\<lambda>p. (sp_ts p, sp_value p)) ps) =
      (\<lambda>t. if since \<le> t then map_option ns_cpu (latest_row ops (t, inst, nd)) else None)"
proof -
  define t where "t = st_nodes (node_run ops empty_store)"
  define P where "P r \<longleftrightarrow> ns_instance r = inst \<and> ns_node r = nd \<and> ns_ts r \<ge> since" for r :: node_snapshot
  define rows where "rows = filter P (map snd t)"
  have t: "nodes.keyed t" "gm_get t = latest_row ops"
    using nodes.replay [of "[]" "accepted_rows ops"]
    by (simp_all add: t_def node_run_nodes empty_store_def latest_row_def)
  have d: "distinct (map ns_ts rows)"
    unfolding rows_def by (rule nodes.rows_distinct [OF t(1)]) (simp add: P_def node_key_def)
  have mem: "r \<in> set rows \<longleftrightarrow> P r \<and> latest_row ops (node_key r) = Some r" for r
  proof -
    have "(\<exists>k. (k, r) \<in> set t) \<longleftrightarrow> (node_key r, r) \<in> set t"
      using t(1) by (auto simp: nodes.keyed_def simp del: split_paired_Ex)
    moreover have "(node_key r, r) \<in> set t \<longleftrightarrow> latest_row ops (node_key r) = Some r"
      using t by (simp add: nodes.keyed_def gm_get_in)
    ultimately show ?thesis by (force simp: rows_def)
  qed
  have "map_of (map (\<lambda>r. (ns_ts r, ns_cpu r)) rows) u =
      (if since \<le> u then map_option ns_cpu (latest_row ops (u, inst, nd)) else None)" for u
  proof (cases "map_of (map (\<lambda>r. (ns_ts r, ns_cpu r)) rows) u")
    case (Some v)
    then obtain r where r: "r \<in> set rows" "u = ns_ts r" "v = ns_cpu r" by (auto dest!: map_of_SomeD)
    then have "P r" "latest_row ops (node_key r) = Some r" using mem by auto
    with r Some show ?thesis by (simp add: P_def node_key_def)
  next
    case None
    have "latest_row ops (u, inst, nd) = None" if "since \<le> u"
    proof (rule ccontr)
      assume "latest_row ops (u, inst, nd) \<noteq> None"
      then obtain r where r: "latest_row ops (u, inst, nd) = Some r" by blast
      then have "(u, inst, nd) = node_key r" using t nodes.keyed_get by metis
      with r that have "r \<in> set rows" and "ns_ts r = u" by (auto simp: mem P_def node_key_def)
      then have "u \<in> fst ` set (map (\<lambda>r. (ns_ts r, ns_cpu r)) rows)" by force
      with None show False by (simp only: map_of_eq_None_iff) simp
    qed
    with None show ?thesis by simp
  qed
  then have "map_of (map (\<lambda>r. (ns_ts r, ns_cpu r)) (sort_key ns_ts rows)) =
      (\<lambda>u. if since \<le> u then map_option ns_cpu (latest_row ops (u, inst, nd)) else None)"
    using map_of_sort_key(1) [OF d, of ns_cpu] by (simp add: fun_eq_iff)
  moreover have "QueryNodeSparkline False inst nd ''cpu'' since (node_run ops empty_store) =
      Inr (map (\<lambda>r. \<lparr>sp_ts = ns_ts r, sp_value = ns_cpu r\<rparr>) (sort_key ns_ts rows))"
    by (simp add: QueryNodeSparkline_def scan_points_eq rows_def P_def [abs_def] t_def list_ex_iff comp_def)
  ultimately show ?thesis using map_of_sort_key(2) [OF d] by (simp add: comp_def)
qed

text \<open>C22: Node memory sparklines. The query fails, as a whole, exactly when some row of that node in
  the period has no total memory (the quotient is NULL, which cannot be scanned); otherwise it returns
  a point for each row, and a row whose used memory is between zero and the total gives a value
  between 0 and 100.\<close>

theorem memory_sparkline:
  "(let rows = filter (\<lambda>r. ns_instance r = inst \<and> ns_node r = nd \<and> ns_ts r \<ge> since) (map snd (st_nodes s));
        res = QueryNodeSparkline False inst nd ''memory'' since s
    in (res = Inl ScanError) = list_ex (\<lambda>r. ns_memtotal r = 0) rows \<and>
       (case res of Inl e \<Rightarrow> e = ScanError
        | Inr ps \<Rightarrow> mset (map (\<lambda>p. (sp_ts p, sp_value p)) ps) =
            mset (map (\<lambda>r. (ns_ts r, pct_of (ns_memused r) (ns_memtotal r))) rows)) \<and>
       list_all (\<lambda>r. 0 \<le> ns_memused r \<and> ns_memused r \<le> ns_memtotal r \<and> 0 < ns_memtotal r \<and>
           in_i64 (ns_memtotal r) \<longrightarrow>
         (\<exists>c. pct_of (ns_memused r) (ns_memtotal r) = Fin c \<and> 0 \<le> c \<and> c \<le> 100)) rows)"
proof -
  define rows where "rows = filter (\<lambda>r. ns_instance r = inst \<and> ns_node r = nd \<and> ns_ts r \<ge> since) (map snd (st_nodes s))"
  define pts where "pts = map (\<lambda>r. (ns_ts r, mem_pct_sql r)) (sort_key ns_ts rows)"
  have q: "QueryNodeSparkline False inst nd ''memory'' since s = scan_points pts"
    by (simp add: QueryNodeSparkline_def pts_def rows_def)
  have e: "list_ex (\<lambda>(t, v). v = None) pts = list_ex (\<lambda>r. ns_memtotal r = 0) rows"
    by (auto simp: pts_def list_ex_iff mem_pct_sql_def)
  have p: "map (\<lambda>p. (sp_ts p, sp_value p)) (map (\<lambda>(t, v). \<lparr>sp_ts = t, sp_value = the v\<rparr>) pts) =
      map (\<lambda>r. (ns_ts r, pct_of (ns_memused r) (ns_memtotal r))) (sort_key ns_ts rows)"
    if "\<not> list_ex (\<lambda>r. ns_memtotal r = 0) rows"
    using that by (auto simp: pts_def list_ex_iff mem_pct_sql_def)
  have "mset (map (\<lambda>r. (ns_ts r, pct_of (ns_memused r) (ns_memtotal r))) (sort_key ns_ts rows)) =
      mset (map (\<lambda>r. (ns_ts r, pct_of (ns_memused r) (ns_memtotal r))) rows)"
    by (simp add: mset_map)
  with p e have "case scan_points pts of Inl e \<Rightarrow> e = ScanError | Inr ps \<Rightarrow>
      mset (map (\<lambda>p. (sp_ts p, sp_value p)) ps) = mset (map (\<lambda>r. (ns_ts r, pct_of (ns_memused r) (ns_memtotal r))) rows)"
    by (simp only: scan_points_eq split: if_split) simp
  moreover have "(scan_points pts = Inl ScanError) = list_ex (\<lambda>r. ns_memtotal r = 0) rows"
    by (simp add: scan_points_eq e)
  moreover have "list_all (\<lambda>r. 0 \<le> ns_memused r \<and> ns_memused r \<le> ns_memtotal r \<and> 0 < ns_memtotal r \<and>
      in_i64 (ns_memtotal r) \<longrightarrow>
      (\<exists>c. pct_of (ns_memused r) (ns_memtotal r) = Fin c \<and> 0 \<le> c \<and> c \<le> 100)) rows"
    using pct_of_range by (auto simp: list_all_iff)
  ultimately show ?thesis by (simp only: Let_def q rows_def [symmetric])
qed

definition sample_row :: "int \<Rightarrow> int \<Rightarrow> int \<Rightarrow> node_snapshot" where
  "sample_row t used tot = \<lparr>ns_ts = t, ns_instance = ''i'', ns_node = ''n'', ns_cpu = Fin 0, ns_memused = used,
     ns_memtotal = tot, ns_swapused = 0, ns_swaptotal = 0, ns_rootused = 0, ns_roottotal = 0, ns_load1 = Fin 0,
     ns_load5 = Fin 0, ns_load15 = Fin 0, ns_iowait = Fin 0, ns_uptime = 0, ns_cputemp = None\<rparr>"

theorem memory_sparkline_witness:
  "QueryNodeSparkline False ''i'' ''n'' ''memory'' 0 (node_run [(False, sample_row 1 5 10), (False, sample_row 2 0 0)] empty_store)
    = Inl ScanError"
  using memory_sparkline [of "''i''" "''n''" 0 "node_run [(False, sample_row 1 5 10), (False, sample_row 2 0 0)] empty_store"]
  by (simp add: node_run_def InsertNodeSnapshot_def node_valid_def sample_row_def empty_store_def put_row_def
      gm_put_def node_key_def Let_def)

section \<open>Disks\<close>

definition disk_run :: "(bool \<times> gotime \<times> disk) list \<Rightarrow> store \<Rightarrow> store" where
  "disk_run ops s = fold (\<lambda>(e, t, d) s. snd (UpsertDisk e t d s)) ops s"

definition sightings :: "string \<Rightarrow> (bool \<times> gotime \<times> disk) list \<Rightarrow> (gotime \<times> disk) list" where
  "sightings wwn ops = map snd (filter (\<lambda>(e, t, d). \<not> e \<and> d_wwn d = wwn) ops)"

text \<open>The disk table remembers. After any sequence of upserts, failed ones included, the row of a
  disk has the type, protocol, size and first-seen time of the first successful upsert and the place,
  model, serial number and last-seen time of the last; a disk never upserted has no row.\<close>

theorem disk_history:
  "gm_get (st_disks (disk_run ops empty_store)) wwn =
    (case sightings wwn ops of [] \<Rightarrow> None
     | (t0, d0) # rest \<Rightarrow> (let (t1, d1) = last (sightings wwn ops) in
         Some \<lparr>dr_instance = d_instance d1, dr_node = d_node d1, dr_devpath = d_devpath d1,
           dr_model = d_model d1, dr_serial = d_serial d1, dr_type = d_type d0, dr_protocol = d_protocol d0,
           dr_size = d_size d0, dr_first = unix_of_time t0, dr_last = unix_of_time t1\<rparr>))"
proof (induction ops rule: rev_induct)
  case Nil
  then show ?case by (simp add: disk_run_def sightings_def empty_store_def)
next
  case (snoc op ops)
  obtain e t d where op: "op = (e, t, d)" by (cases op)
  let ?s = "disk_run ops empty_store"
  have run: "disk_run (ops @ [op]) empty_store = snd (UpsertDisk e t d ?s)"
    by (simp add: disk_run_def op)
  have sig: "sightings wwn (ops @ [op]) = sightings wwn ops @ (if \<not> e \<and> d_wwn d = wwn then [(t, d)] else [])"
    by (simp add: sightings_def op)
  show ?case
  proof (cases "\<not> e \<and> d_wwn d = wwn")
    case False
    then have "gm_get (st_disks (snd (UpsertDisk e t d ?s))) wwn = gm_get (st_disks ?s) wwn"
      by (auto simp: UpsertDisk_def Let_def)
    with False snoc show ?thesis by (simp only: run sig if_False append_Nil2)
  next
    case True
    obtain t0 d0 rest where s0: "sightings wwn ops = [] \<or> sightings wwn ops = (t0, d0) # rest"
      by (cases "sightings wwn ops") auto
    with True snoc show ?thesis
      by (elim disjE) (simp_all add: run sig UpsertDisk_def Let_def case_prod_unfold)
  qed
qed

section \<open>Backups\<close>

definition backup_run :: "(bool \<times> int \<times> backup) list \<Rightarrow> store \<Rightarrow> store" where
  "backup_run ops s = fold (\<lambda>(e, t, b) s. snd (InsertBackupSnapshot e t b s)) ops s"

text \<open>Backup snapshots of one poll replace each other. The primary key has neither the type nor
  the datastore of a backup: of the backups stored with one timestamp, only the last one with a given
  id and backup time is kept, although it may be of another guest type or in another datastore.\<close>

theorem backup_snapshot_replaced:
  assumes "b_instance b' = b_instance b" and "b_id b' = b_id b" and "b_time b' = b_time b"
  shows "\<exists>r. gm_get (st_backups (backup_run [(False, t, b), (False, t, b')] s)) (t, b_instance b, b_id b, b_time b) = Some r \<and>
    br_type r = b_type b' \<and> br_datastore r = b_datastore b' \<and>
    length (st_backups (backup_run [(False, t, b), (False, t, b')] s)) = length (st_backups (backup_run [(False, t, b)] s))"
proof -
  have len: "length (gm_put k v (gm_put k w m)) = length (gm_put k w m)" for k :: "int \<times> string \<times> string \<times> int"
    and v w :: backup_row and m
    by (induction m) (simp_all add: gm_put_def)
  show ?thesis using assms
    by (simp add: backup_run_def InsertBackupSnapshot_def put_row_def backup_key_def Let_def len)
qed

theorem backup_snapshot_replaced_witness:
  "(let b = \<lparr>b_instance = ''pbs'', b_datastore = ''d1'', b_type = ''ct'', b_id = ''100'', b_time = 5, b_size = None,
       b_verified = None\<rparr>; b' = b\<lparr>b_datastore := ''d2'', b_type := ''vm''\<rparr>
    in length (st_backups (backup_run [(False, 9, b), (False, 9, b')] empty_store)) = 1)"
  using backup_snapshot_replaced [of
    "\<lparr>b_instance = ''pbs'', b_datastore = ''d2'', b_type = ''vm'', b_id = ''100'', b_time = 5, b_size = None, b_verified = None\<rparr>"
    "\<lparr>b_instance = ''pbs'', b_datastore = ''d1'', b_type = ''ct'', b_id = ''100'', b_time = 5, b_size = None, b_verified = None\<rparr>"
    9 empty_store]
  by (auto simp add: Let_def backup_run_def [of "[(False, 9, b)]" for b] InsertBackupSnapshot_def empty_store_def
      put_row_def gm_put_def)

end
