(* ===== verification/PveCollect.thy ===== *)
theory PveCollect
  imports PveApi Cache Store
begin

text \<open>
  \<open>internal/collector/pve.go\<close>, one poll: \<open>Collect\<close>. Each online node is a job of the worker pool; the
  jobs share three accumulators under a mutex. The interleaving of their critical sections is the
  argument \<open>po_order\<close> (which job enters next), and every interleaving is one of them. \<open>po_refuse\<close> is
  the job, if any, whose submission fails because the context is done. \<open>po_nodeerr\<close> and its companions
  say which insertions the database refuses.
\<close>

section \<open>The jobs\<close>

datatype poll_step =
    SetNode string node
  | AddGuests "guest list"
  | AddDisks "disk list"

record poll_acc =
  ac_nodes :: "(string, node) gomap"
  ac_guests :: "(int, guest) gomap"
  ac_disks :: "disk list"

fun poll_apply :: "poll_step \<Rightarrow> poll_acc \<Rightarrow> poll_acc" where
  "poll_apply (SetNode nodeName n) ac = ac\<lparr>ac_nodes := gm_put nodeName n (ac_nodes ac)\<rparr>"
| "poll_apply (AddGuests gs) ac = ac\<lparr>ac_guests := fold (\<lambda>g m. gm_put (g_vmid g) g m) gs (ac_guests ac)\<rparr>"
| "poll_apply (AddDisks ds) ac = ac\<lparr>ac_disks := ac_disks ac @ ds\<rparr>"

text \<open>The critical sections of the job of a node, in their order. A node whose status cannot be read
  contributes nothing; without its disks it still contributes its status and its guests.\<close>

definition node_job :: "api_env \<Rightarrow> (string \<Rightarrow> gotime) \<Rightarrow> pve \<Rightarrow> bool \<Rightarrow> string \<Rightarrow> poll_step list" where
  "node_job env dclk p pollDisks nodeName =
     (case collectNodeStatus env p nodeName of
        Inl e \<Rightarrow> []
      | Inr n \<Rightarrow>
          [SetNode nodeName n, AddGuests (collectGuests env p nodeName)] @
          (if pollDisks then
             (case collectDisks env p nodeName (dclk nodeName) of Inl e \<Rightarrow> [] | Inr ds \<Rightarrow> [AddDisks ds])
           else []))"

text \<open>Job \<open>i\<close> performs its next step; what is left when the order ends follows job by job.\<close>

fun weave :: "nat list \<Rightarrow> 'a list list \<Rightarrow> 'a list" where
  "weave [] js = concat js"
| "weave (i # is) js =
     (if i < length js
      then (case js ! i of [] \<Rightarrow> weave is js | a # as \<Rightarrow> a # weave is (js[i := as]))
      else weave is js)"

section \<open>Snapshots\<close>

definition node_snapshot_of :: "pve \<Rightarrow> int \<Rightarrow> node \<Rightarrow> node_snapshot" where
  "node_snapshot_of p ts n =
     (let (l1, l5, l15) = n_load n
      in \<lparr>ns_ts = ts, ns_instance = pc_name (pv_config p), ns_node = n_name n, ns_cpu = fmul (n_cpu n) (Fin 100),
          ns_memused = us_used (n_memory n), ns_memtotal = us_total (n_memory n),
          ns_swapused = us_used (n_swap n), ns_swaptotal = us_total (n_swap n),
          ns_rootused = us_used (n_rootfs n), ns_roottotal = us_total (n_rootfs n),
          ns_load1 = l1, ns_load5 = l5, ns_load15 = l15, ns_iowait = n_iowait n, ns_uptime = n_uptime n,
          ns_cputemp = n_temperature n\<rparr>)"

definition guest_snapshot_of :: "pve \<Rightarrow> int \<Rightarrow> guest \<Rightarrow> guest_snapshot" where
  "guest_snapshot_of p ts g =
     (let cpuPct = (if g_cpus g > 0 then fmul (fdiv (g_cpu g) (f64_of_int (g_cpus g))) (Fin 100) else Fin 0)
      in \<lparr>gs_ts = ts, gs_instance = pc_name (pv_config p), gs_vmid = g_vmid g, gs_node = g_node g,
          gs_cluster = g_cluster g, gs_type = g_type g, gs_name = g_name g, gs_status = g_status g,
          gs_cpu = cpuPct, gs_cpus = g_cpus g, gs_memused = g_mem g, gs_memtotal = g_maxmem g,
          gs_diskused = g_disk g, gs_disktotal = g_maxdisk g, gs_netin = g_netin g, gs_netout = g_netout g\<rparr>)"

section \<open>The poll\<close>

record poll_env =
  po_api :: api_env
  po_now :: gotime
  po_dclk :: "string \<Rightarrow> gotime"
  po_order :: "nat list"
  po_refuse :: "nat option"
  po_nodeerr :: "string \<Rightarrow> bool"
  po_guesterr :: "int \<Rightarrow> bool"
  po_diskerr :: "nat \<Rightarrow> bool"
  po_smarterr :: "nat \<Rightarrow> bool"
  po_uclk :: "nat \<Rightarrow> gotime"

definition resolve_cluster :: "api_env \<Rightarrow> pve \<Rightarrow> pve" where
  "resolve_cluster env p =
     (if pc_iscluster (pv_config p) \<and> pv_clusterid p = [] then
        (case detectCluster env p of
           Inl e \<Rightarrow> p\<lparr>pv_clusterid := pc_name (pv_config p)\<rparr>
         | Inr p' \<Rightarrow> p')
      else if pv_clusterid p = [] then p\<lparr>pv_clusterid := pc_name (pv_config p)\<rparr>
      else p)"

definition disks_due :: "gotime \<Rightarrow> pve \<Rightarrow> bool" where
  "disks_due now p \<longleftrightarrow> time_sub now (pv_lastdisk p) \<ge> pc_diskinterval (pv_config p)"

definition gather :: "poll_env \<Rightarrow> pve \<Rightarrow> poll_acc" where
  "gather po p =
     fold poll_apply
       (weave (po_order po)
         (map (node_job (po_api po) (po_dclk po) p (disks_due (po_now po) p)) (pv_nodes p)))
       \<lparr>ac_nodes = [], ac_guests = [], ac_disks = []\<rparr>"

definition disk_map :: "disk list \<Rightarrow> (string, disk) gomap" where
  "disk_map ds = fold (\<lambda>d m. gm_put (d_wwn d) d m) ds []"

definition poll_cache :: "gotime \<Rightarrow> pve \<Rightarrow> poll_acc \<Rightarrow> cache \<Rightarrow> cache" where
  "poll_cache now p ac c =
     (let c = UpdateNodes (pc_name (pv_config p)) (ac_nodes ac) c;
          c = UpdateGuests (pv_clusterid p) (ac_guests ac) c
      in if disks_due now p then UpdateDisks (disk_map (ac_disks ac)) c else c)"

definition poll_store :: "poll_env \<Rightarrow> pve \<Rightarrow> poll_acc \<Rightarrow> store \<Rightarrow> store" where
  "poll_store po p ac s =
     (let ts = unix_of_time (po_now po);
          s = fold (\<lambda>(nodeName, n) s. snd (InsertNodeSnapshot (po_nodeerr po nodeName) (node_snapshot_of p ts n) s))
                (ac_nodes ac) s;
          s = fold (\<lambda>(vmid, g) s. snd (InsertGuestSnapshot (po_guesterr po vmid) (guest_snapshot_of p ts g) s))
                (ac_guests ac) s
      in fold (\<lambda>(i, d) s. snd (InsertSMARTSnapshot (po_smarterr po i) ts d
                 (snd (UpsertDisk (po_diskerr po i) (po_uclk po i) d s))))
           (enumerate 0 (ac_disks ac)) s)"

text \<open>The node whose submission is refused, if any.\<close>

definition refused :: "poll_env \<Rightarrow> pve \<Rightarrow> string option" where
  "refused po p =
     (case po_refuse po of
        Some i \<Rightarrow> if i < length (pv_nodes p) then Some (pv_nodes p ! i) else None
      | None \<Rightarrow> None)"

definition pve_Collect :: "poll_env \<Rightarrow> pve \<times> cache \<times> store \<Rightarrow> pve_error option \<times> pve \<times> cache \<times> store" where
  "pve_Collect po = (\<lambda>(p, c, s).
     (case discoverNodes (po_api po) p of
        Inl e \<Rightarrow> (Some e, p, c, s)
      | Inr p \<Rightarrow>
          (let p = resolve_cluster (po_api po) p; now = po_now po
           in case refused po p of
                Some nodeName \<Rightarrow> (Some (NotSubmitted nodeName), p, c, s)
              | None \<Rightarrow>
                  (let ac = gather po p;
                       c = poll_cache now p ac c;
                       p' = (if disks_due now p then p\<lparr>pv_lastdisk := now\<rparr> else p);
                       s = poll_store po p ac s;
                       c = SetLastPoll (pve_name p') now c
                   in (None, p', c, s)))))"

section \<open>Every interleaving gathers the same\<close>

lemma mset_weave: "mset (weave is js) = mset (concat js)"
proof (induction "is" js rule: weave.induct)
  case (2 i "is" js)
  show ?case
  proof (cases "i < length js")
    case True
    have c: "mset (concat (js[i := as])) + mset (js ! i) = mset (concat js) + mset as" for as
    proof -
      have "concat js = concat (take i js) @ js ! i @ concat (drop (Suc i) js)"
        by (subst id_take_nth_drop [OF True]) simp
      then show ?thesis by (simp add: upd_conv_take_nth_drop [OF True])
    qed
    show ?thesis
    proof (cases "js ! i")
      case Nil
      with 2 True show ?thesis by simp
    next
      case (Cons a as)
      with 2 True c [of as] show ?thesis by simp
    qed
  qed (use 2 in simp)
qed simp

text \<open>The orders give the interleavings of the jobs, and all of them.\<close>

inductive interleaving :: "'a list list \<Rightarrow> 'a list \<Rightarrow> bool" where
  finished: "concat js = [] \<Longrightarrow> interleaving js []"
| turn: "i < length js \<Longrightarrow> js ! i = a # as \<Longrightarrow> interleaving (js[i := as]) xs \<Longrightarrow> interleaving js (a # xs)"

lemma interleaving_job_by_job: "interleaving js (concat js)"
proof (induction "length (concat js)" arbitrary: js)
  case 0
  then have "concat js = []" by (metis length_0_conv)
  with finished [OF this] show ?case by metis
next
  case (Suc n)
  then have "concat js \<noteq> []" by (metis length_greater_0_conv zero_less_Suc)
  then obtain xs ys zs where js: "js = xs @ ys # zs" and xs: "concat xs = []" and "ys \<noteq> []"
    using split_list_first_prop [of js "\<lambda>l. l \<noteq> []"] by auto
  then obtain a as where ys: "ys = a # as" by (cases ys) auto
  have "interleaving (xs @ as # zs) (concat (xs @ as # zs))"
    using Suc.hyps js ys by (intro Suc.hyps) simp
  then show ?case
    using turn [of "length xs" js a as "concat (xs @ as # zs)"] by (simp add: js ys xs)
qed

lemma interleaving_weave: "interleaving js (weave is js)"
proof (induction "is" js rule: weave.induct)
  case (2 i "is" js)
  then show ?case by (auto split: list.split intro: turn)
qed (simp add: interleaving_job_by_job)

lemma weave_exact: "interleaving js xs \<longleftrightarrow> (\<exists>is. weave is js = xs)"
proof
  show "interleaving js xs \<Longrightarrow> \<exists>is. weave is js = xs"
  proof (induction rule: interleaving.induct)
    case (finished js)
    then show ?case by (intro exI [of _ "[]"]) simp
  next
    case (turn i js a as xs)
    then obtain "is" where "weave is (js[i := as]) = xs" by blast
    with turn show ?case by (intro exI [of _ "i # is"]) simp
  qed
qed (auto intro: interleaving_weave)

lemma set_weave: "set (weave is js) = \<Union> (set ` set js)"
  using arg_cong [OF mset_weave [of "is" js], of set_mset] by simp

definition node_seen :: "api_env \<Rightarrow> pve \<Rightarrow> string \<Rightarrow> node option" where
  "node_seen env p nodeName = (case collectNodeStatus env p nodeName of Inl e \<Rightarrow> None | Inr n \<Rightarrow> Some n)"

definition guests_seen :: "api_env \<Rightarrow> pve \<Rightarrow> string \<Rightarrow> guest list" where
  "guests_seen env p nodeName = (if node_seen env p nodeName = None then [] else collectGuests env p nodeName)"

definition disks_seen :: "api_env \<Rightarrow> (string \<Rightarrow> gotime) \<Rightarrow> pve \<Rightarrow> bool \<Rightarrow> string \<Rightarrow> disk list" where
  "disks_seen env dclk p pollDisks nodeName =
     (if node_seen env p nodeName = None \<or> \<not> pollDisks then []
      else case collectDisks env p nodeName (dclk nodeName) of Inl e \<Rightarrow> [] | Inr ds \<Rightarrow> ds)"

fun step_guests :: "poll_step \<Rightarrow> guest list" where
  "step_guests (AddGuests gs) = gs" | "step_guests _ = []"

fun step_disks :: "poll_step \<Rightarrow> disk list" where
  "step_disks (AddDisks ds) = ds" | "step_disks _ = []"

lemma node_job_cases:
  "node_job env dclk p b nd =
    (case node_seen env p nd of None \<Rightarrow> []
     | Some n \<Rightarrow> SetNode nd n # AddGuests (collectGuests env p nd) #
         (case (b, collectDisks env p nd (dclk nd)) of (True, Inr ds) \<Rightarrow> [AddDisks ds] | _ \<Rightarrow> []))"
  unfolding node_job_def node_seen_def
  by (cases "collectNodeStatus env p nd"; cases b; cases "collectDisks env p nd (dclk nd)")
    (simp_all only: sum.case option.case prod.case bool.case if_True if_False append.simps)

lemma job_nodes: "SetNode nd' n \<in> set (node_job env dclk p b nd) \<longleftrightarrow> nd' = nd \<and> node_seen env p nd = Some n"
  unfolding node_job_cases
  by (cases "node_seen env p nd"; cases b; cases "collectDisks env p nd (dclk nd)") auto

lemma job_guests: "concat (map step_guests (node_job env dclk p b nd)) = guests_seen env p nd"
  unfolding node_job_cases guests_seen_def
  by (cases "node_seen env p nd"; cases b; cases "collectDisks env p nd (dclk nd)") simp_all

lemma job_disks: "concat (map step_disks (node_job env dclk p b nd)) = disks_seen env dclk p b nd"
  unfolding node_job_cases disks_seen_def
  by (cases "node_seen env p nd"; cases b; cases "collectDisks env p nd (dclk nd)") simp_all

lemmas job_steps = job_nodes job_guests job_disks

lemma acc_nodes:
  assumes "\<And>n. SetNode nd n \<in> set st \<Longrightarrow> x = Some n"
  shows "gm_get (ac_nodes (fold poll_apply st ac)) nd =
    (if \<exists>n. SetNode nd n \<in> set st then x else gm_get (ac_nodes ac) nd)"
  using assms
proof (induction st arbitrary: ac)
  case (Cons s st)
  then show ?case by (cases s) auto
qed simp

lemma put_guests:
  "(case gm_get (fold (\<lambda>g m. gm_put (g_vmid g) g m) gs m) v of
      None \<Rightarrow> v \<notin> g_vmid ` set gs \<and> gm_get m v = None
    | Some g \<Rightarrow> g \<in> set gs \<and> g_vmid g = v \<or> gm_get m v = Some g)"
proof (induction gs arbitrary: m)
  case (Cons g gs)
  from Cons.IH [of "gm_put (g_vmid g) g m"] show ?case by (auto split: option.splits if_splits)
qed (simp split: option.split)

lemma acc_guests:
  "(case gm_get (ac_guests (fold poll_apply st ac)) v of
      None \<Rightarrow> v \<notin> g_vmid ` set (concat (map step_guests st)) \<and> gm_get (ac_guests ac) v = None
    | Some g \<Rightarrow> g \<in> set (concat (map step_guests st)) \<and> g_vmid g = v \<or> gm_get (ac_guests ac) v = Some g)"
proof (induction st arbitrary: ac)
  case (Cons s st)
  from Cons.IH [of "poll_apply s ac"] show ?case
  proof (cases s)
    case (AddGuests gs)
    with Cons.IH [of "poll_apply s ac"] put_guests [where gs = gs and m = "ac_guests ac" and v = v] show ?thesis
      by (auto split: option.splits)
  qed (auto split: option.splits)
qed (simp split: option.split)

lemma acc_disks: "ac_disks (fold poll_apply st ac) = ac_disks ac @ concat (map step_disks st)"
proof (induction st arbitrary: ac)
  case (Cons s st)
  then show ?case by (cases s) auto
qed simp

lemma wf_put_guests: "wf_gomap m \<Longrightarrow> wf_gomap (fold (\<lambda>g m. gm_put (g_vmid g) g m) gs m)"
  by (induction gs arbitrary: m) (simp_all add: wf_gm_put)

lemma acc_wf: "wf_gomap (ac_nodes ac) \<Longrightarrow> wf_gomap (ac_guests ac) \<Longrightarrow>
    wf_gomap (ac_nodes (fold poll_apply st ac)) \<and> wf_gomap (ac_guests (fold poll_apply st ac))"
proof (induction st arbitrary: ac)
  case (Cons s st)
  then show ?case by (cases s) (simp_all add: wf_gm_put wf_put_guests)
qed simp

lemma mset_concat_map_sum: "mset (concat (map f xs)) = (\<Sum>x\<in>#mset xs. mset (f x))"
  by (induction xs) simp_all

lemma mset_concat_map: "mset xs = mset ys \<Longrightarrow> mset (concat (map f xs)) = mset (concat (map f ys))"
  by (simp only: mset_concat_map_sum)

lemma concat_jobs: "concat (map f (concat js)) = concat (map (\<lambda>j. concat (map f j)) js)"
  by (induction js) auto

lemma gather_steps:
  obtains st where
    "gather po p = fold poll_apply st \<lparr>ac_nodes = [], ac_guests = [], ac_disks = []\<rparr>"
    "\<And>nd n. SetNode nd n \<in> set st \<longleftrightarrow> nd \<in> set (pv_nodes p) \<and> node_seen (po_api po) p nd = Some n"
    "set (concat (map step_guests st)) = set (concat (map (guests_seen (po_api po) p) (pv_nodes p)))"
    "mset (concat (map step_disks st)) =
      mset (concat (map (disks_seen (po_api po) (po_dclk po) p (disks_due (po_now po) p)) (pv_nodes p)))"
proof
  define js where "js = map (node_job (po_api po) (po_dclk po) p (disks_due (po_now po) p)) (pv_nodes p)"
  define st where "st = weave (po_order po) js"
  show "gather po p = fold poll_apply st \<lparr>ac_nodes = [], ac_guests = [], ac_disks = []\<rparr>"
    by (simp add: gather_def st_def js_def)
  show "SetNode nd n \<in> set st \<longleftrightarrow> nd \<in> set (pv_nodes p) \<and> node_seen (po_api po) p nd = Some n" for nd n
    by (auto simp: st_def set_weave js_def job_steps)
  have jobs: "mset (concat (map f st)) = mset (concat (map (\<lambda>j. concat (map f j)) js))"
    for f :: "poll_step \<Rightarrow> 'b list"
    using mset_concat_map [OF mset_weave, of f "po_order po" js] by (simp add: st_def concat_jobs)
  show "set (concat (map step_guests st)) = set (concat (map (guests_seen (po_api po) p) (pv_nodes p)))"
    using arg_cong [OF jobs [of step_guests], of set_mset] by (simp only: js_def map_map comp_def job_steps set_mset_mset)
  show "mset (concat (map step_disks st)) =
      mset (concat (map (disks_seen (po_api po) (po_dclk po) p (disks_due (po_now po) p)) (pv_nodes p)))"
    using jobs [of step_disks] by (simp only: js_def map_map comp_def job_steps)
qed

lemma gather_any_order_nodes:
  "gm_get (ac_nodes (gather po p)) nd = (if nd \<in> set (pv_nodes p) then node_seen (po_api po) p nd else None)"
proof -
  obtain st where g: "gather po p = fold poll_apply st \<lparr>ac_nodes = [], ac_guests = [], ac_disks = []\<rparr>"
    and n: "\<And>nd n. SetNode nd n \<in> set st \<longleftrightarrow> nd \<in> set (pv_nodes p) \<and> node_seen (po_api po) p nd = Some n"
    by (rule gather_steps) blast
  show ?thesis
    unfolding g by (subst acc_nodes [where x = "node_seen (po_api po) p nd"]) (auto simp: n)
qed

lemma gather_any_order_guests:
  "case gm_get (ac_guests (gather po p)) vmid of
     None \<Rightarrow> vmid \<notin> g_vmid ` set (concat (map (guests_seen (po_api po) p) (pv_nodes p)))
   | Some g \<Rightarrow> g_vmid g = vmid \<and> g \<in> set (concat (map (guests_seen (po_api po) p) (pv_nodes p)))"
proof -
  obtain st where g: "gather po p = fold poll_apply st \<lparr>ac_nodes = [], ac_guests = [], ac_disks = []\<rparr>"
    and gs: "set (concat (map step_guests st)) = set (concat (map (guests_seen (po_api po) p) (pv_nodes p)))"
    by (rule gather_steps) blast
  show ?thesis
    using acc_guests [where st = st and ac = "\<lparr>ac_nodes = [], ac_guests = [], ac_disks = []\<rparr>" and v = vmid]
    unfolding g [symmetric] gs by (auto split: option.splits)
qed

text \<open>C8: however the jobs of the nodes interleave, a poll gathers for each online node exactly the
  status its own request gave (and no entry when that failed), only guests some reachable node
  reported, under their own id and without losing an id, and every disk the nodes reported as often as
  they reported it; so a node that fails takes nothing away from another.\<close>

theorem gather_any_order:
  "gm_get (ac_nodes (gather po p)) nd = (if nd \<in> set (pv_nodes p) then node_seen (po_api po) p nd else None) \<and>
   (case gm_get (ac_guests (gather po p)) vmid of
      None \<Rightarrow> vmid \<notin> g_vmid ` set (concat (map (guests_seen (po_api po) p) (pv_nodes p)))
    | Some g \<Rightarrow> g_vmid g = vmid \<and> g \<in> set (concat (map (guests_seen (po_api po) p) (pv_nodes p)))) \<and>
   mset (ac_disks (gather po p)) =
     mset (concat (map (disks_seen (po_api po) (po_dclk po) p (disks_due (po_now po) p)) (pv_nodes p)))"
proof -
  obtain st where "gather po p = fold poll_apply st \<lparr>ac_nodes = [], ac_guests = [], ac_disks = []\<rparr>"
    "mset (concat (map step_disks st)) =
      mset (concat (map (disks_seen (po_api po) (po_dclk po) p (disks_due (po_now po) p)) (pv_nodes p)))"
    by (rule gather_steps) blast
  then have "mset (ac_disks (gather po p)) =
     mset (concat (map (disks_seen (po_api po) (po_dclk po) p (disks_due (po_now po) p)) (pv_nodes p)))"
    by (simp add: acc_disks)
  then show ?thesis using gather_any_order_nodes gather_any_order_guests by blast
qed

section \<open>What a poll leaves behind\<close>

lemma parsed_node:
  assumes "parseNodeStatus inst nd j = Some n"
  shows "n_name n = nd \<and> n_instance n = inst \<and> n_temperature n = None"
  using dec_struct_Some [OF assms [unfolded parseNodeStatus_def]]
  by (clarsimp simp: Option.bind_eq_Some_conv)

lemma node_seen_name:
  "node_seen env p nd = Some n \<Longrightarrow> n_name n = nd \<and> n_instance n = pc_name (pv_config p) \<and> n_temperature n = None"
  unfolding node_seen_def collectNodeStatus_def get_data_def
  by (auto split: sum.splits option.splits dest: parsed_node)

lemma resolve_cluster_keeps:
  "pv_nodes (resolve_cluster env p) = pv_nodes p \<and> pv_config (resolve_cluster env p) = pv_config p \<and>
   pv_lastdisk (resolve_cluster env p) = pv_lastdisk p \<and>
   (pv_clusterid p = [] \<or> pv_clusterid (resolve_cluster env p) = pv_clusterid p)"
  by (auto simp: resolve_cluster_def detectCluster_def split: sum.splits option.splits)

lemma discover_keeps:
  "discoverNodes env p = Inr p' \<Longrightarrow> pv_config p' = pv_config p \<and> pv_lastdisk p' = pv_lastdisk p \<and>
   pv_clusterid p' = pv_clusterid p"
  by (auto simp: discoverNodes_def split: sum.splits)

lemma get_disk_map: "gm_get (disk_map ds) w = find (\<lambda>d. d_wwn d = w) (rev ds)"
proof -
  have "gm_get (fold (\<lambda>d m. gm_put (d_wwn d) d m) ds m) w =
      (case find (\<lambda>d. d_wwn d = w) (rev ds) of None \<Rightarrow> gm_get m w | Some d \<Rightarrow> Some d)" for m
    by (induction ds arbitrary: m) (simp_all add: find_app split: option.split)
  then show ?thesis by (simp add: disk_map_def split: option.split)
qed

lemma wf_disk_map: "wf_gomap (disk_map ds)"
  unfolding disk_map_def by (rule fold_invariant) (simp_all add: wf_gm_put)

lemma gather_wf: "wf_gomap (ac_nodes (gather po p))" "wf_gomap (ac_guests (gather po p))"
  unfolding gather_def
  using acc_wf [of "\<lparr>ac_nodes = [], ac_guests = [], ac_disks = []\<rparr>"] by simp_all

lemma gathered_node: "gm_get (ac_nodes (gather po p)) nd = Some n \<Longrightarrow>
    n_name n = nd \<and> n_instance n = pc_name (pv_config p) \<and> n_temperature n = None"
  using gather_any_order_nodes [of po p nd] by (auto split: if_splits dest: node_seen_name)

lemma gathered_guest: "gm_get (ac_guests (gather po p)) vmid = Some g \<Longrightarrow> g_vmid g = vmid"
  using gather_any_order_guests [where po = po and p = p and vmid = vmid] by simp

text \<open>What the insertion of a node's row does to the table.\<close>

lemma node_row_inserted:
  "gm_get (st_nodes (snd (InsertNodeSnapshot e r s))) x =
    (if x = node_key r \<and> \<not> e \<and> node_valid r then Some (r\<lparr>ns_cputemp := real_null (ns_cputemp r)\<rparr>)
     else gm_get (st_nodes s) x)"
  by (simp add: InsertNodeSnapshot_def put_row_def node_key_def)

lemma guest_row_inserted:
  "gm_get (st_guests (snd (InsertGuestSnapshot e r s))) x =
    (if x = guest_key r \<and> \<not> e \<and> gs_cpu r \<noteq> NaN then Some r else gm_get (st_guests s) x)"
  by (simp add: InsertGuestSnapshot_def put_row_def)

lemma insert_keeps:
  "st_guests (snd (InsertNodeSnapshot e r s)) = st_guests s" "st_nodes (snd (InsertGuestSnapshot e' r' s)) = st_nodes s"
  "st_nodes (snd (UpsertDisk e1 t d s)) = st_nodes s" "st_guests (snd (UpsertDisk e1 t d s)) = st_guests s"
  "st_nodes (snd (InsertSMARTSnapshot e1 ts d s)) = st_nodes s"
  "st_guests (snd (InsertSMARTSnapshot e1 ts d s)) = st_guests s"
  by (simp_all add: InsertNodeSnapshot_def InsertGuestSnapshot_def UpsertDisk_def InsertSMARTSnapshot_def Let_def)

lemma snapshot_key:
  "node_key (node_snapshot_of p ts n) = (ts, pc_name (pv_config p), n_name n)"
  "ns_cputemp (node_snapshot_of p ts n) = n_temperature n"
  "guest_key (guest_snapshot_of p ts g) = (ts, pc_name (pv_config p), g_vmid g)"
  by (simp_all add: node_key_def guest_key_def node_snapshot_of_def guest_snapshot_of_def case_prod_unfold Let_def)

definition put_node :: "poll_env \<Rightarrow> pve \<Rightarrow> string \<Rightarrow> node \<Rightarrow> store \<Rightarrow> store" where
  "put_node po p k n s =
     snd (InsertNodeSnapshot (po_nodeerr po k) (node_snapshot_of p (unix_of_time (po_now po)) n) s)"

definition put_guest :: "poll_env \<Rightarrow> pve \<Rightarrow> int \<Rightarrow> guest \<Rightarrow> store \<Rightarrow> store" where
  "put_guest po p k g s =
     snd (InsertGuestSnapshot (po_guesterr po k) (guest_snapshot_of p (unix_of_time (po_now po)) g) s)"

lemma poll_store_parts:
  "st_nodes (poll_store po p ac s) = st_nodes (fold (\<lambda>(k, n) s. put_node po p k n s) (ac_nodes ac) s)"
  "gm_get (st_guests (poll_store po p ac s)) x =
    gm_get (st_guests (fold (\<lambda>(k, g) s. put_guest po p k g s) (ac_guests ac)
      (fold (\<lambda>(k, n) s. put_node po p k n s) (ac_nodes ac) s))) x"
  "st_guests (fold (\<lambda>(k, n) s. put_node po p k n s) m s) = st_guests s"
proof -
  have d: "st_nodes (fold (\<lambda>(i, d) s. snd (InsertSMARTSnapshot (po_smarterr po i) ts d
        (snd (UpsertDisk (po_diskerr po i) (po_uclk po i) d s)))) ds s) = st_nodes s"
    "st_guests (fold (\<lambda>(i, d) s. snd (InsertSMARTSnapshot (po_smarterr po i) ts d
        (snd (UpsertDisk (po_diskerr po i) (po_uclk po i) d s)))) ds s) = st_guests s" for ts ds s
    by (rule fold_preserves; simp add: insert_keeps case_prod_unfold)+
  have g: "st_nodes (fold (\<lambda>(k, g) s. put_guest po p k g s) m s) = st_nodes s" for m s
    by (rule fold_preserves) (simp add: put_guest_def insert_keeps case_prod_unfold)
  show "st_nodes (poll_store po p ac s) = st_nodes (fold (\<lambda>(k, n) s. put_node po p k n s) (ac_nodes ac) s)"
    "gm_get (st_guests (poll_store po p ac s)) x =
      gm_get (st_guests (fold (\<lambda>(k, g) s. put_guest po p k g s) (ac_guests ac)
        (fold (\<lambda>(k, n) s. put_node po p k n s) (ac_nodes ac) s))) x"
    using g by (simp_all add: poll_store_def Let_def d put_node_def [abs_def] put_guest_def [abs_def])
  show "st_guests (fold (\<lambda>(k, n) s. put_node po p k n s) m s) = st_guests s"
    by (rule fold_preserves) (simp add: put_node_def insert_keeps case_prod_unfold)
qed

lemma node_row_kept: "n_temperature n = None \<Longrightarrow>
    node_snapshot_of p ts n\<lparr>ns_cputemp := real_null (ns_cputemp (node_snapshot_of p ts n))\<rparr> = node_snapshot_of p ts n"
  by (simp add: real_null_def node_snapshot_of_def case_prod_unfold Let_def)

lemma put_node_row:
  assumes "gm_get (ac_nodes (gather po p)) k = Some n"
  shows "gm_get (st_nodes (put_node po p k n s)) x =
    (if x = (unix_of_time (po_now po), pc_name (pv_config p), k) \<and>
        (\<not> po_nodeerr po k \<and> node_valid (node_snapshot_of p (unix_of_time (po_now po)) n))
     then Some (node_snapshot_of p (unix_of_time (po_now po)) n) else gm_get (st_nodes s) x)"
proof -
  from gathered_node [OF assms] have n: "n_name n = k" "n_temperature n = None" by simp_all
  show ?thesis
    unfolding put_node_def node_row_inserted snapshot_key(1) node_row_kept [OF n(2)] n(1) by (rule refl)
qed

lemma put_guest_row:
  assumes "gm_get (ac_guests (gather po p)) k = Some g"
  shows "gm_get (st_guests (put_guest po p k g s)) x =
    (if x = (unix_of_time (po_now po), pc_name (pv_config p), k) \<and>
        (\<not> po_guesterr po k \<and> gs_cpu (guest_snapshot_of p (unix_of_time (po_now po)) g) \<noteq> NaN)
     then Some (guest_snapshot_of p (unix_of_time (po_now po)) g) else gm_get (st_guests s) x)"
  unfolding put_guest_def guest_row_inserted snapshot_key(3) gathered_guest [OF assms] by (rule refl)

lemmas node_entry = gm_get_in [OF gather_wf(1), THEN iffD1]
  and guest_entry = gm_get_in [OF gather_wf(2), THEN iffD1]

text \<open>The writes for the disks, one after the other, with their places in the list.\<close>

definition put_disks :: "poll_env \<Rightarrow> (nat \<times> disk) list \<Rightarrow> store \<Rightarrow> store" where
  "put_disks po = fold (\<lambda>(i, d) s. snd (InsertSMARTSnapshot (po_smarterr po i) (unix_of_time (po_now po)) d
     (snd (UpsertDisk (po_diskerr po i) (po_uclk po i) d s))))"

text \<open>What becomes of the row of a disk that is written once or more: a new row keeps what the first write said of the type,
  the protocol, the size and the first sighting, an old one keeps its own; the rest is from the last write.\<close>

definition disk_written :: "(nat \<Rightarrow> gotime) \<Rightarrow> (nat \<times> disk) list \<Rightarrow> disk_row option \<Rightarrow> disk_row option" where
  "disk_written clk writes old =
     (if writes = [] then old
      else let (i0, d0) = hd writes; (i, d) = last writes
        in Some \<lparr>dr_instance = d_instance d, dr_node = d_node d, dr_devpath = d_devpath d, dr_model = d_model d,
             dr_serial = d_serial d, dr_type = (case old of None \<Rightarrow> d_type d0 | Some r \<Rightarrow> dr_type r),
             dr_protocol = (case old of None \<Rightarrow> d_protocol d0 | Some r \<Rightarrow> dr_protocol r),
             dr_size = (case old of None \<Rightarrow> d_size d0 | Some r \<Rightarrow> dr_size r),
             dr_first = (case old of None \<Rightarrow> unix_of_time (clk i0) | Some r \<Rightarrow> dr_first r),
             dr_last = unix_of_time (clk i)\<rparr>)"

lemma upsert_row:
  "gm_get (st_disks (snd (UpsertDisk e clk d s))) w =
    (if w = d_wwn d \<and> \<not> e then disk_written (\<lambda>_. clk) [(0, d)] (gm_get (st_disks s) w) else gm_get (st_disks s) w)"
  by (cases "gm_get (st_disks s) (d_wwn d)")
    (auto simp: UpsertDisk_def disk_written_def Let_def intro!: disk_row.equality)

lemma disk_written_snoc:
  "disk_written clk (xs @ [(i, d)]) old = disk_written (\<lambda>_. clk i) [(0, d)] (disk_written clk xs old)"
  by (cases xs rule: rev_cases; cases old) (auto simp: disk_written_def Let_def case_prod_unfold hd_append)

lemma disk_keeps:
  "st_disks (snd (InsertSMARTSnapshot e1 ts d s)) = st_disks s" "st_smart (snd (UpsertDisk e2 t d s)) = st_smart s"
  by (simp_all add: InsertSMARTSnapshot_def UpsertDisk_def Let_def)

lemma disk_rows:
  "gm_get (st_disks (put_disks po ds s)) w =
    disk_written (po_uclk po) (filter (\<lambda>(i, d). d_wwn d = w \<and> \<not> po_diskerr po i) ds) (gm_get (st_disks s) w)"
proof (induction ds rule: rev_induct)
  case Nil
  then show ?case by (simp add: put_disks_def disk_written_def)
next
  case (snoc x ds)
  obtain i d where x: "x = (i, d)" by (cases x)
  from snoc show ?case by (auto simp: x put_disks_def disk_keeps upsert_row disk_written_snoc)
qed

definition smart_row_of :: "int \<Rightarrow> disk \<Rightarrow> smart_row" where
  "smart_row_of ts d = \<lparr>sr_ts = ts, sr_wwn = d_wwn d, sr_health = d_health d, sr_status = d_status d,
     sr_temperature = d_temperature d, sr_poweron = d_poweron d, sr_wearout = d_wearout d, sr_attrs = d_attrs d\<rparr>"

lemma smart_row_inserted:
  "gm_get (st_smart (snd (InsertSMARTSnapshot e ts d s))) x =
    (if x = (ts, d_wwn d) \<and> \<not> e \<and> marshals (d_attrs d) then Some (smart_row_of ts d) else gm_get (st_smart s) x)"
  by (simp add: InsertSMARTSnapshot_def put_row_def smart_key_def smart_row_of_def)

lemma found_disk: "find (\<lambda>(k, d). d_wwn d = w \<and> P k d) xs = Some (k, d) \<Longrightarrow> d_wwn d = w"
  by (auto simp: find_Some_iff)

lemma smart_rows:
  "gm_get (st_smart (put_disks po ds s)) (unix_of_time (po_now po), w) =
    (case find (\<lambda>(i, d). d_wwn d = w \<and> \<not> po_smarterr po i \<and> marshals (d_attrs d)) (rev ds) of
       None \<Rightarrow> gm_get (st_smart s) (unix_of_time (po_now po), w)
     | Some (i, d) \<Rightarrow> Some (smart_row_of (unix_of_time (po_now po)) d))"
  "t \<noteq> unix_of_time (po_now po) \<Longrightarrow> gm_get (st_smart (put_disks po ds s)) (t, w) = gm_get (st_smart s) (t, w)"
proof (induction ds rule: rev_induct)
  case (snoc x ds)
  obtain i d where x: "x = (i, d)" by (cases x)
  { case 1 from snoc(1) show ?case by (auto simp: x put_disks_def smart_row_inserted disk_keeps) }
  { case 2 from snoc(2) 2 show ?case by (auto simp: x put_disks_def smart_row_inserted disk_keeps) }
qed (simp_all add: put_disks_def)

lemma poll_store_disks:
  "poll_store po p ac s = put_disks po (enumerate 0 (ac_disks ac))
    (fold (\<lambda>(k, g) s. put_guest po p k g s) (ac_guests ac) (fold (\<lambda>(k, n) s. put_node po p k n s) (ac_nodes ac) s))"
  by (simp add: poll_store_def put_disks_def put_node_def [abs_def] put_guest_def [abs_def] Let_def)

text \<open>The part of the store that only the writes for the disks and the other collectors change.\<close>

definition rest_of_store :: "store \<Rightarrow> store" where
  "rest_of_store s = s\<lparr>st_nodes := [], st_guests := []\<rparr>"

lemma rows_keep_rest: "rest_of_store (fold (\<lambda>(k, g) s. put_guest po p k g s) gs (fold (\<lambda>(k, n) s. put_node po p k n s) ns s)) =
    rest_of_store s"
proof -
  have r: "rest_of_store (put_node po p k n s) = rest_of_store s" "rest_of_store (put_guest po p k' g s) = rest_of_store s" for k k' n g s
    by (simp_all add: rest_of_store_def put_node_def put_guest_def InsertNodeSnapshot_def InsertGuestSnapshot_def)
  have "rest_of_store (fold (\<lambda>(k, n) s. put_node po p k n s) ns s) = rest_of_store s"
    by (rule fold_preserves) (simp add: case_prod_unfold r)
  moreover have "rest_of_store (fold (\<lambda>(k, g) s. put_guest po p k g s) gs s) = rest_of_store s" for s
    by (rule fold_preserves) (simp add: case_prod_unfold r)
  ultimately show ?thesis by simp
qed

lemma rest_fields: "rest_of_store s = rest_of_store s' \<Longrightarrow> st_disks s = st_disks s' \<and> st_smart s = st_smart s' \<and>
    st_pve s = st_pve s' \<and> st_pbs s = st_pbs s' \<and> st_backups s = st_backups s' \<and> st_datastores s = st_datastores s' \<and>
    st_alerts s = st_alerts s' \<and> st_nextid s = st_nextid s'"
  by (cases s; cases s') (simp add: rest_of_store_def)

lemma disks_keep:
  "st_pve (put_disks po ds s) = st_pve s \<and> st_pbs (put_disks po ds s) = st_pbs s \<and> st_backups (put_disks po ds s) = st_backups s \<and>
   st_datastores (put_disks po ds s) = st_datastores s \<and> st_alerts (put_disks po ds s) = st_alerts s \<and>
   st_nextid (put_disks po ds s) = st_nextid s"
  by (induction ds rule: rev_induct)
    (auto simp: put_disks_def InsertSMARTSnapshot_def UpsertDisk_def Let_def)

lemma snapshot_rows:
  "let s' = poll_store po p (gather po p) s; ts = unix_of_time (po_now po); inst = pc_name (pv_config p) in
     gm_get (st_nodes s') (ts, inst, nd) =
       (case gm_get (ac_nodes (gather po p)) nd of
          Some n \<Rightarrow> if \<not> po_nodeerr po nd \<and> node_valid (node_snapshot_of p ts n) then Some (node_snapshot_of p ts n)
            else gm_get (st_nodes s) (ts, inst, nd)
        | None \<Rightarrow> gm_get (st_nodes s) (ts, inst, nd)) \<and>
     gm_get (st_guests s') (ts, inst, vmid) =
       (case gm_get (ac_guests (gather po p)) vmid of
          Some g \<Rightarrow> if po_guesterr po vmid \<or> gs_cpu (guest_snapshot_of p ts g) = NaN
            then gm_get (st_guests s) (ts, inst, vmid) else Some (guest_snapshot_of p ts g)
        | None \<Rightarrow> gm_get (st_guests s) (ts, inst, vmid)) \<and>
     ((t, i) = (ts, inst) \<or> gm_get (st_nodes s') (t, i, nd) = gm_get (st_nodes s) (t, i, nd) \<and>
       gm_get (st_guests s') (t, i, vmid) = gm_get (st_guests s) (t, i, vmid))"
proof -
  let ?ts = "unix_of_time (po_now po)" and ?inst = "pc_name (pv_config p)"
  have inj: "inj (\<lambda>k. (?ts, ?inst, k))" by (simp add: inj_def)
  have "gm_get (st_nodes (poll_store po p (gather po p) s)) (?ts, ?inst, nd) =
     (case gm_get (ac_nodes (gather po p)) nd of
        Some n \<Rightarrow> if \<not> po_nodeerr po nd \<and> node_valid (node_snapshot_of p ?ts n) then Some (node_snapshot_of p ?ts n)
          else gm_get (st_nodes s) (?ts, ?inst, nd)
      | None \<Rightarrow> gm_get (st_nodes s) (?ts, ?inst, nd))"
    unfolding poll_store_parts
    by (rule fold_rows [OF gather_wf(1) inj]) (erule put_node_row [OF node_entry])
  moreover have "gm_get (st_guests (poll_store po p (gather po p) s)) (?ts, ?inst, vmid) =
     (case gm_get (ac_guests (gather po p)) vmid of
        Some g \<Rightarrow> if \<not> po_guesterr po vmid \<and> gs_cpu (guest_snapshot_of p ?ts g) \<noteq> NaN
          then Some (guest_snapshot_of p ?ts g) else gm_get (st_guests s) (?ts, ?inst, vmid)
      | None \<Rightarrow> gm_get (st_guests s) (?ts, ?inst, vmid))"
    unfolding poll_store_parts(2) poll_store_parts(3) [symmetric, of s po p "ac_nodes (gather po p)"]
    by (rule fold_rows [OF gather_wf(2) inj]) (erule put_guest_row [OF guest_entry])
  moreover have "gm_get (st_nodes (poll_store po p (gather po p) s)) (t, i, nd) = gm_get (st_nodes s) (t, i, nd) \<and>
      gm_get (st_guests (poll_store po p (gather po p) s)) (t, i, vmid) = gm_get (st_guests s) (t, i, vmid)"
    if "(t, i) \<noteq> (?ts, ?inst)"
    unfolding poll_store_parts
    using that by (subst (1 2) fold_rows_other)
      (auto simp: put_node_row [OF node_entry] put_guest_row [OF guest_entry] poll_store_parts)
  ultimately show ?thesis by (auto simp: Let_def split: option.split)
qed

text \<open>C18: the rows a poll writes, table by table and column by column. At the time of the poll the node table gets one row per
  node whose status was read, with the CPU load as a percentage and no temperature, unless the database refuses it or a
  value is no number; the guest table gets one per guest, with the CPU load relative to its CPUs; the SMART table one
  per disk polled, from the last reading of that disk that the database takes; and the table of disks the last
  place and name of the disk, with the time of its first sighting kept. The rows of other instances and of other
  times, the backups, the alerts and the instances are not touched.\<close>

theorem poll_rows:
  "let ac = gather po p; s' = poll_store po p ac s; ts = unix_of_time (po_now po); inst = pc_name (pv_config p);
       disks = enumerate 0 (ac_disks ac)
   in gm_get (st_nodes s') (t, i, nd) =
       (case (if t = ts \<and> i = inst \<and> \<not> po_nodeerr po nd then gm_get (ac_nodes ac) nd else None) of
          None \<Rightarrow> gm_get (st_nodes s) (t, i, nd)
        | Some n \<Rightarrow> (case n_load n of (l1, l5, l15) \<Rightarrow>
            if NaN \<in> {fmul (n_cpu n) (Fin 100), l1, l5, l15, n_iowait n} then gm_get (st_nodes s) (t, i, nd)
            else Some \<lparr>ns_ts = t, ns_instance = i, ns_node = nd, ns_cpu = fmul (n_cpu n) (Fin 100),
              ns_memused = us_used (n_memory n), ns_memtotal = us_total (n_memory n), ns_swapused = us_used (n_swap n),
              ns_swaptotal = us_total (n_swap n), ns_rootused = us_used (n_rootfs n), ns_roottotal = us_total (n_rootfs n),
              ns_load1 = l1, ns_load5 = l5, ns_load15 = l15, ns_iowait = n_iowait n, ns_uptime = n_uptime n,
              ns_cputemp = None\<rparr>)) \<and>
     gm_get (st_guests s') (t, i, vmid) =
       (case (if t = ts \<and> i = inst \<and> \<not> po_guesterr po vmid then gm_get (ac_guests ac) vmid else None) of
          None \<Rightarrow> gm_get (st_guests s) (t, i, vmid)
        | Some g \<Rightarrow>
            (let cpu = (if 0 < g_cpus g then fmul (fdiv (g_cpu g) (f64_of_int (g_cpus g))) (Fin 100) else Fin 0)
             in if cpu = NaN then gm_get (st_guests s) (t, i, vmid)
                else Some \<lparr>gs_ts = t, gs_instance = i, gs_vmid = vmid, gs_node = g_node g, gs_cluster = g_cluster g,
                  gs_type = g_type g, gs_name = g_name g, gs_status = g_status g, gs_cpu = cpu, gs_cpus = g_cpus g,
                  gs_memused = g_mem g, gs_memtotal = g_maxmem g, gs_diskused = g_disk g, gs_disktotal = g_maxdisk g,
                  gs_netin = g_netin g, gs_netout = g_netout g\<rparr>)) \<and>
     gm_get (st_smart s') (t, w) =
       (case (if t = ts then find (\<lambda>(k, d). d_wwn d = w \<and> \<not> po_smarterr po k \<and> marshals (d_attrs d)) (rev disks) else None) of
          None \<Rightarrow> gm_get (st_smart s) (t, w)
        | Some (k, d) \<Rightarrow> Some \<lparr>sr_ts = t, sr_wwn = w, sr_health = d_health d, sr_status = d_status d,
            sr_temperature = d_temperature d, sr_poweron = d_poweron d, sr_wearout = d_wearout d, sr_attrs = d_attrs d\<rparr>) \<and>
     gm_get (st_disks s') w =
       disk_written (po_uclk po) (filter (\<lambda>(k, d). d_wwn d = w \<and> \<not> po_diskerr po k) disks) (gm_get (st_disks s) w) \<and>
     st_pve s' = st_pve s \<and> st_pbs s' = st_pbs s \<and> st_backups s' = st_backups s \<and> st_datastores s' = st_datastores s \<and>
     st_alerts s' = st_alerts s \<and> st_nextid s' = st_nextid s"
proof -
  let ?ac = "gather po p" and ?ts = "unix_of_time (po_now po)" and ?inst = "pc_name (pv_config p)"
  let ?r = "fold (\<lambda>(k, g) s. put_guest po p k g s) (ac_guests ?ac) (fold (\<lambda>(k, n) s. put_node po p k n s) (ac_nodes ?ac) s)"
  note rest = rest_fields [OF rows_keep_rest [of po p "ac_guests ?ac" "ac_nodes ?ac" s]]
  note snap = snapshot_rows [of po p s nd vmid t i, unfolded Let_def]
  have n: "n_name n = nd" "n_temperature n = None" if "gm_get (ac_nodes ?ac) nd = Some n" for n
    using gathered_node [OF that] by simp_all
  have nodes: "gm_get (st_nodes (poll_store po p ?ac s)) (t, i, nd) =
      (case (if t = ?ts \<and> i = ?inst \<and> \<not> po_nodeerr po nd then gm_get (ac_nodes ?ac) nd else None) of
         None \<Rightarrow> gm_get (st_nodes s) (t, i, nd)
       | Some n \<Rightarrow> if node_valid (node_snapshot_of p ?ts n) then Some (node_snapshot_of p ?ts n) else gm_get (st_nodes s) (t, i, nd))"
    using snap by (auto split: option.split)
  have guests: "gm_get (st_guests (poll_store po p ?ac s)) (t, i, vmid) =
      (case (if t = ?ts \<and> i = ?inst \<and> \<not> po_guesterr po vmid then gm_get (ac_guests ?ac) vmid else None) of
         None \<Rightarrow> gm_get (st_guests s) (t, i, vmid)
       | Some g \<Rightarrow> if gs_cpu (guest_snapshot_of p ?ts g) = NaN then gm_get (st_guests s) (t, i, vmid)
           else Some (guest_snapshot_of p ?ts g))"
    using snap by (auto split: option.split)
  have smart: "gm_get (st_smart (poll_store po p ?ac s)) (t, w) =
      (case (if t = ?ts then find (\<lambda>(k, d). d_wwn d = w \<and> \<not> po_smarterr po k \<and> marshals (d_attrs d))
          (rev (enumerate 0 (ac_disks ?ac))) else None) of
         None \<Rightarrow> gm_get (st_smart s) (t, w) | Some (k, d) \<Rightarrow> Some (smart_row_of t d))"
    using smart_rows(1) [of po "enumerate 0 (ac_disks ?ac)" ?r w] smart_rows(2) [of t po "enumerate 0 (ac_disks ?ac)" ?r w] rest
    by (auto simp: poll_store_disks split: option.splits)
  show ?thesis
    using n gathered_guest [of po p vmid] disks_keep [of po "enumerate 0 (ac_disks ?ac)" ?r] rest
    unfolding Let_def nodes guests smart
    by (auto simp: poll_store_disks disk_rows node_valid_def node_snapshot_of_def guest_snapshot_of_def smart_row_of_def
        Let_def split: option.split prod.split dest: found_disk)
qed

text \<open>C9: what a poll does to the collector and the cache. A poll that cannot list the nodes or cannot
  submit a job changes neither the cache nor the store nor the time of the last disk poll; the configuration
  and a known cluster name never change. Otherwise the cache holds for the instance exactly the nodes just
  gathered and for the cluster the guests, each WWN among the disks gathered when these were due
  gets its last reading, no other disk, instance or cluster is touched, and the disks are next due one
  interval later.\<close>

theorem poll_cache_effect:
  "case pve_Collect po (p, c, s) of (err, p', c', s') \<Rightarrow>
     let q = p'\<lparr>pv_lastdisk := pv_lastdisk p\<rparr>; ac = gather po q; due = disks_due (po_now po) p in
     pv_config p' = pv_config p \<and> (pv_clusterid p = [] \<or> pv_clusterid p' = pv_clusterid p) \<and>
     (if err \<noteq> None then c' = c \<and> s' = s \<and> pv_lastdisk p' = pv_lastdisk p
      else
        pv_lastdisk p' = (if due then po_now po else pv_lastdisk p) \<and>
        gm_get (c_nodes c') i = (if i = pc_name (pv_config p) then Some (ac_nodes ac) else gm_get (c_nodes c) i) \<and>
        gm_get (c_guests c') i = (if i = pv_clusterid p' then Some (ac_guests ac) else gm_get (c_guests c) i) \<and>
        gm_get (c_disks c') w =
          (case if due then find (\<lambda>d. d_wwn d = w) (rev (ac_disks ac)) else None of
             None \<Rightarrow> gm_get (c_disks c) w | Some d \<Rightarrow> Some d) \<and>
        c_datastores c' = c_datastores c \<and> c_backups c' = c_backups c \<and> c_tasks c' = c_tasks c \<and>
        gm_get (c_lastpoll c') i = (if i = pve_name p then Some (po_now po) else gm_get (c_lastpoll c) i) \<and>
        s' = poll_store po q ac s)"
proof (cases "discoverNodes (po_api po) p")
  case (Inl e)
  then show ?thesis by (simp add: pve_Collect_def)
next
  case (Inr p1)
  define p2 where "p2 = resolve_cluster (po_api po) p1"
  have p2: "pv_config p2 = pv_config p" "pv_lastdisk p2 = pv_lastdisk p"
    "pv_clusterid p = [] \<or> pv_clusterid p2 = pv_clusterid p"
    using discover_keeps [OF Inr] resolve_cluster_keeps [of "po_api po" p1] by (auto simp: p2_def)
  have due: "disks_due (po_now po) p2 = disks_due (po_now po) p" by (simp add: disks_due_def p2)
  have q: "p2\<lparr>pv_lastdisk := pv_lastdisk p\<rparr> = p2" "p2\<lparr>pv_lastdisk := t, pv_lastdisk := pv_lastdisk p\<rparr> = p2" for t
    by (simp_all flip: p2(2))
  show ?thesis
  proof (cases "refused po p2")
    case None
    then show ?thesis
      by (simp add: pve_Collect_def Inr p2_def [symmetric] Let_def due q p2 poll_cache_def cache_ops pve_name_def
          gm_get_copy_any wf_disk_map map_add_def get_disk_map)
  qed (simp add: pve_Collect_def Inr p2_def [symmetric] Let_def p2)
qed

end
