(* ===== verification/Pbs.thy ===== *)
theory Pbs
  imports PveApi Cache Store
begin

text \<open>
  \<open>internal/collector/pbs.go\<close>: the collector of a Proxmox Backup Server. The answers of one poll are an
  \<open>api_env\<close> as for PVE. The order in which Go ranges over the map of datastores is the argument
  \<open>bo_rank\<close>: every order is that of some ranks. \<open>bo_dserr\<close> and \<open>bo_backuperr\<close> say which insertions the
  database refuses.
\<close>

record pbs_config =
  bc_name :: string
  bc_host :: string
  bc_tokenid :: string
  bc_secret :: string
  bc_datastores :: "string list"
  bc_interval :: duration

record pbs =
  pb_config :: pbs_config

definition NewPBSCollector :: "pbs_config \<Rightarrow> pbs" where
  "NewPBSCollector cfg = \<lparr>pb_config = cfg\<rparr>"

definition pbs_name :: "pbs \<Rightarrow> string" where
  "pbs_name c = ''pbs:'' @ bc_name (pb_config c)"

section \<open>Requests\<close>

definition pbs_get :: "api_env \<Rightarrow> pbs \<Rightarrow> string \<Rightarrow> api_error + json option" where
  "pbs_get env c path =
     do_get env (bc_host (pb_config c))
       (''PBSAPIToken='' @ bc_tokenid (pb_config c) @ '':'' @ bc_secret (pb_config c)) path"

text \<open>A request whose body is decoded into a struct with the field \<open>data\<close>.\<close>

definition pbs_data :: "api_env \<Rightarrow> pbs \<Rightarrow> string \<Rightarrow> (json option \<Rightarrow> 'a option) \<Rightarrow> pve_error + 'a" where
  "pbs_data env c path dec =
     (case pbs_get env c path of
        Inl e \<Rightarrow> Inl (Api e)
      | Inr None \<Rightarrow> Inl BadData
      | Inr (Some j) \<Rightarrow>
          (case dec_struct (\<lambda>o1. dec (jfield ''data'' o1)) (Some j) of None \<Rightarrow> Inl BadData | Some x \<Rightarrow> Inr x))"

definition dec_capacity :: "string \<Rightarrow> string \<Rightarrow> (string \<times> json) list \<Rightarrow> datastore_status option" where
  "dec_capacity inst name o1 = do {
     t \<leftarrow> dec_ptr dec_int (jfield ''total'' o1);
     u \<leftarrow> dec_ptr dec_int (jfield ''used'' o1);
     a \<leftarrow> dec_ptr dec_int (jfield ''avail'' o1);
     e \<leftarrow> dec_ptr dec_str (jfield ''error'' o1);
     Some \<lparr>ds_instance = inst, ds_name = name, ds_total = t, ds_used = u, ds_avail = a, ds_dedup = None,
       ds_estfull = None, ds_error = e\<rparr> }"

definition collectAllDatastoreUsage :: "api_env \<Rightarrow> pbs \<Rightarrow> pve_error + (string, datastore_status) gomap" where
  "collectAllDatastoreUsage env c =
     (case pbs_data env c ''/api2/json/status/datastore-usage''
             (dec_slice (dec_struct (\<lambda>o1. do {
                st \<leftarrow> dec_str (jfield ''store'' o1); dec_capacity (bc_name (pb_config c)) st o1 }))) of
        Inl e \<Rightarrow> Inl e
      | Inr dss \<Rightarrow> Inr (fold (\<lambda>ds m. gm_put (ds_name ds) ds m) dss []))"

definition collectDatastoreStatus :: "api_env \<Rightarrow> pbs \<Rightarrow> string \<Rightarrow> pve_error + datastore_status" where
  "collectDatastoreStatus env c datastore =
     pbs_data env c (''/api2/json/admin/datastore/'' @ datastore @ ''/status'')
       (dec_struct (dec_capacity (bc_name (pb_config c)) datastore))"

definition dec_backup :: "string \<Rightarrow> string \<Rightarrow> json option \<Rightarrow> backup option" where
  "dec_backup inst datastore = dec_struct (\<lambda>o1. do {
     ty \<leftarrow> dec_str (jfield ''backup-type'' o1);
     bid \<leftarrow> dec_str (jfield ''backup-id'' o1);
     tm \<leftarrow> dec_int (jfield ''backup-time'' o1);
     sz \<leftarrow> dec_ptr dec_int (jfield ''size'' o1);
     v \<leftarrow> dec_ptr (dec_struct (\<lambda>o2. dec_str (jfield ''state'' o2))) (jfield ''verification'' o1);
     Some \<lparr>b_instance = inst, b_datastore = datastore, b_type = ty, b_id = bid, b_time = tm, b_size = sz,
       b_verified = map_option (\<lambda>state. state = ''ok'') v\<rparr> })"

definition collectSnapshots :: "api_env \<Rightarrow> pbs \<Rightarrow> string \<Rightarrow> pve_error + backup list" where
  "collectSnapshots env c datastore =
     pbs_data env c (''/api2/json/admin/datastore/'' @ datastore @ ''/snapshots'')
       (dec_slice (dec_backup (bc_name (pb_config c)) datastore))"

definition task_type :: "string \<Rightarrow> string" where
  "task_type ty = (if ty = ''verificationjob'' then ''verify'' else if ty = ''garbage_collection'' then ''gc'' else ty)"

definition dec_task :: "string \<Rightarrow> json option \<Rightarrow> pbs_task option" where
  "dec_task inst = dec_struct (\<lambda>o1. do {
     upid \<leftarrow> dec_str (jfield ''upid'' o1);
     ty \<leftarrow> dec_str (jfield ''worker_type'' o1);
     wid \<leftarrow> dec_str (jfield ''worker_id'' o1);
     st \<leftarrow> dec_int (jfield ''starttime'' o1);
     en \<leftarrow> dec_ptr dec_int (jfield ''endtime'' o1);
     status \<leftarrow> dec_str (jfield ''status'' o1);
     user \<leftarrow> dec_str (jfield ''user'' o1);
     Some \<lparr>t_instance = inst, t_upid = upid, t_type = task_type ty, t_id = wid, t_start = st, t_end = en,
       t_status = status, t_user = user\<rparr> })"

definition collectTasks :: "api_env \<Rightarrow> pbs \<Rightarrow> gotime \<Rightarrow> pve_error + pbs_task list" where
  "collectTasks env c clk =
     (let since = unix_of_time (clk - 7 * 24 * hour)
      in pbs_data env c (''/api2/json/nodes/localhost/tasks?since='' @ itoa since @ ''&limit=200'')
           (dec_slice (dec_task (bc_name (pb_config c)))))"

section \<open>The poll\<close>

record pbs_env =
  bo_api :: api_env
  bo_now :: gotime
  bo_taskclk :: gotime
  bo_rank :: "string \<Rightarrow> nat"
  bo_dserr :: "string \<Rightarrow> bool"
  bo_backuperr :: "string \<Rightarrow> bool"

text \<open>A named datastore: a permission error still gives an entry, with unknown capacity.\<close>

definition stub_datastore :: "pbs \<Rightarrow> string \<Rightarrow> datastore_status" where
  "stub_datastore c name =
     \<lparr>ds_instance = bc_name (pb_config c), ds_name = name, ds_total = None, ds_used = None, ds_avail = None,
      ds_dedup = None, ds_estfull = None, ds_error = None\<rparr>"

definition named_datastore :: "api_env \<Rightarrow> pbs \<Rightarrow> string \<Rightarrow> datastore_status option" where
  "named_datastore env c name =
     (case collectDatastoreStatus env c name of
        Inr ds \<Rightarrow> Some ds
      | Inl e \<Rightarrow> if e = Api (APIError 403) then Some (stub_datastore c name) else None)"

definition poll_datastores :: "api_env \<Rightarrow> pbs \<Rightarrow> pve_error + (string, datastore_status) gomap" where
  "poll_datastores env c =
     (if bc_datastores (pb_config c) \<noteq> [] then
        Inr (fold (\<lambda>name m. case named_datastore env c name of None \<Rightarrow> m | Some ds \<Rightarrow> gm_put name ds m)
               (bc_datastores (pb_config c)) [])
      else collectAllDatastoreUsage env c)"

definition latest_key :: "backup \<Rightarrow> string" where
  "latest_key b = b_datastore b @ ''/'' @ b_id b"

definition keep_latest :: "backup \<Rightarrow> (string, backup) gomap \<Rightarrow> (string, backup) gomap" where
  "keep_latest snap m =
     (case gm_get m (latest_key snap) of
        None \<Rightarrow> gm_put (latest_key snap) snap m
      | Some existing \<Rightarrow> if b_time snap > b_time existing then gm_put (latest_key snap) snap m else m)"

definition poll_backups :: "pbs_env \<Rightarrow> pbs \<Rightarrow> (string, datastore_status) gomap \<Rightarrow> (string, backup) gomap" where
  "poll_backups po c dss =
     fold (\<lambda>name m. case collectSnapshots (bo_api po) c name of Inl e \<Rightarrow> m | Inr snaps \<Rightarrow> fold keep_latest snaps m)
       (sort_key (bo_rank po) (map fst dss)) []"

definition pbs_cache :: "pbs_env \<Rightarrow> pbs \<Rightarrow> (string, datastore_status) gomap \<Rightarrow> (string, backup) gomap \<Rightarrow> cache \<Rightarrow> cache" where
  "pbs_cache po c dss bs ca =
     (let name = bc_name (pb_config c);
          ca = UpdateBackups name bs (UpdateDatastores name dss ca)
      in case collectTasks (bo_api po) c (bo_taskclk po) of Inl e \<Rightarrow> ca | Inr tasks \<Rightarrow> UpdateTasks name tasks ca)"

definition pbs_store :: "pbs_env \<Rightarrow> (string, datastore_status) gomap \<Rightarrow> (string, backup) gomap \<Rightarrow> store \<Rightarrow> store" where
  "pbs_store po dss bs s =
     (let ts = unix_of_time (bo_now po);
          s = fold (\<lambda>(k, ds) s. snd (InsertDatastoreSnapshot (bo_dserr po k) ts ds s)) dss s
      in fold (\<lambda>(k, b) s. snd (InsertBackupSnapshot (bo_backuperr po k) ts b s)) bs s)"

definition pbs_Collect :: "pbs_env \<Rightarrow> pbs \<Rightarrow> cache \<times> store \<Rightarrow> pve_error option \<times> cache \<times> store" where
  "pbs_Collect po c = (\<lambda>(ca, s).
     (case poll_datastores (bo_api po) c of
        Inl e \<Rightarrow> (Some e, ca, s)
      | Inr dss \<Rightarrow>
          (let bs = poll_backups po c dss;
               ca = pbs_cache po c dss bs ca;
               s = pbs_store po dss bs s
           in (None, SetLastPoll (pbs_name c) (bo_now po) ca, s))))"

section \<open>The latest backups\<close>

definition snaps_seen :: "api_env \<Rightarrow> pbs \<Rightarrow> string \<Rightarrow> backup list" where
  "snaps_seen env c name = (case collectSnapshots env c name of Inl e \<Rightarrow> [] | Inr snaps \<Rightarrow> snaps)"

definition latest_of :: "backup list \<Rightarrow> string \<Rightarrow> backup option \<Rightarrow> bool" where
  "latest_of seen k r = (case r of
     None \<Rightarrow> k \<notin> latest_key ` set seen
   | Some b \<Rightarrow> b \<in> set seen \<and> latest_key b = k \<and> b_time b = Max (b_time ` {b' \<in> set seen. latest_key b' = k}))"

lemma latest_add:
  assumes "latest_of seen k (gm_get m k)"
  shows "latest_of (seen @ [snap]) k (gm_get (keep_latest snap m) k)"
proof (cases "latest_key snap = k")
  case True
  have one: "{b' \<in> set (seen @ [snap]). latest_key b' = k} = insert snap {b' \<in> set seen. latest_key b' = k}"
    using True by auto
  show ?thesis
  proof (cases "gm_get m k")
    case None
    with assms have "{b' \<in> set seen. latest_key b' = k} = {}" by (auto simp: latest_of_def)
    with None True one show ?thesis by (simp add: latest_of_def keep_latest_def)
  next
    case (Some e)
    define A where "A = {b' \<in> set seen. latest_key b' = k}"
    from assms Some have e: "e \<in> A" "b_time e = Max (b_time ` A)" by (auto simp: latest_of_def A_def)
    have "finite (b_time ` A)" by (simp add: A_def)
    with e have "Max (b_time ` insert snap A) = max (b_time snap) (b_time e)"
      by (subst image_insert, subst Max_insert) auto
    with Some True e(1) show ?thesis
      unfolding latest_of_def one A_def [symmetric] by (auto simp: keep_latest_def A_def max_def)
  qed
next
  case False
  then have "{b' \<in> set (seen @ [snap]). latest_key b' = k} = {b' \<in> set seen. latest_key b' = k}"
    "gm_get (keep_latest snap m) k = gm_get m k"
    by (auto simp: keep_latest_def split: option.split)
  with assms False show ?thesis by (auto simp: latest_of_def split: option.splits)
qed

lemma latest_fold:
  "latest_of seen k (gm_get m k) \<Longrightarrow> latest_of (seen @ snaps) k (gm_get (fold keep_latest snaps m) k)"
proof (induction snaps arbitrary: seen m)
  case (Cons snap snaps)
  from Cons.IH [OF latest_add [OF Cons.prems]] show ?case by simp
qed simp

lemma fold_snaps: "fold (\<lambda>name m. case collectSnapshots env c name of Inl e \<Rightarrow> m | Inr snaps \<Rightarrow> fold keep_latest snaps m) names m =
    fold keep_latest (concat (map (snaps_seen env c) names)) m"
  by (induction names arbitrary: m) (simp_all add: snaps_seen_def split: sum.split)

lemma latest_of_set: "set xs = set ys \<Longrightarrow> latest_of xs k r = latest_of ys k r"
  by (simp only: latest_of_def)

text \<open>C11: the backups of a poll: for every key (datastore and backup id) exactly one backup when some
  reachable datastore listed one, and then one of those listed with the greatest time, whatever the order
  in which the datastores are visited; a datastore whose listing fails contributes none.\<close>

theorem poll_latest:
  "latest_of (concat (map (snaps_seen (bo_api po) c) (map fst dss))) k (gm_get (poll_backups po c dss) k)"
proof -
  have "latest_of (concat (map (snaps_seen (bo_api po) c) (sort_key (bo_rank po) (map fst dss)))) k
     (gm_get (poll_backups po c dss) k)"
    using latest_fold [of "[]" k "[]"] unfolding poll_backups_def fold_snaps by (simp add: latest_of_def)
  then show ?thesis by (subst latest_of_set) auto
qed

section \<open>Datastores\<close>

lemma named_fold:
  "gm_get (fold (\<lambda>name m. case named_datastore env c name of None \<Rightarrow> m | Some ds \<Rightarrow> gm_put name ds m) names m) x =
    (if x \<in> set names \<and> named_datastore env c x \<noteq> None then named_datastore env c x else gm_get m x)"
  by (induction names arbitrary: m) (auto split: option.split)

text \<open>With datastores named in the configuration a poll never fails for them as a whole: a datastore
  whose status can be read has what was read, one the token may not audit (403) has an entry without
  capacity, so that its backups are still listed, and one with any other error has no entry.\<close>

theorem named_datastores:
  "let c = \<lparr>pb_config = cfg\<lparr>bc_datastores := d # ds\<rparr>\<rparr> in
   case poll_datastores env c of
     Inl e \<Rightarrow> False
   | Inr dss \<Rightarrow> gm_get dss name =
       (if name \<in> set (d # ds) then
          (case collectDatastoreStatus env c name of
             Inr x \<Rightarrow> Some x
           | Inl (Api (APIError code)) \<Rightarrow> if code = 403 then Some (stub_datastore c name) else None
           | Inl e \<Rightarrow> None)
        else None)"
  unfolding Let_def poll_datastores_def
  by (simp add: named_fold)
    (simp add: named_datastore_def split: sum.split pve_error.split api_error.split)

lemma status_name:
  assumes "collectDatastoreStatus env c name = Inr ds"
  shows "ds_name ds = name \<and> ds_instance ds = bc_name (pb_config c) \<and> ds_dedup ds = None"
proof -
  from assms obtain kvs where "dec_capacity (bc_name (pb_config c)) name kvs = Some ds"
    unfolding collectDatastoreStatus_def pbs_data_def
    by (auto split: sum.splits option.splits dest!: dec_struct_Some)
  then show ?thesis by (clarsimp simp: dec_capacity_def Option.bind_eq_Some_conv)
qed

lemma usage_name:
  assumes "collectAllDatastoreUsage env c = Inr dss" and "gm_get dss k = Some ds"
  shows "ds_name ds = k"
proof -
  have "list_all (\<lambda>e. ds_name (snd e) = fst e) (fold (\<lambda>ds m. gm_put (ds_name ds) ds m) dl [])" for dl
    by (rule fold_invariant) (auto simp: list_all_iff dest: set_gm_put)
  moreover obtain dl where "dss = fold (\<lambda>ds m. gm_put (ds_name ds) ds m) dl []"
    using assms(1) by (auto simp: collectAllDatastoreUsage_def split: sum.splits)
  ultimately have "list_all (\<lambda>e. ds_name (snd e) = fst e) dss" by simp
  with map_of_SomeD [OF assms(2)] show ?thesis by (force simp: list_all_iff)
qed

lemma poll_name:
  assumes "poll_datastores env c = Inr dss" and "gm_get dss k = Some ds"
  shows "ds_name ds = k"
proof (cases "bc_datastores (pb_config c) = []")
  case True
  with assms show ?thesis by (auto simp: poll_datastores_def intro: usage_name)
next
  case False
  with assms have "named_datastore env c k = Some ds"
    by (auto simp: poll_datastores_def named_fold split: if_splits)
  then show ?thesis
    using status_name [of env c k] by (auto simp: named_datastore_def stub_datastore_def split: sum.splits if_splits)
qed

lemma poll_wf: "poll_datastores env c = Inr dss \<Longrightarrow> wf_gomap dss"
proof -
  have "wf_gomap (fold (\<lambda>name m. case named_datastore env c name of None \<Rightarrow> m | Some ds \<Rightarrow> gm_put name ds m) names [])"
    for names by (rule fold_invariant) (auto simp: wf_gm_put split: option.split)
  moreover have "wf_gomap (fold (\<lambda>ds m. gm_put (ds_name ds) ds m) dl [])" for dl
    by (rule fold_invariant) (simp_all add: wf_gm_put)
  moreover assume "poll_datastores env c = Inr dss"
  ultimately show ?thesis
    by (auto simp: poll_datastores_def collectAllDatastoreUsage_def split: if_splits sum.splits)
qed

text \<open>C19: what a poll of a backup server does. It fails only when no datastores are configured and listing
  them fails, and then changes nothing. Otherwise the cache holds for the instance the datastores and the
  backups of this poll, and its tasks only when these could be read (old tasks survive a failure); no
  other instance, node, guest or disk of the cache is touched.\<close>

theorem pbs_poll:
  "case pbs_Collect po c (ca, s) of (err, ca', s') \<Rightarrow>
     case poll_datastores (bo_api po) c of
       Inl e \<Rightarrow> err = Some e \<and> bc_datastores (pb_config c) = [] \<and> ca' = ca \<and> s' = s
     | Inr dss \<Rightarrow> err = None \<and>
         gm_get (c_datastores ca') i = (if i = bc_name (pb_config c) then Some dss else gm_get (c_datastores ca) i) \<and>
         gm_get (c_backups ca') i =
           (if i = bc_name (pb_config c) then Some (poll_backups po c dss) else gm_get (c_backups ca) i) \<and>
         gm_get (c_tasks ca') i =
           (case collectTasks (bo_api po) c (bo_taskclk po) of
              Inr ts \<Rightarrow> if i = bc_name (pb_config c) then Some ts else gm_get (c_tasks ca) i
            | Inl e \<Rightarrow> gm_get (c_tasks ca) i) \<and>
         gm_get (c_lastpoll ca') i = (if i = pbs_name c then Some (bo_now po) else gm_get (c_lastpoll ca) i) \<and>
         c_nodes ca' = c_nodes ca \<and> c_guests ca' = c_guests ca \<and> c_disks ca' = c_disks ca \<and>
         s' = pbs_store po dss (poll_backups po c dss) s"
proof (cases "poll_datastores (bo_api po) c")
  case (Inl e)
  then have "bc_datastores (pb_config c) = []" by (auto simp: poll_datastores_def split: if_splits)
  with Inl show ?thesis by (simp add: pbs_Collect_def)
next
  case (Inr dss)
  then show ?thesis
    by (cases "collectTasks (bo_api po) c (bo_taskclk po)")
      (simp_all add: pbs_Collect_def Let_def pbs_cache_def cache_ops)
qed

lemma ds_row_inserted:
  "gm_get (st_datastores (snd (InsertDatastoreSnapshot e ts d s))) x =
    (if x = (ts, ds_instance d, ds_name d) \<and> \<not> e
     then Some \<lparr>wr_ts = ts, wr_instance = ds_instance d, wr_name = ds_name d, wr_total = ds_total d,
         wr_used = ds_used d, wr_avail = ds_avail d, wr_dedup = real_null (ds_dedup d), wr_estfull = ds_estfull d\<rparr>
     else gm_get (st_datastores s) x)"
  by (simp add: InsertDatastoreSnapshot_def put_row_def ds_key_def)

section \<open>Tasks\<close>

text \<open>The task that an entry of the server's answer describes. The server's two long names become the short ones of the
  user interface.\<close>

definition task_entry :: "string \<Rightarrow> (string \<times> json) list \<Rightarrow> pbs_task \<Rightarrow> bool" where
  "task_entry inst e t \<longleftrightarrow> t_instance t = inst \<and>
     dec_str (jfield ''upid'' e) = Some (t_upid t) \<and> dec_str (jfield ''worker_id'' e) = Some (t_id t) \<and>
     dec_int (jfield ''starttime'' e) = Some (t_start t) \<and> dec_ptr dec_int (jfield ''endtime'' e) = Some (t_end t) \<and>
     dec_str (jfield ''status'' e) = Some (t_status t) \<and> dec_str (jfield ''user'' e) = Some (t_user t) \<and>
     (case dec_str (jfield ''worker_type'' e) of
        None \<Rightarrow> False
      | Some ty \<Rightarrow> (t_type t, ty) \<in> {(''verify'', ''verificationjob''), (''gc'', ''garbage_collection'')} \<or>
          t_type t = ty \<and> ty \<notin> {''verificationjob'', ''garbage_collection''})"

lemma task_decoded: "dec_task inst (Some (JObj e)) = Some t \<longleftrightarrow> task_entry inst e t"
proof (cases t)
  case (fields i u ty w st en sta us)
  have "t_type t = task_type x \<longleftrightarrow> (t_type t, x) \<in> {(''verify'', ''verificationjob''), (''gc'', ''garbage_collection'')} \<or>
      t_type t = x \<and> x \<notin> {''verificationjob'', ''garbage_collection''}" for x
    by (auto simp: task_type_def)
  note m = this [unfolded fields pbs_task.select_convs]
  show ?thesis unfolding dec_task_def task_entry_def dec_struct.simps fields pbs_task.select_convs m [symmetric]
    by (auto simp: Option.bind_eq_Some_conv split: option.split)
qed

lemma tasks_decoded: "those (map (\<lambda>x. dec_task inst (Some x)) (map JObj es)) = Some ts \<longleftrightarrow> list_all2 (task_entry inst) es ts"
  by (auto simp: those_eq_Some list_eq_iff_nth_eq list_all2_conv_all_nth task_decoded)

lemma week_before: "unix_of_time (t - 7 * 24 * hour) = unix_of_time t - 604800"
proof -
  have "t - 7 * 24 * hour = t + (- 604800) * second" by simp
  then show ?thesis unfolding unix_of_time_def
    by (metis (no_types) div_mult_self1 add.commute add_uminus_conv_diff zero_neq_numeral)
qed

text \<open>C39: the tasks in the cache after a poll. When the server answers the request for the tasks of the last week with a list of
  objects that all decode, the cache holds for the instance one task per entry, in the order of the answer, with
  the entry's fields, a verification job as "verify", a garbage collection as "gc" and every other type as it is;
  when one entry does not decode, the tasks of the earlier polls stay.\<close>

theorem polled_tasks:
  assumes "pbs_Collect po c (ca, s) = (None, ca', s')"
    and "pbs_get (bo_api po) c (''/api2/json/nodes/localhost/tasks?since='' @
      itoa (unix_of_time (bo_taskclk po) - 604800) @ ''&limit=200'') = Inr (Some (JObj kvs))"
    and "jfield ''data'' kvs = Some (JArr (map JObj es))"
  shows "if \<forall>e \<in> set es. \<exists>t. task_entry (bc_name (pb_config c)) e t
    then \<exists>ts. gm_get (c_tasks ca') (bc_name (pb_config c)) = Some ts \<and> list_all2 (task_entry (bc_name (pb_config c))) es ts
    else c_tasks ca' = c_tasks ca"
proof -
  let ?i = "bc_name (pb_config c)"
  have ct: "collectTasks (bo_api po) c (bo_taskclk po) =
      (case those (map (\<lambda>x. dec_task ?i (Some x)) (map JObj es)) of None \<Rightarrow> Inl BadData | Some ts \<Rightarrow> Inr ts)"
    unfolding collectTasks_def Let_def week_before pbs_data_def assms(2)
    by (simp add: assms(3) del: map_map split: option.split)
  obtain dss where d: "poll_datastores (bo_api po) c = Inr dss"
    using assms(1) by (auto simp: pbs_Collect_def split: sum.splits)
  have ca': "c_tasks ca' = (case collectTasks (bo_api po) c (bo_taskclk po) of
      Inl e \<Rightarrow> c_tasks ca | Inr ts \<Rightarrow> gm_put ?i ts (c_tasks ca))"
    using assms(1) by (auto simp: pbs_Collect_def d Let_def pbs_cache_def cache_ops split: sum.split)
  have all: "(\<exists>ts. list_all2 (task_entry ?i) es ts) \<longleftrightarrow> (\<forall>e \<in> set es. \<exists>t. task_entry ?i e t)"
    by (induction es) (auto simp: list_all2_Cons1)
  show ?thesis
  proof (cases "those (map (\<lambda>x. dec_task ?i (Some x)) (map JObj es))")
    case None
    then have "\<nexists>ts. list_all2 (task_entry ?i) es ts" by (metis option.distinct(1) tasks_decoded)
    with all None show ?thesis by (simp add: ca' ct del: map_map)
  next
    case (Some ts)
    then have "list_all2 (task_entry ?i) es ts" by (simp only: tasks_decoded)
    with all Some show ?thesis by (auto simp add: ca' ct simp del: map_map)
  qed
qed

text \<open>A server that answers every request with the same list.\<close>

definition sample_entries :: "(string \<times> json) list list" where
  "sample_entries = [[(''worker_type'', JStr ''verificationjob''), (''upid'', JStr ''u1''), (''starttime'', JNum ''7'')],
     [(''worker_type'', JStr ''prune''), (''worker_id'', JStr ''d'')]]"

definition sample_api :: api_env where
  "sample_api = \<lparr>ae_ok = \<lambda>_. True, ae_get = \<lambda>_. Answer 200 (Some (JObj [(''data'', JArr (map JObj sample_entries))])),
     ae_oor = \<lambda>_. 0, ae_fmtv = \<lambda>_. []\<rparr>"

definition sample_pbs :: pbs where
  "sample_pbs = NewPBSCollector \<lparr>bc_name = ''pbs1'', bc_host = ''h'', bc_tokenid = [], bc_secret = [],
     bc_datastores = [], bc_interval = 0\<rparr>"

definition sample_pbs_poll :: pbs_env where
  "sample_pbs_poll = \<lparr>bo_api = sample_api, bo_now = 0, bo_taskclk = 0, bo_rank = \<lambda>_. 0, bo_dserr = \<lambda>_. False,
     bo_backuperr = \<lambda>_. False\<rparr>"

theorem polled_tasks_witness:
  "case pbs_Collect sample_pbs_poll sample_pbs (cache_new, empty_store) of (err, ca, s) \<Rightarrow>
     (case gm_get (c_tasks ca) ''pbs1'' of
        Some [t1, t2] \<Rightarrow> t_type t1 = ''verify'' \<and> t_upid t1 = ''u1'' \<and> t_start t1 = 7 \<and> t_type t2 = ''prune'' \<and> t_id t2 = ''d''
      | _ \<Rightarrow> False)"
proof -
  have "poll_datastores sample_api sample_pbs \<noteq> Inl e" for e
  proof -
    have "case poll_datastores sample_api sample_pbs of Inl e \<Rightarrow> False | _ \<Rightarrow> True" by code_simp
    then show ?thesis by auto
  qed
  then obtain ca s where p: "pbs_Collect sample_pbs_poll sample_pbs (cache_new, empty_store) = (None, ca, s)"
    by (cases "poll_datastores sample_api sample_pbs") (auto simp: pbs_Collect_def sample_pbs_poll_def Let_def)
  have g: "pbs_get (bo_api sample_pbs_poll) sample_pbs path = Inr (Some (JObj [(''data'', JArr (map JObj sample_entries))]))" for path
    by (simp add: pbs_get_def do_get_def sample_pbs_poll_def sample_api_def Let_def)
  have n: "bc_name (pb_config sample_pbs) = ''pbs1''" by (simp add: sample_pbs_def NewPBSCollector_def)
  have f: "jfield ''data'' [(''data'', x)] = Some x" for x by (simp add: jfield_def lower_byte_def)
  have t: "task_entry ''pbs1'' (sample_entries ! 0) \<lparr>t_instance = ''pbs1'', t_upid = ''u1'', t_type = ''verify'', t_id = [],
      t_start = 7, t_end = None, t_status = [], t_user = []\<rparr>"
    "task_entry ''pbs1'' (sample_entries ! 1) \<lparr>t_instance = ''pbs1'', t_upid = [], t_type = ''prune'', t_id = ''d'',
      t_start = 0, t_end = None, t_status = [], t_user = []\<rparr>"
    by code_simp+
  have l: "sample_entries = [sample_entries ! 0, sample_entries ! 1]" by (simp add: sample_entries_def)
  have u: "task_entry i e x \<Longrightarrow> task_entry i e y \<Longrightarrow> x = y" for i e x y
    by (metis option.inject task_decoded)
  have "\<forall>e \<in> set sample_entries. \<exists>t. task_entry ''pbs1'' e t" using t by (subst l) auto
  with polled_tasks [OF p g f, unfolded n] obtain ts where
    ts: "gm_get (c_tasks ca) ''pbs1'' = Some ts" "list_all2 (task_entry ''pbs1'') sample_entries ts" by auto
  from ts(2) obtain x y where "ts = [x, y]" "task_entry ''pbs1'' (sample_entries ! 0) x" "task_entry ''pbs1'' (sample_entries ! 1) y"
    by (subst (asm) l) (auto simp: list_all2_Cons1)
  with u [OF this(2) t(1)] u [OF this(3) t(2)] p ts(1) show ?thesis by simp
qed

end
