(* ===== verification/Pruner.thy ===== *)
theory Pruner
  imports Store
begin

text \<open>
  \<open>internal/store/pruner.go\<close>: the rows past their retention are deleted at the start and every hour. A
  table whose statement the database fails is skipped until the next time. Parameters: the clock,
  the tables that fail, and the platform's conversion \<open>oor\<close> of an out-of-range \<open>float64\<close>.
\<close>

record retention =
  re_nodes :: duration
  re_guests :: duration
  re_smart :: duration
  re_backups :: duration
  re_datastores :: duration
  re_alerts :: duration

definition DefaultRetention :: retention where
  "DefaultRetention = \<lparr>re_nodes = 48 * hour, re_guests = 48 * hour, re_smart = 30 * 24 * hour,
     re_backups = 7 * 24 * hour, re_datastores = 7 * 24 * hour, re_alerts = 30 * 24 * hour\<rparr>"

datatype snap_table = NodeSnapshots | GuestSnapshots | SMARTSnapshots | BackupSnapshots
  | DatastoreSnapshots | AlertLog

definition prune_tables :: "retention \<Rightarrow> (snap_table \<times> duration) list" where
  "prune_tables r = [(NodeSnapshots, re_nodes r), (GuestSnapshots, re_guests r), (SMARTSnapshots, re_smart r),
     (BackupSnapshots, re_backups r), (DatastoreSnapshots, re_datastores r), (AlertLog, re_alerts r)]"

fun delete_older :: "snap_table \<Rightarrow> int \<Rightarrow> store \<Rightarrow> store" where
  "delete_older NodeSnapshots c s = s\<lparr>st_nodes := delete_before ns_ts c (st_nodes s)\<rparr>"
| "delete_older GuestSnapshots c s = s\<lparr>st_guests := delete_before gs_ts c (st_guests s)\<rparr>"
| "delete_older SMARTSnapshots c s = s\<lparr>st_smart := delete_before sr_ts c (st_smart s)\<rparr>"
| "delete_older BackupSnapshots c s = s\<lparr>st_backups := delete_before br_ts c (st_backups s)\<rparr>"
| "delete_older DatastoreSnapshots c s = s\<lparr>st_datastores := delete_before wr_ts c (st_datastores s)\<rparr>"
| "delete_older AlertLog c s = s\<lparr>st_alerts := filter (\<lambda>r. \<not> ar_ts r < c) (st_alerts s)\<rparr>"

definition cutoff :: "(f64 \<Rightarrow> int) \<Rightarrow> gotime \<Rightarrow> duration \<Rightarrow> int" where
  "cutoff oor now d = wrap64 (unix_of_time now - f64_to_i64 oor (dur_seconds d))"

definition prune :: "(f64 \<Rightarrow> int) \<Rightarrow> retention \<Rightarrow> gotime \<Rightarrow> (snap_table \<Rightarrow> bool) \<Rightarrow> store \<Rightarrow> store" where
  "prune oor r now fails s =
     fold (\<lambda>(t, d) s. if fails t then s else delete_older t (cutoff oor now d) s) (prune_tables r) s"

text \<open>\<open>Run\<close>: once at the start, then at every tick.\<close>

definition pruner_run :: "(f64 \<Rightarrow> int) \<Rightarrow> retention \<Rightarrow> (gotime \<times> (snap_table \<Rightarrow> bool)) list \<Rightarrow> store \<Rightarrow> store" where
  "pruner_run oor r ticks s = fold (\<lambda>(now, fails). prune oor r now fails) ticks s"

section \<open>The cut-off\<close>

lemma dur_seconds_whole: "0 \<le> k \<Longrightarrow> k \<le> 9000000000 \<Longrightarrow> dur_seconds (k * second) = Fin (of_int k)"
proof -
  assume k: "0 \<le> k" "k \<le> 9000000000"
  have "k * second sdiv second = k" "k * second smod second = 0"
    using sdiv_nonneg [of "k * second" second] k by simp_all
  moreover have "rnd (of_int k) = Fin (of_int k)" using k by (intro rnd_int_exact) simp
  ultimately show ?thesis by (simp add: dur_seconds_def dur_in_def)
qed

lemma cutoff_whole:
  assumes "0 \<le> k" and "k \<le> 9000000000" and "in_i64 (unix_of_time now - k)"
  shows "cutoff oor now (k * second) = unix_of_time now - k"
proof -
  have "in_i64 k" using assms by (simp add: in_i64_def)
  then have "f64_to_i64 oor (Fin (of_int k)) = k"
    by (simp add: f64_to_i64_def trunc_rat_def in_i64_def)
  with assms show ?thesis by (simp add: cutoff_def dur_seconds_whole)
qed

section \<open>What is deleted\<close>

definition fresh_since :: "int \<Rightarrow> int option \<Rightarrow> bool" where
  "fresh_since c t \<longleftrightarrow> (case t of None \<Rightarrow> False | Some u \<Rightarrow> c \<le> u)"

lemma prune_parts:
  "st_nodes (prune oor r now f s) = (if f NodeSnapshots then st_nodes s
     else delete_before ns_ts (cutoff oor now (re_nodes r)) (st_nodes s))"
  "st_guests (prune oor r now f s) = (if f GuestSnapshots then st_guests s
     else delete_before gs_ts (cutoff oor now (re_guests r)) (st_guests s))"
  "st_smart (prune oor r now f s) = (if f SMARTSnapshots then st_smart s
     else delete_before sr_ts (cutoff oor now (re_smart r)) (st_smart s))"
  "st_backups (prune oor r now f s) = (if f BackupSnapshots then st_backups s
     else delete_before br_ts (cutoff oor now (re_backups r)) (st_backups s))"
  "st_datastores (prune oor r now f s) = (if f DatastoreSnapshots then st_datastores s
     else delete_before wr_ts (cutoff oor now (re_datastores r)) (st_datastores s))"
  "st_alerts (prune oor r now f s) = (if f AlertLog then st_alerts s
     else filter (\<lambda>a. \<not> ar_ts a < cutoff oor now (re_alerts r)) (st_alerts s))"
  "st_pve (prune oor r now f s) = st_pve s" "st_pbs (prune oor r now f s) = st_pbs s"
  "st_disks (prune oor r now f s) = st_disks s" "st_nextid (prune oor r now f s) = st_nextid s"
  by (simp_all add: prune_def prune_tables_def)

text \<open>The rows of a table that a pruning leaves: those that are at most \<open>age\<close> seconds old, and all when the statement
  fails.\<close>

definition kept :: "bool \<Rightarrow> ('r \<Rightarrow> int) \<Rightarrow> gotime \<Rightarrow> int \<Rightarrow> 'r option \<Rightarrow> 'r option" where
  "kept failed ts now age row =
     (case row of None \<Rightarrow> None
      | Some r \<Rightarrow> if failed \<or> unix_of_time now - ts r \<le> age then Some r else None)"

lemma kept_deleted:
  "(if failed then row else case row of None \<Rightarrow> None | Some r \<Rightarrow> if ts r < unix_of_time now - age then None else Some r) =
    kept failed ts now age row"
  by (auto simp: kept_def split: option.split)

text \<open>C20: Pruning with the default retention, on every table. A row of a node or a guest is there afterwards exactly if
  it was before and is at most 48 hours old, a SMART row 30 days, a backup or datastore row 7 days, an alert
  30 days, in the same order; a table whose statement fails keeps all its rows; and the disks, the
  instances and the numbering of alerts are never touched.\<close>

theorem prune_exact:
  assumes "nodes.keyed (st_nodes s)" and "guests.keyed (st_guests s)" and "smart.keyed (st_smart s)"
    and "backups.keyed (st_backups s)" and "datastores.keyed (st_datastores s)"
    and "in_i64 (unix_of_time now)" and "in_i64 (unix_of_time now - 2592000)"
  shows "let s' = prune oor DefaultRetention now f s in
    gm_get (st_nodes s') kn = kept (f NodeSnapshots) ns_ts now 172800 (gm_get (st_nodes s) kn) \<and>
    gm_get (st_guests s') kg = kept (f GuestSnapshots) gs_ts now 172800 (gm_get (st_guests s) kg) \<and>
    gm_get (st_smart s') ks = kept (f SMARTSnapshots) sr_ts now 2592000 (gm_get (st_smart s) ks) \<and>
    gm_get (st_backups s') kb = kept (f BackupSnapshots) br_ts now 604800 (gm_get (st_backups s) kb) \<and>
    gm_get (st_datastores s') kd = kept (f DatastoreSnapshots) wr_ts now 604800 (gm_get (st_datastores s) kd) \<and>
    st_alerts s' = filter (\<lambda>a. f AlertLog \<or> unix_of_time now - ar_ts a \<le> 2592000) (st_alerts s) \<and>
    st_disks s' = st_disks s \<and> st_pve s' = st_pve s \<and> st_pbs s' = st_pbs s \<and> st_nextid s' = st_nextid s"
proof -
  have r: "in_i64 (unix_of_time now - 172800)" "in_i64 (unix_of_time now - 604800)"
    using assms(6,7) by (auto simp: in_i64_def)
  have c: "cutoff oor now (re_nodes DefaultRetention) = unix_of_time now - 172800"
      "cutoff oor now (re_guests DefaultRetention) = unix_of_time now - 172800"
      "cutoff oor now (re_smart DefaultRetention) = unix_of_time now - 2592000"
      "cutoff oor now (re_backups DefaultRetention) = unix_of_time now - 604800"
      "cutoff oor now (re_datastores DefaultRetention) = unix_of_time now - 604800"
      "cutoff oor now (re_alerts DefaultRetention) = unix_of_time now - 2592000"
    using cutoff_whole [of 172800 now oor] cutoff_whole [of 2592000 now oor] cutoff_whole [of 604800 now oor] assms(7) r
    by (simp_all add: DefaultRetention_def)
  have a: "filter (\<lambda>a. f AlertLog \<or> unix_of_time now - ar_ts a \<le> 2592000) (st_alerts s) =
      (if f AlertLog then st_alerts s else filter (\<lambda>a. \<not> ar_ts a < unix_of_time now - 2592000) (st_alerts s))"
    by (auto intro!: filter_cong)
  show ?thesis
    unfolding Let_def prune_parts c a kept_deleted [symmetric]
    by (simp add: nodes.get_delete [OF assms(1)] guests.get_delete [OF assms(2)] smart.get_delete [OF assms(3)]
        backups.get_delete [OF assms(4)] datastores.get_delete [OF assms(5)])
qed

text \<open>A store with an old and a new row of a guest and an old backup.\<close>

definition dated_guest :: "int \<Rightarrow> guest_snapshot" where
  "dated_guest t = \<lparr>gs_ts = t, gs_instance = ''pve'', gs_vmid = 100, gs_node = ''n'', gs_cluster = ''pve'', gs_type = ''lxc'',
     gs_name = ''web'', gs_status = ''running'', gs_cpu = Fin 1, gs_cpus = 1, gs_memused = 0, gs_memtotal = 0,
     gs_diskused = 0, gs_disktotal = 0, gs_netin = 0, gs_netout = 0\<rparr>"

definition old_backup :: backup_row where
  "old_backup = \<lparr>br_ts = 2000000, br_instance = ''pbs'', br_datastore = ''d'', br_type = ''ct'', br_id = ''100'',
     br_time = 1, br_size = None, br_verified = None\<rparr>"

definition aged_store :: store where
  "aged_store = empty_store\<lparr>
     st_guests := [(guest_key (dated_guest 2800000), dated_guest 2800000), (guest_key (dated_guest 2900000), dated_guest 2900000)],
     st_backups := [(backup_key old_backup, old_backup)]\<rparr>"

theorem prune_exact_witness:
  "(let s' = prune (\<lambda>_. 0) DefaultRetention (3000000 * second) (\<lambda>t. t = BackupSnapshots) aged_store in
     gm_get (st_guests s') (2800000, ''pve'', 100) = None \<and>
     gm_get (st_guests s') (2900000, ''pve'', 100) = Some (dated_guest 2900000) \<and>
     gm_get (st_backups s') (backup_key old_backup) = Some old_backup) \<and>
   gm_get (st_backups (prune (\<lambda>_. 0) DefaultRetention (3000000 * second) (\<lambda>_. False) aged_store)) (backup_key old_backup) = None"
proof -
  have k: "nodes.keyed (st_nodes aged_store)" "guests.keyed (st_guests aged_store)" "smart.keyed (st_smart aged_store)"
    "backups.keyed (st_backups aged_store)" "datastores.keyed (st_datastores aged_store)"
    by (simp_all add: aged_store_def empty_store_def)
      (simp_all add: guests.keyed_def backups.keyed_def wf_gomap_def guest_key_def dated_guest_def)
  have u: "unix_of_time (3000000 * second) = 3000000" by (simp add: unix_of_time_def)
  note p = prune_exact [OF k, of "3000000 * second" "\<lambda>_. 0", unfolded u Let_def]
  have g: "gm_get (st_guests aged_store) (2800000, ''pve'', 100) = Some (dated_guest 2800000)"
    "gm_get (st_guests aged_store) (2900000, ''pve'', 100) = Some (dated_guest 2900000)"
    "gm_get (st_backups aged_store) (backup_key old_backup) = Some old_backup"
    by (simp_all add: aged_store_def guest_key_def dated_guest_def)
  have t: "gs_ts (dated_guest x) = x" "br_ts old_backup = 2000000" for x by (simp_all add: dated_guest_def old_backup_def)
  show ?thesis
    using p [of "\<lambda>t. t = BackupSnapshots" undefined "(2800000, ''pve'', 100)" undefined "backup_key old_backup" undefined]
      p [of "\<lambda>t. t = BackupSnapshots" undefined "(2900000, ''pve'', 100)" undefined "backup_key old_backup" undefined]
      p [of "\<lambda>_. False" undefined "(2900000, ''pve'', 100)" undefined "backup_key old_backup" undefined]
    by (simp add: g kept_def unix_of_time_def t in_i64_def Let_def)
qed

text \<open>Pruning commutes with recording. A node row no older than the cut-off may be stored before or
  after a pruning: every lookup gives the same, so a poll that runs at the same time as the pruner
  loses nothing.\<close>

theorem prune_insert_commute:
  assumes "nodes.keyed (st_nodes s)" and "cutoff oor now (re_nodes ret) \<le> ns_ts r"
  shows "gm_get (st_nodes (prune oor ret now f (snd (InsertNodeSnapshot e r s)))) =
    gm_get (st_nodes (snd (InsertNodeSnapshot e r (prune oor ret now f s))))"
  using nodes.put_delete [OF assms(1), of "cutoff oor now (re_nodes ret)" "r\<lparr>ns_cputemp := real_null (ns_cputemp r)\<rparr>"]
    assms(2)
  by (simp add: prune_parts insert_node_nodes node_key_def put_row_def)

theorem prune_insert_commute_witness:
  "gm_get (st_nodes (prune (\<lambda>_. 0) DefaultRetention (200000 * second) (\<lambda>_. False)
     (snd (InsertNodeSnapshot False (sample_row 100000 1 2) empty_store)))) =
   gm_get (st_nodes (snd (InsertNodeSnapshot False (sample_row 100000 1 2)
     (prune (\<lambda>_. 0) DefaultRetention (200000 * second) (\<lambda>_. False) empty_store))))"
proof -
  have "cutoff (\<lambda>_. 0) (200000 * second) (re_nodes DefaultRetention) = 27200"
    using cutoff_whole [of 172800 "200000 * second" "\<lambda>_. 0"]
    by (simp add: DefaultRetention_def unix_of_time_def in_i64_def)
  then show ?thesis
    by (intro prune_insert_commute) (simp_all add: empty_store_def sample_row_def)
qed

end
