(* ===== verification/Alerter.thy ===== *)
theory Alerter
  imports Cache
begin

text \<open>
  \<open>internal/alerter/alerter.go\<close>: the alert rules, evaluated against a snapshot of the cache every 30
  seconds. The state is the alerter's two maps; what an alert does to the outside (a row of the
  alert log, one message per provider, whose errors are only logged) is appended to \<open>al_effects\<close>,
  and \<open>al_fires\<close> records the key and the time of each alert for the proofs; no definition reads
  either. The readings of the clock are parameters: \<open>now\<close> for the evaluation and \<open>clk\<close> for the age of
  each backup.
\<close>

record threshold_alert =
  ta_threshold :: f64
  ta_duration :: duration
  ta_severity :: string
  ta_cooldown :: duration

record guest_alert =
  ga_grace :: duration
  ga_severity :: string
  ga_cooldown :: duration

record backup_alert =
  ba_maxage :: duration
  ba_severity :: string
  ba_cooldown :: duration

record simple_alert =
  sa_severity :: string
  sa_cooldown :: duration

record alert_config =
  ac_nodecpu :: "threshold_alert option"
  ac_nodemem :: "threshold_alert option"
  ac_guestdown :: "guest_alert option"
  ac_backupstale :: "backup_alert option"
  ac_disksmart :: "simple_alert option"
  ac_dsfull :: "threshold_alert option"

definition DefaultAlertConfig :: alert_config where
  "DefaultAlertConfig =
     \<lparr>ac_nodecpu = Some \<lparr>ta_threshold = Fin 90, ta_duration = 5 * minute, ta_severity = ''warning'',
        ta_cooldown = 1 * hour\<rparr>,
      ac_nodemem = Some \<lparr>ta_threshold = Fin 90, ta_duration = 5 * minute, ta_severity = ''warning'',
        ta_cooldown = 1 * hour\<rparr>,
      ac_guestdown = Some \<lparr>ga_grace = 2 * minute, ga_severity = ''critical'', ga_cooldown = 30 * minute\<rparr>,
      ac_backupstale = Some \<lparr>ba_maxage = 36 * hour, ba_severity = ''warning'', ba_cooldown = 6 * hour\<rparr>,
      ac_disksmart = Some \<lparr>sa_severity = ''critical'', sa_cooldown = 6 * hour\<rparr>,
      ac_dsfull = Some \<lparr>ta_threshold = Fin 85, ta_duration = 0, ta_severity = ''warning'',
        ta_cooldown = 6 * hour\<rparr>\<rparr>"

datatype effect =
    InsertAlert int string string string string string
  | SendTo string notification

record alerter =
  al_providers :: "string list"
  al_config :: alert_config
  al_fired :: "(string, gotime) gomap"
  al_sustained :: "(string, gotime) gomap"
  al_effects :: "effect list"
  al_fires :: "(string \<times> gotime) list"

definition NewAlerter :: "string list \<Rightarrow> alert_config \<Rightarrow> alerter" where
  "NewAlerter providers cfg = \<lparr>al_providers = providers, al_config = cfg, al_fired = [],
     al_sustained = [], al_effects = [], al_fires = []\<rparr>"

definition cleanup :: "gotime \<Rightarrow> alerter \<Rightarrow> alerter" where
  "cleanup now a =
     (let maxAge = 6 * hour
      in a\<lparr>al_fired := gm_expire (\<lambda>t. time_sub now t > maxAge) (al_fired a),
           al_sustained := gm_expire (\<lambda>t. time_sub now t > maxAge) (al_sustained a)\<rparr>)"

definition fire :: "gotime \<Rightarrow> string \<Rightarrow> duration \<Rightarrow> notification \<Rightarrow> alerter \<Rightarrow> alerter" where
  "fire now key cooldown notif a =
     (if (case gm_get (al_fired a) key of Some prev \<Rightarrow> time_sub now prev < cooldown | None \<Rightarrow> False)
      then a
      else a\<lparr>al_fired := gm_put key now (al_fired a),
             al_effects := al_effects a @
               InsertAlert (unix_of_time now) (nt_type notif) (nt_instance notif) (nt_subject notif)
                 (nt_message notif) (nt_severity notif) #
               map (\<lambda>p. SendTo p notif) (al_providers a),
             al_fires := al_fires a @ [(key, now)]\<rparr>)"

definition checkSustainedThreshold :: "gotime \<Rightarrow> string \<Rightarrow> f64 \<Rightarrow> threshold_alert \<Rightarrow> notification \<Rightarrow>
    alerter \<Rightarrow> alerter" where
  "checkSustainedThreshold now key value cfg notif a =
     (if fle (ta_threshold cfg) value then
        (case gm_get (al_sustained a) key of
           Some first \<Rightarrow>
             if time_sub now first \<ge> ta_duration cfg then fire now key (ta_cooldown cfg) notif a else a
         | None \<Rightarrow> a\<lparr>al_sustained := gm_put key now (al_sustained a)\<rparr>)
      else a\<lparr>al_sustained := gm_del key (al_sustained a)\<rparr>)"

definition fmt0 :: "f64 \<Rightarrow> string" where
  "fmt0 x = fmt_fixed 0 x"

definition percent :: "f64 \<Rightarrow> f64" where
  "percent x = fmul x (Fin 100)"

section \<open>The rules, as evaluate runs them\<close>

definition check_node_cpu :: "gotime \<Rightarrow> string \<Rightarrow> node \<Rightarrow> alerter \<Rightarrow> alerter" where
  "check_node_cpu now inst nd a =
     (case ac_nodecpu (al_config a) of
        None \<Rightarrow> a
      | Some cfg \<Rightarrow>
          checkSustainedThreshold now (''node_cpu:'' @ inst @ ''/'' @ n_name nd) (percent (n_cpu nd)) cfg
            \<lparr>nt_type = ''node_cpu_high'', nt_severity = ta_severity cfg,
             nt_title = ''Node CPU High: '' @ inst @ ''/'' @ n_name nd,
             nt_message = ''['' @ inst @ ''/'' @ n_name nd @ ''] CPU at '' @ fmt0 (percent (n_cpu nd)) @
               ''% for 5+ minutes'',
             nt_instance = inst, nt_subject = n_name nd, nt_timestamp = now, nt_resolved = False,
             nt_metadata = [(''value'', fmt0 (percent (n_cpu nd)))]\<rparr> a)"

definition check_node_mem :: "gotime \<Rightarrow> string \<Rightarrow> node \<Rightarrow> alerter \<Rightarrow> alerter" where
  "check_node_mem now inst nd a =
     (case ac_nodemem (al_config a) of
        None \<Rightarrow> a
      | Some cfg \<Rightarrow>
          if us_total (n_memory nd) > 0 then
            (let memPct = pct_of (us_used (n_memory nd)) (us_total (n_memory nd))
             in checkSustainedThreshold now (''node_mem:'' @ inst @ ''/'' @ n_name nd) memPct cfg
                  \<lparr>nt_type = ''node_mem_high'', nt_severity = ta_severity cfg,
                   nt_title = ''Node Memory High: '' @ inst @ ''/'' @ n_name nd,
                   nt_message = ''['' @ inst @ ''/'' @ n_name nd @ ''] Memory at '' @ fmt0 memPct @
                     ''% for 5+ minutes'',
                   nt_instance = inst, nt_subject = n_name nd, nt_timestamp = now, nt_resolved = False,
                   nt_metadata = [(''value'', fmt0 memPct)]\<rparr> a)
          else a)"

definition check_guest :: "gotime \<Rightarrow> guest_alert \<Rightarrow> string \<Rightarrow> guest \<Rightarrow> alerter \<Rightarrow> alerter" where
  "check_guest now cfg clusterID g a =
     (let key = ''guest_down:'' @ clusterID @ ''/'' @ itoa (g_vmid g)
      in if g_status g \<noteq> ''running'' then
           (case gm_get (al_sustained a) key of
              Some first \<Rightarrow>
                if time_sub now first \<ge> ga_grace cfg then
                  fire now key (ga_cooldown cfg)
                    \<lparr>nt_type = ''guest_down'', nt_severity = ga_severity cfg,
                     nt_title = ''Guest Down: '' @ g_name g @ '' ('' @ itoa (g_vmid g) @ '')'',
                     nt_message = ''['' @ g_instance g @ ''] '' @ g_name g @ '' (ID '' @ itoa (g_vmid g) @
                       '') is '' @ g_status g,
                     nt_instance = g_instance g, nt_subject = g_name g, nt_timestamp = now,
                     nt_resolved = False,
                     nt_metadata = [(''vmid'', itoa (g_vmid g)), (''status'', g_status g)]\<rparr> a
                else a
            | None \<Rightarrow> a\<lparr>al_sustained := gm_put key now (al_sustained a)\<rparr>)
         else a\<lparr>al_sustained := gm_del key (al_sustained a)\<rparr>)"

definition backup_age :: "gotime \<Rightarrow> backup \<Rightarrow> duration" where
  "backup_age t b = time_sub t (time_of_unix (b_time b))"

definition check_backup :: "gotime \<Rightarrow> (string \<Rightarrow> string \<Rightarrow> gotime) \<Rightarrow> backup_alert \<Rightarrow> string \<Rightarrow>
    string \<times> backup \<Rightarrow> alerter \<Rightarrow> alerter" where
  "check_backup now clk cfg pbs = (\<lambda>(i, b) a.
     let age = backup_age (clk pbs i) b
     in if age > ba_maxage cfg then
          fire now (''backup_stale:'' @ pbs @ ''/'' @ i) (ba_cooldown cfg)
            \<lparr>nt_type = ''backup_stale'', nt_severity = ba_severity cfg,
             nt_title = ''Backup Stale: '' @ b_type b @ ''/'' @ b_id b @ '' '' @ pbs,
             nt_message = ''['' @ pbs @ ''] '' @ b_type b @ ''/'' @ b_id b @ '' last backup '' @
               fmt0 (dur_hours age) @ ''h ago'',
             nt_instance = pbs, nt_subject = b_id b, nt_timestamp = now, nt_resolved = False,
             nt_metadata = [(''age'', fmt0 (dur_hours age) @ ''h''), (''backup_type'', b_type b)]\<rparr> a
        else a)"

definition check_disk :: "gotime \<Rightarrow> simple_alert \<Rightarrow> string \<times> disk \<Rightarrow> alerter \<Rightarrow> alerter" where
  "check_disk now cfg = (\<lambda>(wwn, d) a.
     let a = (if d_health d = ''FAILED'' \<or> d_status d AND StatusFailedSmart \<noteq> 0 then
                fire now (''disk_smart:'' @ wwn) (sa_cooldown cfg)
                  \<lparr>nt_type = ''disk_smart_failed'', nt_severity = sa_severity cfg,
                   nt_title = ''Disk SMART Failed: '' @ d_devpath d,
                   nt_message = ''['' @ d_instance d @ ''/'' @ d_node d @ ''] '' @ d_devpath d @ '' ('' @
                     d_model d @ '') SMART health: '' @ d_health d,
                   nt_instance = d_instance d, nt_subject = d_devpath d, nt_timestamp = now,
                   nt_resolved = False,
                   nt_metadata = [(''wwn'', wwn), (''model'', d_model d)]\<rparr> a
              else a)
     in if d_status d AND StatusWarnScrutiny \<noteq> 0 \<or> d_status d AND StatusFailedScrutiny \<noteq> 0 then
          fire now (''disk_scrutiny:'' @ wwn) (sa_cooldown cfg)
            \<lparr>nt_type = ''disk_scrutiny_warning'', nt_severity = ''warning'',
             nt_title = ''Disk Scrutiny Warning: '' @ d_devpath d,
             nt_message = ''['' @ d_instance d @ ''/'' @ d_node d @ ''] '' @ d_devpath d @ '' ('' @
               d_model d @ '') has elevated SMART risk indicators'',
             nt_instance = d_instance d, nt_subject = d_devpath d, nt_timestamp = now,
             nt_resolved = False,
             nt_metadata = [(''wwn'', wwn), (''model'', d_model d)]\<rparr> a
        else a)"

definition check_datastore :: "gotime \<Rightarrow> threshold_alert \<Rightarrow> string \<Rightarrow> datastore_status \<Rightarrow> alerter \<Rightarrow> alerter" where
  "check_datastore now cfg pbs ds a =
     (let a = (case (ds_total ds, ds_used ds) of
                 (Some tot, Some used) \<Rightarrow>
                   if tot > 0 then
                     (let pct = pct_of used tot
                      in if fle (ta_threshold cfg) pct then
                           fire now (''ds_full:'' @ pbs @ ''/'' @ ds_name ds) (ta_cooldown cfg)
                             \<lparr>nt_type = ''datastore_full'', nt_severity = ta_severity cfg,
                              nt_title = ''Datastore Full: '' @ pbs @ ''/'' @ ds_name ds,
                              nt_message = ''['' @ pbs @ ''] Datastore '' @ ds_name ds @ '' at '' @
                                fmt0 pct @ ''% capacity'',
                              nt_instance = pbs, nt_subject = ds_name ds, nt_timestamp = now,
                              nt_resolved = False, nt_metadata = [(''usage_pct'', fmt0 pct)]\<rparr> a
                         else a)
                   else a
               | _ \<Rightarrow> a)
      in case ds_error ds of
           None \<Rightarrow> a
         | Some err \<Rightarrow>
             fire now (''ds_offline:'' @ pbs @ ''/'' @ ds_name ds) (1 * hour)
               \<lparr>nt_type = ''datastore_offline'', nt_severity = ''critical'',
                nt_title = ''Datastore Offline: '' @ pbs @ ''/'' @ ds_name ds,
                nt_message = ''['' @ pbs @ ''] Datastore '' @ ds_name ds @ '' error: '' @ err,
                nt_instance = pbs, nt_subject = ds_name ds, nt_timestamp = now,
                nt_resolved = False, nt_metadata = []\<rparr> a)"

definition evaluate :: "cache \<Rightarrow> gotime \<Rightarrow> (string \<Rightarrow> string \<Rightarrow> gotime) \<Rightarrow> alerter \<Rightarrow> alerter" where
  "evaluate c now clk a =
     (let snap = Snapshot c;
          a = cleanup now a;
          a = fold (\<lambda>(inst, nodes). fold (\<lambda>(_, nd) a. check_node_mem now inst nd (check_node_cpu now inst nd a)) nodes)
                (c_nodes snap) a;
          a = (case ac_guestdown (al_config a) of None \<Rightarrow> a
               | Some cfg \<Rightarrow>
                   fold (\<lambda>(cid, guests). fold (\<lambda>(_, g). check_guest now cfg cid g) guests) (c_guests snap) a);
          a = (case ac_backupstale (al_config a) of None \<Rightarrow> a
               | Some cfg \<Rightarrow>
                   fold (\<lambda>(pbs, backups). fold (check_backup now clk cfg pbs) backups) (c_backups snap) a);
          a = (case ac_disksmart (al_config a) of None \<Rightarrow> a
               | Some cfg \<Rightarrow> fold (check_disk now cfg) (c_disks snap) a)
      in case ac_dsfull (al_config a) of None \<Rightarrow> a
         | Some cfg \<Rightarrow>
             fold (\<lambda>(pbs, stores). fold (\<lambda>(_, ds). check_datastore now cfg pbs ds) stores) (c_datastores snap) a)"

text \<open>For severities of ASCII letters; nothing in the program calls it.\<close>

definition FormatSeverity :: "string \<Rightarrow> string" where
  "FormatSeverity s = map upper_byte s"

section \<open>A sequence of evaluations\<close>

text \<open>What \<open>Run\<close> does at each tick: the cache it finds, the time, and the clock readings for the
  backups.\<close>

record tick =
  tk_cache :: cache
  tk_now :: gotime
  tk_clk :: "string \<Rightarrow> string \<Rightarrow> gotime"

definition alerter_run :: "tick list \<Rightarrow> alerter \<Rightarrow> alerter" where
  "alerter_run ticks a = fold (\<lambda>t. evaluate (tk_cache t) (tk_now t) (tk_clk t)) ticks a"

end
