(* ===== verification/AlertRules.thy ===== *)
theory AlertRules
  imports Alerter
begin

text \<open>
  The abstract specification of the alerter: one evaluation is a list of rules, each with its key, a
  condition on the snapshot, how long the condition must hold, and a cooldown; every rule is
  applied the same way. \<open>evaluate_rules\<close> proves that the nested loops of \<open>evaluate\<close> do exactly this;
  the properties of the alerter are then proved once, for any list of rules.
\<close>

record rule =
  ru_key :: string
  ru_holds :: bool
  ru_for :: "duration option"
  ru_cooldown :: duration
  ru_notif :: notification

definition apply_rule :: "gotime \<Rightarrow> rule \<Rightarrow> alerter \<Rightarrow> alerter" where
  "apply_rule now r a =
     (case ru_for r of
        None \<Rightarrow> if ru_holds r then fire now (ru_key r) (ru_cooldown r) (ru_notif r) a else a
      | Some h \<Rightarrow>
          if ru_holds r then
            (case gm_get (al_sustained a) (ru_key r) of
               Some first \<Rightarrow> if time_sub now first \<ge> h
                 then fire now (ru_key r) (ru_cooldown r) (ru_notif r) a else a
             | None \<Rightarrow> a\<lparr>al_sustained := gm_put (ru_key r) now (al_sustained a)\<rparr>)
          else a\<lparr>al_sustained := gm_del (ru_key r) (al_sustained a)\<rparr>)"

definition mk_rule :: "string \<Rightarrow> bool \<Rightarrow> duration option \<Rightarrow> duration \<Rightarrow> notification \<Rightarrow> rule" where
  "mk_rule key c h cd n = \<lparr>ru_key = key, ru_holds = c, ru_for = h, ru_cooldown = cd, ru_notif = n\<rparr>"

lemma mk_rule_sel [simp]:
  "ru_key (mk_rule k c h cd n) = k" "ru_holds (mk_rule k c h cd n) = c" "ru_for (mk_rule k c h cd n) = h"
  "ru_cooldown (mk_rule k c h cd n) = cd" "ru_notif (mk_rule k c h cd n) = n"
  by (simp_all add: mk_rule_def)

section \<open>The rules of a snapshot\<close>

definition cpu_rules :: "alert_config \<Rightarrow> gotime \<Rightarrow> string \<Rightarrow> node \<Rightarrow> rule list" where
  "cpu_rules cfg now inst nd =
     (case ac_nodecpu cfg of None \<Rightarrow> []
      | Some t \<Rightarrow> [mk_rule (''node_cpu:'' @ inst @ ''/'' @ n_name nd) (fle (ta_threshold t) (percent (n_cpu nd)))
          (Some (ta_duration t)) (ta_cooldown t)
          \<lparr>nt_type = ''node_cpu_high'', nt_severity = ta_severity t,
             nt_title = ''Node CPU High: '' @ inst @ ''/'' @ n_name nd,
             nt_message = ''['' @ inst @ ''/'' @ n_name nd @ ''] CPU at '' @ fmt0 (percent (n_cpu nd)) @
               ''% for 5+ minutes'',
             nt_instance = inst, nt_subject = n_name nd, nt_timestamp = now, nt_resolved = False,
             nt_metadata = [(''value'', fmt0 (percent (n_cpu nd)))]\<rparr>])"

definition mem_rules :: "alert_config \<Rightarrow> gotime \<Rightarrow> string \<Rightarrow> node \<Rightarrow> rule list" where
  "mem_rules cfg now inst nd =
     (case ac_nodemem cfg of None \<Rightarrow> []
      | Some t \<Rightarrow>
          if us_total (n_memory nd) \<le> 0 then []
          else let pct = pct_of (us_used (n_memory nd)) (us_total (n_memory nd)) in
            [mk_rule (''node_mem:'' @ inst @ ''/'' @ n_name nd) (fle (ta_threshold t) pct)
              (Some (ta_duration t)) (ta_cooldown t)
              \<lparr>nt_type = ''node_mem_high'', nt_severity = ta_severity t,
                   nt_title = ''Node Memory High: '' @ inst @ ''/'' @ n_name nd,
                   nt_message = ''['' @ inst @ ''/'' @ n_name nd @ ''] Memory at '' @ fmt0 pct @
                     ''% for 5+ minutes'',
                   nt_instance = inst, nt_subject = n_name nd, nt_timestamp = now, nt_resolved = False,
                   nt_metadata = [(''value'', fmt0 pct)]\<rparr>])"

definition guest_rules :: "alert_config \<Rightarrow> gotime \<Rightarrow> string \<Rightarrow> guest \<Rightarrow> rule list" where
  "guest_rules cfg now cid g =
     (case ac_guestdown cfg of None \<Rightarrow> []
      | Some t \<Rightarrow> [mk_rule (''guest_down:'' @ cid @ ''/'' @ itoa (g_vmid g)) (g_status g \<noteq> ''running'')
          (Some (ga_grace t)) (ga_cooldown t)
          \<lparr>nt_type = ''guest_down'', nt_severity = ga_severity t,
                     nt_title = ''Guest Down: '' @ g_name g @ '' ('' @ itoa (g_vmid g) @ '')'',
                     nt_message = ''['' @ g_instance g @ ''] '' @ g_name g @ '' (ID '' @ itoa (g_vmid g) @
                       '') is '' @ g_status g,
                     nt_instance = g_instance g, nt_subject = g_name g, nt_timestamp = now,
                     nt_resolved = False,
                     nt_metadata = [(''vmid'', itoa (g_vmid g)), (''status'', g_status g)]\<rparr>])"

definition backup_rules :: "alert_config \<Rightarrow> gotime \<Rightarrow> (string \<Rightarrow> string \<Rightarrow> gotime) \<Rightarrow> string \<Rightarrow>
    string \<times> backup \<Rightarrow> rule list" where
  "backup_rules cfg now clk pbs = (\<lambda>(i, b).
     case ac_backupstale cfg of None \<Rightarrow> []
      | Some t \<Rightarrow> [mk_rule (''backup_stale:'' @ pbs @ ''/'' @ i) (backup_age (clk pbs i) b > ba_maxage t)
          None (ba_cooldown t)
          \<lparr>nt_type = ''backup_stale'', nt_severity = ba_severity t,
             nt_title = ''Backup Stale: '' @ b_type b @ ''/'' @ b_id b @ '' '' @ pbs,
             nt_message = ''['' @ pbs @ ''] '' @ b_type b @ ''/'' @ b_id b @ '' last backup '' @
               fmt0 (dur_hours (backup_age (clk pbs i) b)) @ ''h ago'',
             nt_instance = pbs, nt_subject = b_id b, nt_timestamp = now, nt_resolved = False,
             nt_metadata = [(''age'', fmt0 (dur_hours (backup_age (clk pbs i) b)) @ ''h''),
               (''backup_type'', b_type b)]\<rparr>])"

definition disk_rules :: "alert_config \<Rightarrow> gotime \<Rightarrow> string \<times> disk \<Rightarrow> rule list" where
  "disk_rules cfg now = (\<lambda>(wwn, d).
     case ac_disksmart cfg of None \<Rightarrow> []
      | Some t \<Rightarrow>
         [mk_rule (''disk_smart:'' @ wwn) (d_health d = ''FAILED'' \<or> d_status d AND StatusFailedSmart \<noteq> 0)
            None (sa_cooldown t)
            \<lparr>nt_type = ''disk_smart_failed'', nt_severity = sa_severity t,
                   nt_title = ''Disk SMART Failed: '' @ d_devpath d,
                   nt_message = ''['' @ d_instance d @ ''/'' @ d_node d @ ''] '' @ d_devpath d @ '' ('' @
                     d_model d @ '') SMART health: '' @ d_health d,
                   nt_instance = d_instance d, nt_subject = d_devpath d, nt_timestamp = now,
                   nt_resolved = False,
                   nt_metadata = [(''wwn'', wwn), (''model'', d_model d)]\<rparr>,
          mk_rule (''disk_scrutiny:'' @ wwn)
            (d_status d AND StatusWarnScrutiny \<noteq> 0 \<or> d_status d AND StatusFailedScrutiny \<noteq> 0)
            None (sa_cooldown t)
            \<lparr>nt_type = ''disk_scrutiny_warning'', nt_severity = ''warning'',
             nt_title = ''Disk Scrutiny Warning: '' @ d_devpath d,
             nt_message = ''['' @ d_instance d @ ''/'' @ d_node d @ ''] '' @ d_devpath d @ '' ('' @
               d_model d @ '') has elevated SMART risk indicators'',
             nt_instance = d_instance d, nt_subject = d_devpath d, nt_timestamp = now,
             nt_resolved = False,
             nt_metadata = [(''wwn'', wwn), (''model'', d_model d)]\<rparr>])"

definition datastore_rules :: "alert_config \<Rightarrow> gotime \<Rightarrow> string \<Rightarrow> datastore_status \<Rightarrow> rule list" where
  "datastore_rules cfg now pbs ds =
     (case ac_dsfull cfg of None \<Rightarrow> []
      | Some t \<Rightarrow>
         (case (ds_total ds, ds_used ds) of
            (Some tot, Some used) \<Rightarrow>
              if tot \<le> 0 then []
              else [mk_rule (''ds_full:'' @ pbs @ ''/'' @ ds_name ds) (fle (ta_threshold t) (pct_of used tot))
                 None (ta_cooldown t)
                 \<lparr>nt_type = ''datastore_full'', nt_severity = ta_severity t,
                              nt_title = ''Datastore Full: '' @ pbs @ ''/'' @ ds_name ds,
                              nt_message = ''['' @ pbs @ ''] Datastore '' @ ds_name ds @ '' at '' @
                                fmt0 (pct_of used tot) @ ''% capacity'',
                              nt_instance = pbs, nt_subject = ds_name ds, nt_timestamp = now,
                              nt_resolved = False,
                              nt_metadata = [(''usage_pct'', fmt0 (pct_of used tot))]\<rparr>]
          | _ \<Rightarrow> []) @
         (case ds_error ds of None \<Rightarrow> []
          | Some err \<Rightarrow> [mk_rule (''ds_offline:'' @ pbs @ ''/'' @ ds_name ds) True None (1 * hour)
               \<lparr>nt_type = ''datastore_offline'', nt_severity = ''critical'',
                nt_title = ''Datastore Offline: '' @ pbs @ ''/'' @ ds_name ds,
                nt_message = ''['' @ pbs @ ''] Datastore '' @ ds_name ds @ '' error: '' @ err,
                nt_instance = pbs, nt_subject = ds_name ds, nt_timestamp = now,
                nt_resolved = False, nt_metadata = []\<rparr>]))"

definition nested_rules :: "('a \<Rightarrow> 'b \<Rightarrow> rule list) \<Rightarrow> ('a, 'b list) gomap \<Rightarrow> rule list" where
  "nested_rules f m = concat (map (\<lambda>(k, xs). concat (map (f k) xs)) m)"

definition rules :: "alert_config \<Rightarrow> cache_snapshot \<Rightarrow> gotime \<Rightarrow> (string \<Rightarrow> string \<Rightarrow> gotime) \<Rightarrow> rule list" where
  "rules cfg snap now clk =
     nested_rules (\<lambda>inst (_, nd). cpu_rules cfg now inst nd @ mem_rules cfg now inst nd) (c_nodes snap) @
     nested_rules (\<lambda>cid (_, g). guest_rules cfg now cid g) (c_guests snap) @
     nested_rules (backup_rules cfg now clk) (c_backups snap) @
     concat (map (disk_rules cfg now) (c_disks snap)) @
     nested_rules (\<lambda>pbs (_, ds). datastore_rules cfg now pbs ds) (c_datastores snap)"

section \<open>Every check applies its rules\<close>

lemma fire_config [simp]: "al_config (fire now k cd n a) = al_config a"
  "al_providers (fire now k cd n a) = al_providers a"
  "al_sustained (fire now k cd n a) = al_sustained a"
  by (simp_all add: fire_def)

lemma apply_rule_config [simp]: "al_config (apply_rule now r a) = al_config a"
  "al_providers (apply_rule now r a) = al_providers a"
  by (simp_all add: apply_rule_def split: option.split)

lemma fold_rules_config [simp]: "al_config (fold (apply_rule now) rs a) = al_config a"
  "al_providers (fold (apply_rule now) rs a) = al_providers a"
  by (rule fold_preserves, simp)+

lemma cleanup_config [simp]: "al_config (cleanup now a) = al_config a"
  "al_providers (cleanup now a) = al_providers a"
  by (simp_all add: cleanup_def Let_def)

named_theorems checks_as_rules \<open>each check of the code as the rules it applies\<close>

lemma cpu_as_rules [checks_as_rules]:
  "check_node_cpu now inst nd a = fold (apply_rule now) (cpu_rules (al_config a) now inst nd) a"
  by (simp add: check_node_cpu_def cpu_rules_def checkSustainedThreshold_def apply_rule_def split: option.split)

lemma mem_as_rules [checks_as_rules]:
  "check_node_mem now inst nd a = fold (apply_rule now) (mem_rules (al_config a) now inst nd) a"
  by (simp add: check_node_mem_def mem_rules_def checkSustainedThreshold_def apply_rule_def Let_def split: option.split)

lemma guest_as_rules [checks_as_rules]:
  "ac_guestdown (al_config a) = Some t \<Longrightarrow>
   check_guest now t cid g a = fold (apply_rule now) (guest_rules (al_config a) now cid g) a"
  by (simp add: check_guest_def guest_rules_def apply_rule_def Let_def split: option.split)

lemma backup_as_rules [checks_as_rules]:
  "ac_backupstale (al_config a) = Some t \<Longrightarrow>
   check_backup now clk t pbs ib a = fold (apply_rule now) (backup_rules (al_config a) now clk pbs ib) a"
  by (simp add: check_backup_def backup_rules_def apply_rule_def Let_def split: option.split prod.split)

lemma disk_as_rules [checks_as_rules]:
  "ac_disksmart (al_config a) = Some t \<Longrightarrow>
   check_disk now t wd a = fold (apply_rule now) (disk_rules (al_config a) now wd) a"
  by (simp add: check_disk_def disk_rules_def apply_rule_def Let_def split: option.split prod.split)

lemma datastore_as_rules [checks_as_rules]:
  "ac_dsfull (al_config a) = Some t \<Longrightarrow>
   check_datastore now t pbs ds a = fold (apply_rule now) (datastore_rules (al_config a) now pbs ds) a"
  by (simp add: check_datastore_def datastore_rules_def apply_rule_def Let_def split: option.split)

lemma fold_as_rules:
  assumes "\<And>x a. al_config a = cfg \<Longrightarrow> g x a = fold (apply_rule now) (f x) a" and "al_config a = cfg"
  shows "fold g xs a = fold (apply_rule now) (concat (map f xs)) a"
  using assms(2) by (induction xs arbitrary: a) (simp_all add: assms(1))

lemma nested_as_rules:
  assumes "\<And>k x a. al_config a = cfg \<Longrightarrow> g k x a = fold (apply_rule now) (f k x) a" and "al_config a = cfg"
  shows "fold (\<lambda>(k, xs). fold (g k) xs) m a = fold (apply_rule now) (nested_rules f m) a"
  unfolding nested_rules_def
  by (rule fold_as_rules [where cfg = cfg])
    (auto simp: assms(2) intro!: fold_as_rules [where cfg = cfg] assms(1))

lemma nested_rules_empty: "(\<And>k x. f k x = []) \<Longrightarrow> nested_rules f m = []"
  by (induction m) (auto simp: nested_rules_def)

text \<open>C15: The alerter refines its specification. One evaluation, with its nested loops over the
  snapshot and its early exits, is: expire the old entries, then apply, one after the other and all
  in the same way, the rules that the configuration and the snapshot give.\<close>

theorem evaluate_rules:
  "evaluate c now clk a =
     fold (apply_rule now) (rules (al_config a) (Snapshot c) now clk) (cleanup now a)"
proof -
  let ?cfg = "al_config a" and ?s = "Snapshot c"
  have n: "fold (\<lambda>(inst, nodes). fold (\<lambda>(_, nd) a. check_node_mem now inst nd (check_node_cpu now inst nd a)) nodes) m b =
      fold (apply_rule now) (nested_rules (\<lambda>inst (_, nd). cpu_rules ?cfg now inst nd @ mem_rules ?cfg now inst nd) m) b"
    if "al_config b = ?cfg" for m b
    by (rule nested_as_rules [OF _ that]) (auto simp: checks_as_rules)
  have g: "(case ac_guestdown ?cfg of None \<Rightarrow> b
      | Some t \<Rightarrow> fold (\<lambda>(cid, guests). fold (\<lambda>(_, g). check_guest now t cid g) guests) m b) =
      fold (apply_rule now) (nested_rules (\<lambda>cid (_, g). guest_rules ?cfg now cid g) m) b"
    if "al_config b = ?cfg" for m b
  proof (cases "ac_guestdown ?cfg")
    case None
    then show ?thesis by (subst nested_rules_empty) (auto simp: guest_rules_def)
  next
    case (Some t)
    then show ?thesis by (simp, intro nested_as_rules [OF _ that]) (auto simp: checks_as_rules)
  qed
  have b: "(case ac_backupstale ?cfg of None \<Rightarrow> b
      | Some t \<Rightarrow> fold (\<lambda>(pbs, bs). fold (check_backup now clk t pbs) bs) m b) =
      fold (apply_rule now) (nested_rules (backup_rules ?cfg now clk) m) b"
    if "al_config b = ?cfg" for m b
  proof (cases "ac_backupstale ?cfg")
    case None
    then show ?thesis by (subst nested_rules_empty) (auto simp: backup_rules_def)
  next
    case (Some t)
    then show ?thesis by (simp, intro nested_as_rules [OF _ that]) (auto simp: checks_as_rules)
  qed
  have d: "(case ac_disksmart ?cfg of None \<Rightarrow> b | Some t \<Rightarrow> fold (check_disk now t) m b) =
      fold (apply_rule now) (concat (map (disk_rules ?cfg now) m)) b"
    if "al_config b = ?cfg" for m b
  proof (cases "ac_disksmart ?cfg")
    case None
    then have "disk_rules ?cfg now x = []" for x by (simp add: disk_rules_def split: prod.split)
    then have "fold (apply_rule now) (concat (map (disk_rules ?cfg now) m)) b = b"
      by (induction m) simp_all
    with None show ?thesis by simp
  next
    case (Some t)
    then show ?thesis by (simp, intro fold_as_rules [OF _ that]) (auto simp: checks_as_rules)
  qed
  have f: "(case ac_dsfull ?cfg of None \<Rightarrow> b
      | Some t \<Rightarrow> fold (\<lambda>(pbs, dss). fold (\<lambda>(_, ds). check_datastore now t pbs ds) dss) m b) =
      fold (apply_rule now) (nested_rules (\<lambda>pbs (_, ds). datastore_rules ?cfg now pbs ds) m) b"
    if "al_config b = ?cfg" for m b
  proof (cases "ac_dsfull ?cfg")
    case None
    then show ?thesis by (subst nested_rules_empty) (auto simp: datastore_rules_def)
  next
    case (Some t)
    then show ?thesis by (simp, intro nested_as_rules [OF _ that]) (auto simp: checks_as_rules)
  qed
  show ?thesis
    by (simp add: evaluate_def rules_def Let_def n g b d f)
qed

end
