(* ===== verification/AlertProps.thy ===== *)
theory AlertProps
  imports AlertRules
begin

text \<open>
  The properties of the alerter over any sequence of evaluations: no alert without its condition
  (and, for the sustained ones, without the condition having held at every evaluation in between), no
  repetition within the cooldown, no condition left without an alert, and what each alert does. They
  rest on the rules of \<open>AlertRules\<close>: an invariant of one rule lifts to an evaluation and to a run.
\<close>

definition tick_rules :: "alert_config \<Rightarrow> tick \<Rightarrow> rule list" where
  "tick_rules cfg t = rules cfg (Snapshot (tk_cache t)) (tk_now t) (tk_clk t)"

definition eval_tick :: "tick \<Rightarrow> alerter \<Rightarrow> alerter" where
  "eval_tick t a = evaluate (tk_cache t) (tk_now t) (tk_clk t) a"

lemma eval_tick_rules:
  "eval_tick t a = fold (apply_rule (tk_now t)) (tick_rules (al_config a) t) (cleanup (tk_now t) a)"
  by (simp add: eval_tick_def tick_rules_def evaluate_rules)

lemma alerter_run_eq: "alerter_run ts a = fold eval_tick ts a"
  by (simp add: alerter_run_def eval_tick_def [abs_def])

lemma eval_tick_config [simp]: "al_config (eval_tick t a) = al_config a"
  "al_providers (eval_tick t a) = al_providers a"
  by (simp_all add: eval_tick_rules)

lemma run_config [simp]: "al_config (alerter_run ts a) = al_config a"
  "al_providers (alerter_run ts a) = al_providers a"
  unfolding alerter_run_eq by (rule fold_preserves, simp)+

lemma run_snoc: "alerter_run (ts @ [t]) a = eval_tick t (alerter_run ts a)"
  by (simp add: alerter_run_eq)

lemma NewAlerter_sel [simp]: "al_config (NewAlerter ps cfg) = cfg" "al_providers (NewAlerter ps cfg) = ps"
  "al_fired (NewAlerter ps cfg) = []" "al_sustained (NewAlerter ps cfg) = []"
  "al_effects (NewAlerter ps cfg) = []" "al_fires (NewAlerter ps cfg) = []"
  by (simp_all add: NewAlerter_def)

section \<open>What one rule does\<close>

text \<open>A rule fires when its condition holds, has held for as long as it must, and its key is not in
  cooldown.\<close>

definition ready :: "gotime \<Rightarrow> rule \<Rightarrow> alerter \<Rightarrow> bool" where
  "ready now r a \<longleftrightarrow> ru_holds r \<and>
     (case ru_for r of None \<Rightarrow> True
      | Some h \<Rightarrow> (case gm_get (al_sustained a) (ru_key r) of None \<Rightarrow> False | Some s \<Rightarrow> h \<le> time_sub now s))"

definition cooling :: "gotime \<Rightarrow> rule \<Rightarrow> alerter \<Rightarrow> bool" where
  "cooling now r a \<longleftrightarrow> (case gm_get (al_fired a) (ru_key r) of None \<Rightarrow> False
     | Some p \<Rightarrow> time_sub now p < ru_cooldown r)"

definition sustained_after :: "gotime \<Rightarrow> rule \<Rightarrow> alerter \<Rightarrow> (string, gotime) gomap" where
  "sustained_after now r a =
     (if ru_for r = None then al_sustained a
      else if \<not> ru_holds r then gm_del (ru_key r) (al_sustained a)
      else if gm_mem (ru_key r) (al_sustained a) then al_sustained a
      else gm_put (ru_key r) now (al_sustained a))"

lemma apply_rule_eq:
  "apply_rule now r a =
     (if ready now r a \<and> \<not> cooling now r a
      then a\<lparr>al_fired := gm_put (ru_key r) now (al_fired a),
        al_effects := al_effects a @
          InsertAlert (unix_of_time now) (nt_type (ru_notif r)) (nt_instance (ru_notif r))
            (nt_subject (ru_notif r)) (nt_message (ru_notif r)) (nt_severity (ru_notif r)) #
          map (\<lambda>p. SendTo p (ru_notif r)) (al_providers a),
        al_fires := al_fires a @ [(ru_key r, now)]\<rparr>
      else a\<lparr>al_sustained := sustained_after now r a\<rparr>)"
  by (auto simp: apply_rule_def fire_def ready_def cooling_def sustained_after_def gm_mem_def
      split: option.splits)

lemma apply_rule_sustained: "al_sustained (apply_rule now r a) = sustained_after now r a"
  by (auto simp: apply_rule_eq ready_def sustained_after_def gm_mem_def split: option.splits)

lemma apply_rule_fires: "al_fires (apply_rule now r a) =
    al_fires a @ (if ready now r a \<and> \<not> cooling now r a then [(ru_key r, now)] else [])"
  by (simp add: apply_rule_eq)

lemma apply_rule_fired: "al_fired (apply_rule now r a) =
    (if ready now r a \<and> \<not> cooling now r a then gm_put (ru_key r) now (al_fired a) else al_fired a)"
  by (simp add: apply_rule_eq)

lemmas apply_rule_parts = apply_rule_sustained apply_rule_fires apply_rule_fired

text \<open>The maps stay maps.\<close>

definition maps_ok :: "alerter \<Rightarrow> bool" where
  "maps_ok a \<longleftrightarrow> wf_gomap (al_fired a) \<and> wf_gomap (al_sustained a)"

lemma maps_ok_rule: "maps_ok a \<Longrightarrow> maps_ok (apply_rule now r a)"
  by (simp add: maps_ok_def apply_rule_parts sustained_after_def wf_intros)

lemma maps_ok_cleanup: "maps_ok a \<Longrightarrow> maps_ok (cleanup now a)"
  by (simp add: maps_ok_def cleanup_def Let_def wf_intros)

lemma maps_ok_rules: "maps_ok a \<Longrightarrow> maps_ok (fold (apply_rule now) rs a)"
  by (rule fold_invariant) (auto simp: maps_ok_rule)

lemma maps_ok_tick: "maps_ok a \<Longrightarrow> maps_ok (eval_tick t a)"
  by (simp add: eval_tick_rules maps_ok_rules maps_ok_cleanup)

lemma maps_ok_run: "maps_ok (alerter_run ts (NewAlerter ps cfg))"
  unfolding alerter_run_eq
  by (rule fold_invariant [where P = maps_ok]) (simp add: maps_ok_def, rule maps_ok_tick)

lemma cleanup_parts:
  assumes "maps_ok a"
  shows "gm_get (al_fired (cleanup now a)) k =
      (case gm_get (al_fired a) k of None \<Rightarrow> None | Some t \<Rightarrow> if time_sub now t > 6 * hour then None else Some t)"
    and "gm_get (al_sustained (cleanup now a)) k =
      (case gm_get (al_sustained a) k of None \<Rightarrow> None | Some t \<Rightarrow> if time_sub now t > 6 * hour then None else Some t)"
    and "al_fires (cleanup now a) = al_fires a" and "al_effects (cleanup now a) = al_effects a"
  using assms by (simp_all add: cleanup_def Let_def maps_ok_def gm_get_expire split: option.split)

text \<open>An invariant of the rules of a tick is one of the run.\<close>

lemma run_invariant:
  assumes "P [] (NewAlerter ps cfg)"
    and "\<And>ts t a. maps_ok a \<Longrightarrow> al_config a = cfg \<Longrightarrow> P ts a \<Longrightarrow> Q ts t [] (cleanup (tk_now t) a)"
    and "\<And>ts t rs r a. maps_ok a \<Longrightarrow> r \<in> set (tick_rules cfg t) \<Longrightarrow> Q ts t rs a \<Longrightarrow>
          Q ts t (rs @ [r]) (apply_rule (tk_now t) r a)"
    and "\<And>ts t a. Q ts t (tick_rules cfg t) a \<Longrightarrow> P (ts @ [t]) a"
  shows "P ts (alerter_run ts (NewAlerter ps cfg))"
proof (induction ts rule: rev_induct)
  case Nil
  with assms(1) show ?case by (simp add: alerter_run_def)
next
  case (snoc t ts)
  let ?a = "alerter_run ts (NewAlerter ps cfg)"
  have step: "set (rs @ rs') \<subseteq> set (tick_rules cfg t) \<Longrightarrow> maps_ok b \<Longrightarrow> Q ts t rs b \<Longrightarrow>
      Q ts t (rs @ rs') (fold (apply_rule (tk_now t)) rs' b)" for rs rs' b
  proof (induction rs' arbitrary: rs b)
    case (Cons r rs')
    from assms(3) [OF Cons.prems(2) _ Cons.prems(3), of r] Cons.prems(1)
    have "Q ts t (rs @ [r]) (apply_rule (tk_now t) r b)" by simp
    from Cons.IH [OF _ _ this] Cons.prems maps_ok_rule show ?case by simp
  qed simp
  have "Q ts t [] (cleanup (tk_now t) ?a)"
    using assms(2) [OF maps_ok_run _ snoc.IH] by simp
  from step [OF _ maps_ok_cleanup [OF maps_ok_run] this, of "tick_rules cfg t"]
  have "Q ts t (tick_rules cfg t) (eval_tick t ?a)" by (simp add: eval_tick_rules)
  then show ?case using assms(4) by (simp add: run_snoc)
qed

section \<open>The cooldown and the hold of a key\<close>

definition key_cooldown :: "alert_config \<Rightarrow> string \<Rightarrow> duration" where
  "key_cooldown cfg key =
     (if has_prefix key ''node_cpu:'' then (case ac_nodecpu cfg of Some t \<Rightarrow> ta_cooldown t | None \<Rightarrow> 0)
      else if has_prefix key ''node_mem:'' then (case ac_nodemem cfg of Some t \<Rightarrow> ta_cooldown t | None \<Rightarrow> 0)
      else if has_prefix key ''guest_down:'' then (case ac_guestdown cfg of Some t \<Rightarrow> ga_cooldown t | None \<Rightarrow> 0)
      else if has_prefix key ''backup_stale:'' then (case ac_backupstale cfg of Some t \<Rightarrow> ba_cooldown t | None \<Rightarrow> 0)
      else if has_prefix key ''disk_smart:'' \<or> has_prefix key ''disk_scrutiny:''
        then (case ac_disksmart cfg of Some t \<Rightarrow> sa_cooldown t | None \<Rightarrow> 0)
      else if has_prefix key ''ds_full:'' then (case ac_dsfull cfg of Some t \<Rightarrow> ta_cooldown t | None \<Rightarrow> 0)
      else 1 * hour)"

definition key_hold :: "alert_config \<Rightarrow> string \<Rightarrow> duration option" where
  "key_hold cfg key =
     (if has_prefix key ''node_cpu:'' then map_option ta_duration (ac_nodecpu cfg)
      else if has_prefix key ''node_mem:'' then map_option ta_duration (ac_nodemem cfg)
      else if has_prefix key ''guest_down:'' then map_option ga_grace (ac_guestdown cfg)
      else None)"

lemma has_prefix_Cons: "has_prefix (c # s) (d # p) \<longleftrightarrow> c = d \<and> has_prefix s p" "has_prefix s []"
  by (auto simp: has_prefix_def)

lemma in_nested_rules: "r \<in> set (nested_rules f m) \<longleftrightarrow> (\<exists>k xs x. (k, xs) \<in> set m \<and> x \<in> set xs \<and> r \<in> set (f k x))"
  by (fastforce simp: nested_rules_def)

lemma rules_cases:
  assumes "r \<in> set (rules cfg snap now clk)"
  obtains (Node) inst nd where "r \<in> set (cpu_rules cfg now inst nd) \<or> r \<in> set (mem_rules cfg now inst nd)"
    | (Guest) cid g where "r \<in> set (guest_rules cfg now cid g)"
    | (Backup) pbs ib where "r \<in> set (backup_rules cfg now clk pbs ib)"
    | (Disk) wd where "r \<in> set (disk_rules cfg now wd)"
    | (Datastore) pbs ds where "r \<in> set (datastore_rules cfg now pbs ds)"
  using assms unfolding rules_def by (auto simp: in_nested_rules)

definition keyed :: "alert_config \<Rightarrow> rule \<Rightarrow> bool" where
  "keyed cfg r \<longleftrightarrow> ru_cooldown r = key_cooldown cfg (ru_key r) \<and> ru_for r = key_hold cfg (ru_key r)"

lemmas key_defs = key_cooldown_def key_hold_def has_prefix_Cons

lemma keyed_mk_rule:
  "ac_nodecpu cfg = Some t \<Longrightarrow> keyed cfg (mk_rule (''node_cpu:'' @ x) c (Some (ta_duration t)) (ta_cooldown t) n)"
  "ac_nodemem cfg = Some t \<Longrightarrow> keyed cfg (mk_rule (''node_mem:'' @ x) c (Some (ta_duration t)) (ta_cooldown t) n)"
  "ac_guestdown cfg = Some g \<Longrightarrow> keyed cfg (mk_rule (''guest_down:'' @ x) c (Some (ga_grace g)) (ga_cooldown g) n)"
  "ac_backupstale cfg = Some b \<Longrightarrow> keyed cfg (mk_rule (''backup_stale:'' @ x) c None (ba_cooldown b) n)"
  "ac_disksmart cfg = Some d \<Longrightarrow> keyed cfg (mk_rule (''disk_smart:'' @ x) c None (sa_cooldown d) n)"
  "ac_disksmart cfg = Some d \<Longrightarrow> keyed cfg (mk_rule (''disk_scrutiny:'' @ x) c None (sa_cooldown d) n)"
  "ac_dsfull cfg = Some t \<Longrightarrow> keyed cfg (mk_rule (''ds_full:'' @ x) c None (ta_cooldown t) n)"
  "keyed cfg (mk_rule (''ds_offline:'' @ x) c None (1 * hour) n)"
  by (simp_all add: keyed_def key_defs)

lemma rule_key_facts:
  assumes "r \<in> set (rules cfg snap now clk)"
  shows "keyed cfg r"
  using assms
proof (cases rule: rules_cases)
  case (Node inst nd)
  have "r \<in> set (cpu_rules cfg now inst nd) \<Longrightarrow> keyed cfg r"
    by (cases "ac_nodecpu cfg") (simp_all only: cpu_rules_def option.case list.set empty_iff insert_iff
        simp_thms keyed_mk_rule)
  moreover have "r \<in> set (mem_rules cfg now inst nd) \<Longrightarrow> keyed cfg r"
    by (cases "ac_nodemem cfg"; cases "us_total (n_memory nd) \<le> 0")
      (simp_all only: mem_rules_def Let_def option.case if_True if_False list.set empty_iff insert_iff
        simp_thms keyed_mk_rule)
  ultimately show ?thesis using Node by blast
next
  case (Guest cid g)
  then show ?thesis
    by (cases "ac_guestdown cfg") (simp_all only: guest_rules_def option.case list.set empty_iff insert_iff
        simp_thms keyed_mk_rule)
next
  case (Backup pbs ib)
  then show ?thesis
    by (cases ib, cases "ac_backupstale cfg") (simp_all only: backup_rules_def option.case prod.case list.set
        empty_iff insert_iff simp_thms keyed_mk_rule)
next
  case (Disk wd)
  show ?thesis
  proof (cases "ac_disksmart cfg")
    case None
    with Disk show ?thesis by (simp add: disk_rules_def split: prod.splits)
  next
    case (Some t)
    with Disk show ?thesis
      by (cases wd) (auto simp only: disk_rules_def option.case prod.case list.set empty_iff insert_iff
          keyed_mk_rule)
  qed
next
  case (Datastore pbs ds)
  show ?thesis
  proof (cases "ac_dsfull cfg")
    case None
    with Datastore show ?thesis by (simp add: datastore_rules_def)
  next
    case (Some t)
    with Datastore show ?thesis
      by (auto simp only: datastore_rules_def option.case prod.case list.set empty_iff insert_iff set_append
          Un_iff keyed_mk_rule split: option.splits if_splits)
  qed
qed

lemma time_sub_antimono: "t \<le> t' \<Longrightarrow> time_sub u t' \<le> time_sub u t"
  by (auto simp: time_sub_def Let_def min_i64_def max_i64_def)


lemma tick_keyed: "r \<in> set (tick_rules cfg t) \<Longrightarrow>
    ru_cooldown r = key_cooldown cfg (ru_key r) \<and> ru_for r = key_hold cfg (ru_key r)"
  using rule_key_facts unfolding tick_rules_def keyed_def by blast

section \<open>No repetition within the cooldown\<close>

definition spaced :: "alert_config \<Rightarrow> (string \<times> gotime) list \<Rightarrow> bool" where
  "spaced cfg = sorted_wrt (\<lambda>(k, t) (k', t'). k = k' \<longrightarrow> min (key_cooldown cfg k) (6 * hour) \<le> time_sub t' t)"

text \<open>Every alert so far is in the past, and still known to the deduplication unless older than six
  hours.\<close>

definition remembered :: "gotime \<Rightarrow> alerter \<Rightarrow> bool" where
  "remembered now a \<longleftrightarrow> (\<forall>(k, t) \<in> set (al_fires a). t \<le> now \<and>
     (6 * hour < time_sub now t \<or> (\<exists>p. gm_get (al_fired a) k = Some p \<and> t \<le> p)))"

lemma remembered_later:
  assumes "remembered now a" and "now \<le> now'"
  shows "remembered now' a"
proof -
  have "time_sub now t \<le> time_sub now' t" for t using assms(2) by (rule time_sub_mono)
  then show ?thesis using assms unfolding remembered_def by (fastforce intro: less_le_trans)
qed

lemma remembered_cleanup:
  assumes "remembered now a" and "maps_ok a"
  shows "remembered now (cleanup now a)"
  unfolding remembered_def
proof clarify
  fix k t assume "(k, t) \<in> set (al_fires (cleanup now a))"
  then have "(k, t) \<in> set (al_fires a)" by (simp add: cleanup_parts assms(2))
  with assms(1) have t: "t \<le> now" "6 * hour < time_sub now t \<or> (\<exists>p. gm_get (al_fired a) k = Some p \<and> t \<le> p)"
    by (auto simp: remembered_def)
  have "6 * hour < time_sub now t \<or> (\<exists>p. gm_get (al_fired (cleanup now a)) k = Some p \<and> t \<le> p)"
  proof (cases "6 * hour < time_sub now t")
    case False
    with t obtain p where p: "gm_get (al_fired a) k = Some p" "t \<le> p" by blast
    with False time_sub_antimono [OF p(2), of now] show ?thesis
      by (simp add: cleanup_parts assms(2))
  qed simp
  with t show "t \<le> now \<and> (6 * hour < time_sub now t \<or>
      (\<exists>p. gm_get (al_fired (cleanup now a)) k = Some p \<and> t \<le> p))" by blast
qed

lemma remembered_rule:
  assumes "remembered now a"
  shows "remembered now (apply_rule now r a)"
proof (cases "ready now r a \<and> \<not> cooling now r a")
  case True
  have "\<exists>p. gm_get (al_fired (apply_rule now r a)) k = Some p \<and> t \<le> p"
    if "t \<le> now" and "k = ru_key r \<or> (\<exists>p. gm_get (al_fired a) k = Some p \<and> t \<le> p)" for k t
    using that True by (auto simp: apply_rule_fired)
  with assms True show ?thesis by (fastforce simp: remembered_def apply_rule_fires)
next
  case False
  with assms show ?thesis by (simp only: remembered_def apply_rule_fires apply_rule_fired if_False append_Nil2)
qed

lemma spaced_rule:
  assumes "spaced cfg (al_fires a)" and "remembered now a" and "ru_cooldown r = key_cooldown cfg (ru_key r)"
  shows "spaced cfg (al_fires (apply_rule now r a))"
proof -
  have "min (key_cooldown cfg (ru_key r)) (6 * hour) \<le> time_sub now t"
    if "(ru_key r, t) \<in> set (al_fires a)" and c: "\<not> cooling now r a" for t
  proof -
    from that(1) assms(2)
    consider "6 * hour < time_sub now t" | p where "gm_get (al_fired a) (ru_key r) = Some p" "t \<le> p"
      unfolding remembered_def by blast
    then show ?thesis
    proof cases
      case 2
      with c assms(3) time_sub_antimono [OF 2(2), of now] show ?thesis by (simp add: cooling_def)
    qed simp
  qed
  with assms(1) show ?thesis
    by (auto simp: spaced_def sorted_wrt_append apply_rule_fires)
qed

text \<open>C2: No repetition. In any run in which the clock does not go back, two alerts with the same key
  are at least the key's cooldown apart, or six hours where the cooldown is longer (the deduplication
  forgets entries after six hours).\<close>

theorem alert_cooldown:
  assumes "sorted (map tk_now ts)"
  shows "sorted_wrt (\<lambda>(k, t) (k', t'). k = k' \<longrightarrow> min (key_cooldown cfg k) (6 * hour) \<le> time_sub t' t)
    (al_fires (alerter_run ts (NewAlerter ps cfg)))"
proof -
  let ?P = "\<lambda>ts a. sorted (map tk_now ts) \<longrightarrow> spaced cfg (al_fires a) \<and>
      (if ts = [] then al_fires a = [] else remembered (tk_now (last ts)) a)"
  let ?Q = "\<lambda>ts t (rs :: rule list) a. sorted (map tk_now (ts @ [t])) \<longrightarrow> spaced cfg (al_fires a) \<and> remembered (tk_now t) a"
  have "?P ts (alerter_run ts (NewAlerter ps cfg))"
  proof (rule run_invariant [where P = ?P and Q = ?Q])
    fix ts t a assume m: "maps_ok a" and P: "?P ts a"
    show "?Q ts t [] (cleanup (tk_now t) a)"
    proof
      assume s: "sorted (map tk_now (ts @ [t]))"
      have "remembered (tk_now t) a"
      proof (cases "ts = []")
        case True
        with s P show ?thesis by (simp add: remembered_def)
      next
        case False
        with s have "tk_now (last ts) \<le> tk_now t" by (simp add: sorted_append)
        with False s P show ?thesis by (auto simp: sorted_append intro: remembered_later)
      qed
      with m P s remembered_cleanup show "spaced cfg (al_fires (cleanup (tk_now t) a)) \<and>
          remembered (tk_now t) (cleanup (tk_now t) a)"
        by (simp add: cleanup_parts sorted_append)
    qed
  next
    fix ts t rs r a assume "r \<in> set (tick_rules cfg t)" and "?Q ts t rs a"
    then show "?Q ts t (rs @ [r]) (apply_rule (tk_now t) r a)"
      using tick_keyed [of r cfg t] spaced_rule remembered_rule by blast
  qed (simp_all add: spaced_def)
  with assms show ?thesis by (simp add: spaced_def)
qed

theorem alert_cooldown_witness:
  "(let c = cache_new\<lparr>c_disks := [(''w'', zero_disk\<lparr>d_health := ''FAILED''\<rparr>)]\<rparr>;
        t0 = \<lparr>tk_cache = c, tk_now = 0, tk_clk = \<lambda>_ _. 0\<rparr>; t1 = t0\<lparr>tk_now := 30 * second\<rparr>
    in spaced DefaultAlertConfig (al_fires (alerter_run [t0, t1] (NewAlerter [''ntfy''] DefaultAlertConfig))))"
  using alert_cooldown [of "[\<lparr>tk_cache = c, tk_now = 0, tk_clk = \<lambda>_ _. 0\<rparr>, \<lparr>tk_cache = c, tk_now = 30 * second, tk_clk = \<lambda>_ _. 0\<rparr>]"
      DefaultAlertConfig "[''ntfy'']" for c]
  by (simp add: spaced_def Let_def)

section \<open>No alert without its condition\<close>

text \<open>The condition of a key was seen to hold at the tick \<open>t0\<close>, and at every tick of \<open>mid\<close> no rule with
  that key was seen not to hold.\<close>

definition seen_at :: "alert_config \<Rightarrow> string \<Rightarrow> tick \<Rightarrow> bool" where
  "seen_at cfg k t0 \<longleftrightarrow> list_ex (\<lambda>r. ru_key r = k \<and> ru_holds r) (tick_rules cfg t0)"

definition unbroken :: "string \<Rightarrow> rule list \<Rightarrow> bool" where
  "unbroken k rs \<longleftrightarrow> list_all (\<lambda>r. ru_key r = k \<longrightarrow> ru_holds r) rs"

definition sustained_since :: "alert_config \<Rightarrow> tick list \<Rightarrow> string \<Rightarrow> gotime \<Rightarrow> bool" where
  "sustained_since cfg ts k s \<longleftrightarrow> (\<exists>p1 t0 mid. ts = p1 @ t0 # mid \<and> tk_now t0 = s \<and> seen_at cfg k t0 \<and>
     list_all (\<lambda>t. unbroken k (tick_rules cfg t)) mid)"

definition justified :: "alert_config \<Rightarrow> tick list \<Rightarrow> string \<times> gotime \<Rightarrow> bool" where
  "justified cfg ts = (\<lambda>(k, now). \<exists>pre t suf. ts = pre @ t # suf \<and> tk_now t = now \<and> seen_at cfg k t \<and>
     (case key_hold cfg k of None \<Rightarrow> True
      | Some h \<Rightarrow> h \<le> 0 \<or> (\<exists>s. sustained_since cfg pre k s \<and> h \<le> time_sub now s)))"

lemma justified_snoc: "justified cfg ts f \<Longrightarrow> justified cfg (ts @ [t]) f"
  unfolding justified_def by fastforce

definition sus_inv :: "alert_config \<Rightarrow> tick list \<Rightarrow> tick \<Rightarrow> rule list \<Rightarrow> alerter \<Rightarrow> bool" where
  "sus_inv cfg ts t rs a \<longleftrightarrow> (\<forall>k s. key_hold cfg k \<noteq> None \<longrightarrow> gm_get (al_sustained a) k = Some s \<longrightarrow>
     s = tk_now t \<and> seen_at cfg k t \<or> sustained_since cfg ts k s \<and> unbroken k rs)"

lemma seen_atI: "r \<in> set (tick_rules cfg t) \<Longrightarrow> ru_holds r \<Longrightarrow> seen_at cfg (ru_key r) t"
  by (auto simp: seen_at_def list_ex_iff)

lemma sus_inv_rule:
  assumes i: "sus_inv cfg ts t rs a" and r: "r \<in> set (tick_rules cfg t)"
  shows "sus_inv cfg ts t (rs @ [r]) (apply_rule (tk_now t) r a)"
  unfolding sus_inv_def
proof (intro allI impI)
  fix k s assume h: "key_hold cfg k \<noteq> None" and g: "gm_get (al_sustained (apply_rule (tk_now t) r a)) k = Some s"
  show "s = tk_now t \<and> seen_at cfg k t \<or> sustained_since cfg ts k s \<and> unbroken k (rs @ [r])"
  proof (cases "ru_key r = k")
    case False
    with g have "gm_get (al_sustained a) k = Some s"
      by (auto simp: apply_rule_sustained sustained_after_def split: if_splits)
    with i h False show ?thesis unfolding sus_inv_def by (auto simp: unbroken_def)
  next
    case True
    with h tick_keyed [OF r] have "ru_for r \<noteq> None" by simp
    with g True have holds: "ru_holds r" and "gm_get (al_sustained a) k = Some s \<or> s = tk_now t"
      by (auto simp: apply_rule_sustained sustained_after_def split: if_splits)
    with seen_atI [OF r holds] i h True show ?thesis unfolding sus_inv_def by (auto simp: unbroken_def)
  qed
qed

lemma justified_rule:
  assumes i: "sus_inv cfg ts t rs a" and r: "r \<in> set (tick_rules cfg t)" and rd: "ready (tk_now t) r a"
  shows "justified cfg (ts @ [t]) (ru_key r, tk_now t)"
proof -
  have seen: "seen_at cfg (ru_key r) t" using rd by (intro seen_atI [OF r]) (simp add: ready_def)
  have "h \<le> 0 \<or> (\<exists>s. sustained_since cfg ts (ru_key r) s \<and> h \<le> time_sub (tk_now t) s)"
    if h: "key_hold cfg (ru_key r) = Some h" for h
  proof -
    from h tick_keyed [OF r] rd obtain s where
      s: "gm_get (al_sustained a) (ru_key r) = Some s" "h \<le> time_sub (tk_now t) s"
      by (auto simp: ready_def split: option.splits)
    moreover have "time_sub u u = 0" for u by (simp add: time_sub_def min_i64_def max_i64_def)
    ultimately show ?thesis using i h unfolding sus_inv_def by fastforce
  qed
  then have "case key_hold cfg (ru_key r) of None \<Rightarrow> True
      | Some h \<Rightarrow> h \<le> 0 \<or> (\<exists>s. sustained_since cfg ts (ru_key r) s \<and> h \<le> time_sub (tk_now t) s)"
    by (simp split: option.split)
  with seen show ?thesis unfolding justified_def prod.case
    by (intro exI [of _ ts] exI [of _ t] exI [of _ "[]"]) simp
qed

lemma sus_inv_next:
  assumes "sus_inv cfg ts t (tick_rules cfg t) a" and "key_hold cfg k \<noteq> None"
    and "gm_get (al_sustained a) k = Some s"
  shows "sustained_since cfg (ts @ [t]) k s"
proof -
  from assms consider "s = tk_now t" "seen_at cfg k t"
    | "sustained_since cfg ts k s" "unbroken k (tick_rules cfg t)"
    unfolding sus_inv_def by blast
  then show ?thesis
  proof cases
    case 1
    then show ?thesis unfolding sustained_since_def by fastforce
  next
    case 2
    then obtain p1 t0 mid where "ts = p1 @ t0 # mid" "tk_now t0 = s" "seen_at cfg k t0"
      "list_all (\<lambda>t. unbroken k (tick_rules cfg t)) mid"
      unfolding sustained_since_def by blast
    with 2(2) show ?thesis unfolding sustained_since_def
      by (intro exI [of _ p1] exI [of _ t0] exI [of _ "mid @ [t]"]) simp
  qed
qed

text \<open>C1: No alert without its cause. Every alert of a run was raised at an evaluation whose snapshot
  satisfied the condition of its key; and if the key has a positive duration or grace period, there
  is an earlier evaluation, at least that long ago, at which the condition was already seen, and no
  evaluation in between saw it not to hold.\<close>

theorem alert_justified:
  "list_all (justified cfg ts) (al_fires (alerter_run ts (NewAlerter ps cfg)))"
proof -
  let ?P = "\<lambda>ts a. list_all (justified cfg ts) (al_fires a) \<and>
      (\<forall>k s. key_hold cfg k \<noteq> None \<longrightarrow> gm_get (al_sustained a) k = Some s \<longrightarrow> sustained_since cfg ts k s)"
  let ?Q = "\<lambda>ts t (rs :: rule list) a. list_all (justified cfg (ts @ [t])) (al_fires a) \<and> sus_inv cfg ts t rs a"
  have "?P ts (alerter_run ts (NewAlerter ps cfg))"
  proof (rule run_invariant [where P = ?P and Q = ?Q])
    fix ts t a assume m: "maps_ok a" and P: "?P ts a"
    then have "sus_inv cfg ts t [] (cleanup (tk_now t) a)"
      by (auto simp: sus_inv_def cleanup_parts unbroken_def split: option.splits if_splits)
    with P m show "?Q ts t [] (cleanup (tk_now t) a)"
      by (auto simp: cleanup_parts list_all_iff justified_snoc)
  next
    fix ts t rs r a assume r: "r \<in> set (tick_rules cfg t)" and Q: "?Q ts t rs a"
    have "list_all (justified cfg (ts @ [t])) (al_fires (apply_rule (tk_now t) r a))"
      using Q justified_rule [OF conjunct2 [OF Q] r] by (simp add: apply_rule_fires)
    with Q r sus_inv_rule show "?Q ts t (rs @ [r]) (apply_rule (tk_now t) r a)" by blast
  next
    fix ts t a assume "?Q ts t (tick_rules cfg t) a"
    then show "?P (ts @ [t]) a" using sus_inv_next by blast
  qed simp
  then show ?thesis by blast
qed

section \<open>A hold longer than six hours\<close>

lemma long_hold_not_ready:
  assumes "\<forall>s. gm_get (al_sustained a) (ru_key r) = Some s \<longrightarrow> time_sub now s \<le> 6 * hour"
    and "ru_for r = Some h" and "6 * hour < h"
  shows "\<not> ready now r a"
  using assms by (auto simp: ready_def split: option.splits)

text \<open>C14: a duration or grace period above six hours disables the alert: the entry that remembers
  since when the condition holds is itself deleted after six hours, so no alert with such a key is
  ever raised, however long the condition lasts.\<close>

theorem long_hold_never_fires:
  assumes "key_hold cfg k = Some h" and "6 * hour < h"
  shows "k \<notin> fst ` set (al_fires (alerter_run ts (NewAlerter ps cfg)))"
proof -
  let ?P = "\<lambda>(ts :: tick list) a. k \<notin> fst ` set (al_fires a)"
  let ?Q = "\<lambda>(ts :: tick list) t (rs :: rule list) a. k \<notin> fst ` set (al_fires a) \<and>
      (\<forall>s. gm_get (al_sustained a) k = Some s \<longrightarrow> time_sub (tk_now t) s \<le> 6 * hour)"
  show ?thesis
  proof (rule run_invariant [where P = ?P and Q = ?Q])
    fix ts t a assume "maps_ok a" and "?P ts a"
    then show "?Q ts t [] (cleanup (tk_now t) a)"
      by (auto simp: cleanup_parts split: option.splits if_splits)
  next
    fix ts t rs r and a :: alerter
    assume r: "r \<in> set (tick_rules cfg t)" and Q: "?Q ts t rs a"
    have z: "time_sub u u = 0" for u by (simp add: time_sub_def min_i64_def max_i64_def)
    have "\<not> ready (tk_now t) r a" if "ru_key r = k"
      using that Q tick_keyed [OF r] assms by (intro long_hold_not_ready [where h = h]) auto
    with Q show "?Q ts t (rs @ [r]) (apply_rule (tk_now t) r a)"
      by (auto simp: apply_rule_fires apply_rule_sustained sustained_after_def z)
  qed simp_all
qed

theorem long_hold_never_fires_witness:
  "\<forall>ts ps. ''guest_down:pve/100'' \<notin> fst ` set (al_fires (alerter_run ts (NewAlerter ps
     (DefaultAlertConfig\<lparr>ac_guestdown := Some \<lparr>ga_grace = 12 * hour, ga_severity = [], ga_cooldown = 0\<rparr>\<rparr>))))"
  by (intro allI long_hold_never_fires [where h = "12 * hour"]) (simp_all add: key_hold_def has_prefix_Cons)

section \<open>No condition without an alert\<close>

text \<open>An alert with the key was raised now, or so recently that its cooldown has not passed.\<close>

definition alerted :: "alert_config \<Rightarrow> gotime \<Rightarrow> string \<Rightarrow> alerter \<Rightarrow> bool" where
  "alerted cfg now k a \<longleftrightarrow>
     list_ex (\<lambda>(k', s). k' = k \<and> (s = now \<or> time_sub now s < key_cooldown cfg k)) (al_fires a)"

definition fired_logged :: "alerter \<Rightarrow> bool" where
  "fired_logged a \<longleftrightarrow> (\<forall>k p. gm_get (al_fired a) k = Some p \<longrightarrow> (k, p) \<in> set (al_fires a))"

lemma alerted_rule: "alerted cfg now k a \<Longrightarrow> alerted cfg now k (apply_rule now' r a)"
  by (simp add: alerted_def apply_rule_fires)

lemma alerted_rules: "alerted cfg now k a \<Longrightarrow> alerted cfg now k (fold (apply_rule now') rs a)"
  by (rule fold_invariant) (simp_all add: alerted_rule)

lemma fired_logged_rule: "fired_logged a \<Longrightarrow> fired_logged (apply_rule now r a)"
  by (simp add: fired_logged_def apply_rule_parts)

lemma ready_alerted:
  assumes "ready now r a" and "fired_logged a" and "ru_cooldown r = key_cooldown cfg (ru_key r)"
  shows "alerted cfg now (ru_key r) (apply_rule now r a)"
proof (cases "cooling now r a")
  case True
  then obtain p where "gm_get (al_fired a) (ru_key r) = Some p" "time_sub now p < ru_cooldown r"
    by (auto simp: cooling_def split: option.splits)
  with assms show ?thesis
    by (auto simp: alerted_def fired_logged_def apply_rule_fires list_ex_iff)
qed (use assms(1) in \<open>simp add: alerted_def apply_rule_fires\<close>)

lemma fired_logged_cleanup: "maps_ok a \<Longrightarrow> fired_logged a \<Longrightarrow> fired_logged (cleanup now a)"
  by (auto simp: fired_logged_def cleanup_parts split: option.splits if_splits)

lemma fired_logged_run: "fired_logged (alerter_run ts (NewAlerter ps cfg))"
  by (rule run_invariant [where P = "\<lambda>ts. fired_logged" and Q = "\<lambda>ts t rs. fired_logged"])
    (simp_all add: fired_logged_def [of "NewAlerter ps cfg"] fired_logged_cleanup fired_logged_rule)

lemma instant_fold:
  "fired_logged a \<Longrightarrow> r \<in> set rs \<Longrightarrow> (\<And>r. r \<in> set rs \<Longrightarrow> ru_cooldown r = key_cooldown cfg (ru_key r)) \<Longrightarrow>
   (\<And>a. Q a \<Longrightarrow> ready now r a) \<Longrightarrow> (\<And>a r. r \<in> set rs \<Longrightarrow> Q a \<Longrightarrow> Q (apply_rule now r a)) \<Longrightarrow> Q a \<Longrightarrow>
   alerted cfg now (ru_key r) (fold (apply_rule now) rs a)"
proof (induction rs arbitrary: a)
  case (Cons r' rs)
  show ?case
  proof (cases "r' = r")
    case True
    then have "alerted cfg now (ru_key r) (apply_rule now r' a)"
      using ready_alerted [of now r a cfg] Cons.prems by simp
    then show ?thesis by (simp add: alerted_rules)
  next
    case False
    with Cons.prems show ?thesis
      using Cons.IH [of "apply_rule now r' a"] fired_logged_rule by simp
  qed
qed simp

lemma instant_alert:
  assumes "r \<in> set (tick_rules cfg t)" and "ru_holds r" and "key_hold cfg (ru_key r) = None"
  shows "alerted cfg (tk_now t) (ru_key r) (alerter_run (ts @ [t]) (NewAlerter ps cfg))"
proof -
  let ?a = "alerter_run ts (NewAlerter ps cfg)"
  have "ready (tk_now t) r b" for b
    using assms tick_keyed [OF assms(1)] by (simp add: ready_def)
  moreover have "fired_logged (cleanup (tk_now t) ?a)"
    by (simp add: fired_logged_cleanup maps_ok_run fired_logged_run)
  ultimately show ?thesis
    using instant_fold [of "cleanup (tk_now t) ?a" r "tick_rules cfg t" cfg "\<lambda>_. True"] assms tick_keyed
    by (simp add: run_snoc eval_tick_rules)
qed

text \<open>C4: No instant condition is missed: when the condition of a rule without a duration (a stale
  backup, a failed or suspicious disk, a full or unreachable datastore) holds at an evaluation, an
  alert with its key is raised then, unless one was raised less than the cooldown ago.\<close>

theorem instant_alert_raised:
  assumes "r \<in> set (tick_rules cfg t)" and "ru_holds r" and "key_hold cfg (ru_key r) = None"
  shows "alerted cfg (tk_now t) (ru_key r) (alerter_run (ts @ [t]) (NewAlerter ps cfg))"
  using assms by (rule instant_alert)

text \<open>A small snapshot for the examples: a failed disk and a stopped guest.\<close>

definition sample_guest :: guest where
  "sample_guest = \<lparr>g_instance = ''p'', g_node = ''n'', g_cluster = ''p'', g_type = ''lxc'', g_vmid = 7,
     g_name = ''web'', g_status = ''stopped'', g_cpu = Fin 0, g_cpus = 1, g_mem = 0, g_maxmem = 0,
     g_disk = 0, g_maxdisk = 0, g_netin = 0, g_netout = 0, g_uptime = 0\<rparr>"

definition sample_tick :: "gotime \<Rightarrow> tick" where
  "sample_tick t = \<lparr>tk_cache = cache_new\<lparr>c_guests := [(''p'', [(7, sample_guest)])],
     c_disks := [(''w'', zero_disk\<lparr>d_health := ''FAILED''\<rparr>)]\<rparr>, tk_now = t, tk_clk = \<lambda>_ _. t\<rparr>"

lemma sample_rules:
  "map ru_key (tick_rules DefaultAlertConfig (sample_tick t)) = [''guest_down:p/'' @ itoa 7, ''disk_smart:w'', ''disk_scrutiny:w'']"
  "map ru_holds (tick_rules DefaultAlertConfig (sample_tick t)) = [True, True, False]"
  by (simp_all add: tick_rules_def rules_def sample_tick_def Snapshot_def cache_new_def gm_build_def gm_copy_def
      gm_put_def nested_rules_def guest_rules_def disk_rules_def DefaultAlertConfig_def sample_guest_def
      zero_disk_def status_defs)

lemma sample_rule_list:
  obtains r1 r2 r3 where "tick_rules DefaultAlertConfig (sample_tick t) = [r1, r2, r3]"
    "ru_key r1 = ''guest_down:p/'' @ itoa 7" "ru_key r2 = ''disk_smart:w''" "ru_key r3 = ''disk_scrutiny:w''"
    "ru_holds r1" "ru_holds r2" "\<not> ru_holds r3"
proof -
  obtain r1 r2 r3 where "tick_rules DefaultAlertConfig (sample_tick t) = [r1, r2, r3]"
    using sample_rules(1) [of t] by (auto simp: map_eq_Cons_conv)
  with sample_rules [of t] that show thesis by simp
qed

lemma sample_now [simp]: "tk_now (sample_tick t) = t"
  by (simp add: sample_tick_def)

theorem instant_alert_raised_witness:
  "alerted DefaultAlertConfig 5 ''disk_smart:w'' (alerter_run [sample_tick 5] (NewAlerter [''ntfy''] DefaultAlertConfig))"
proof -
  obtain r1 r2 r3 where r: "tick_rules DefaultAlertConfig (sample_tick 5) = [r1, r2, r3]"
    "ru_key r2 = ''disk_smart:w''" "ru_holds r2" by (rule sample_rule_list)
  then have "r2 \<in> set (tick_rules DefaultAlertConfig (sample_tick 5))" by simp
  moreover have "key_hold DefaultAlertConfig (ru_key r2) = None" by (simp add: r key_hold_def has_prefix_Cons)
  ultimately show ?thesis
    using instant_alert_raised [of r2 DefaultAlertConfig "sample_tick 5" "[]" "[''ntfy'']"] r by simp
qed

section \<open>No sustained condition without an alert\<close>

lemma tick_sustained:
  assumes "unbroken k rs" and "list_all (\<lambda>r. ru_for r \<noteq> None) (filter (\<lambda>r. ru_key r = k) rs)"
  shows "gm_get (al_sustained (fold (apply_rule now) rs a)) k =
    (case gm_get (al_sustained a) k of Some s \<Rightarrow> Some s
     | None \<Rightarrow> if list_ex (\<lambda>r. ru_key r = k) rs then Some now else None)"
  using assms
proof (induction rs arbitrary: a)
  case (Cons r rs)
  then have IH: "gm_get (al_sustained (fold (apply_rule now) rs (apply_rule now r a))) k =
    (case gm_get (al_sustained (apply_rule now r a)) k of Some s \<Rightarrow> Some s
     | None \<Rightarrow> if list_ex (\<lambda>r. ru_key r = k) rs then Some now else None)"
    by (intro Cons.IH) (auto simp: unbroken_def split: if_splits)
  show ?case
  proof (cases "ru_key r = k")
    case True
    with Cons.prems have "ru_holds r" "ru_for r \<noteq> None" by (auto simp: unbroken_def)
    with True IH show ?thesis
      by (auto simp: apply_rule_sustained sustained_after_def gm_mem_def split: option.splits)
  next
    case False
    then have "gm_get (al_sustained (apply_rule now r a)) k = gm_get (al_sustained a) k"
      by (auto simp: apply_rule_sustained sustained_after_def)
    with False IH show ?thesis by simp
  qed
qed (simp split: option.split)

lemma tick_broken:
  assumes "list_all (\<lambda>r. ru_key r = k \<longrightarrow> \<not> ru_holds r \<and> ru_for r \<noteq> None) rs"
    and "list_ex (\<lambda>r. ru_key r = k) rs \<or> gm_get (al_sustained a) k = None"
  shows "gm_get (al_sustained (fold (apply_rule now) rs a)) k = None"
  using assms
proof (induction rs arbitrary: a)
  case (Cons r rs)
  have "gm_get (al_sustained (apply_rule now r a)) k =
      (if ru_key r = k then None else gm_get (al_sustained a) k)"
    using Cons.prems(1) by (auto simp: apply_rule_sustained sustained_after_def)
  with Cons.prems(2) have "list_ex (\<lambda>r. ru_key r = k) rs \<or> gm_get (al_sustained (apply_rule now r a)) k = None"
    by auto
  with Cons.IH Cons.prems(1) show ?case by simp
qed simp

text \<open>Before the tick \<open>t0\<close> the condition of the key was not known to hold: nothing was evaluated yet, or
  the last evaluation saw it not to hold.\<close>

definition fresh :: "alert_config \<Rightarrow> string \<Rightarrow> tick list \<Rightarrow> bool" where
  "fresh cfg k pre \<longleftrightarrow> pre = [] \<or>
     list_ex (\<lambda>r. ru_key r = k) (tick_rules cfg (last pre)) \<and>
     list_all (\<lambda>r. ru_key r = k \<longrightarrow> \<not> ru_holds r) (tick_rules cfg (last pre))"

lemma hold_rules:
  "key_hold cfg k \<noteq> None \<Longrightarrow> list_all (\<lambda>r. ru_for r \<noteq> None) (filter (\<lambda>r. ru_key r = k) (tick_rules cfg t))"
  by (auto simp: list_all_iff dest: tick_keyed)

lemma fresh_absent:
  assumes "fresh cfg k pre" and "key_hold cfg k \<noteq> None"
  shows "gm_get (al_sustained (alerter_run pre (NewAlerter ps cfg))) k = None"
proof (cases pre rule: rev_cases)
  case Nil
  then show ?thesis by (simp add: alerter_run_def)
next
  case (snoc p t)
  with assms have "list_all (\<lambda>r. ru_key r = k \<longrightarrow> \<not> ru_holds r \<and> ru_for r \<noteq> None) (tick_rules cfg t)"
    using hold_rules [OF assms(2), of t] by (auto simp: fresh_def list_all_iff)
  moreover have "list_ex (\<lambda>r. ru_key r = k) (tick_rules cfg t)"
    using assms snoc by (simp add: fresh_def)
  ultimately show ?thesis by (simp add: snoc run_snoc eval_tick_rules tick_broken)
qed

lemma sustained_kept:
  assumes "key_hold cfg k \<noteq> None" and "gm_get (al_sustained a) k = Some s" and "maps_ok a" and "al_config a = cfg"
    and "list_all (\<lambda>t. unbroken k (tick_rules cfg t) \<and> time_sub (tk_now t) s \<le> 6 * hour) mid"
  shows "gm_get (al_sustained (alerter_run mid a)) k = Some s"
  using assms
proof (induction mid arbitrary: a)
  case (Cons t mid)
  have "gm_get (al_sustained (eval_tick t a)) k = Some s"
    using Cons.prems tick_sustained [of k "tick_rules cfg t" "tk_now t" "cleanup (tk_now t) a"] hold_rules [of cfg k t]
    by (simp add: eval_tick_rules cleanup_parts)
  with Cons.IH [of "eval_tick t a"] Cons.prems show ?case
    by (simp add: alerter_run_eq maps_ok_tick)
qed (simp add: alerter_run_def)

text \<open>C3: No sustained condition is missed: once the condition of a key with a duration (a node's CPU
  or memory, a guest that is down) is first seen, and no evaluation sees it not to hold until, at
  least the duration and at most six hours later, it is seen again, an alert with the key is raised
  then, unless one was raised less than the cooldown ago.\<close>

theorem sustained_alert_raised:
  assumes "key_hold cfg k = Some h" and "fresh cfg k pre"
    and "sorted (map tk_now (t0 # mid @ [t]))"
    and "list_all (\<lambda>t. unbroken k (tick_rules cfg t)) (t0 # mid @ [t])"
    and "seen_at cfg k t0" and "seen_at cfg k t"
    and "h \<le> time_sub (tk_now t) (tk_now t0)" and "time_sub (tk_now t) (tk_now t0) \<le> 6 * hour"
  shows "alerted cfg (tk_now t) k (alerter_run (pre @ t0 # mid @ [t]) (NewAlerter ps cfg))"
proof -
  let ?n = "NewAlerter ps cfg" and ?s = "tk_now t0"
  let ?b = "alerter_run (pre @ [t0]) ?n"
  let ?a = "alerter_run mid ?b"
  have h: "key_hold cfg k \<noteq> None" using assms(1) by simp
  have e: "alerter_run (pre @ t0 # mid) ?n = ?a" by (simp add: alerter_run_def)
  have sub: "time_sub (tk_now t') ?s \<le> 6 * hour" if "t' \<in> set (mid @ [t])" for t'
    using that assms(3,8) time_sub_mono [of "tk_now t'" "tk_now t" ?s] by (auto simp: sorted_append)
  have seen: "list_ex (\<lambda>r. ru_key r = k) (tick_rules cfg t')" if "seen_at cfg k t'" for t'
    using that by (auto simp: seen_at_def list_ex_iff)
  have "gm_get (al_sustained ?b) k = Some ?s"
    using tick_sustained [of k "tick_rules cfg t0" ?s "cleanup ?s (alerter_run pre ?n)"] assms(4) seen [OF assms(5)]
      hold_rules [OF h, of t0] fresh_absent [OF assms(2) h, of ps]
    by (simp add: run_snoc eval_tick_rules cleanup_parts maps_ok_run)
  then have "gm_get (al_sustained ?a) k = Some ?s"
    by (rule sustained_kept [OF h]) (use assms(4) sub in \<open>auto simp: list_all_iff maps_ok_run\<close>)
  then have s: "gm_get (al_sustained (cleanup (tk_now t) ?a)) k = Some ?s"
    using sub [of t] maps_ok_run [of "pre @ t0 # mid" ps cfg] e by (simp add: cleanup_parts)
  from assms(6) obtain r where r: "r \<in> set (tick_rules cfg t)" "ru_key r = k" "ru_holds r"
    by (auto simp: seen_at_def list_ex_iff)
  let ?Q = "\<lambda>b. gm_get (al_sustained b) k = Some ?s"
  have "alerted cfg (tk_now t) (ru_key r)
      (fold (apply_rule (tk_now t)) (tick_rules cfg t) (cleanup (tk_now t) ?a))"
  proof (rule instant_fold [where Q = ?Q])
    show "fired_logged (cleanup (tk_now t) ?a)"
      using maps_ok_run [of "pre @ t0 # mid" ps cfg] fired_logged_run [of "pre @ t0 # mid" ps cfg] e
      by (simp add: fired_logged_cleanup)
    show "ready (tk_now t) r b" if "?Q b" for b
      using that r tick_keyed [OF r(1)] assms(1,7) by (simp add: ready_def)
    show "?Q (apply_rule (tk_now t) r' b)" if "r' \<in> set (tick_rules cfg t)" "?Q b" for b r'
      using that assms(4) by (auto simp: apply_rule_sustained sustained_after_def gm_mem_def unbroken_def list_all_iff)
  qed (use r s tick_keyed in auto)
  moreover have "alerter_run (pre @ t0 # mid @ [t]) ?n = eval_tick t ?a"
    by (simp add: alerter_run_eq)
  ultimately show ?thesis by (simp add: r(2) eval_tick_rules)
qed

theorem sustained_alert_raised_witness:
  "alerted DefaultAlertConfig (120 * second) (''guest_down:p/'' @ itoa 7)
     (alerter_run [sample_tick 0, sample_tick (120 * second)] (NewAlerter [''ntfy''] DefaultAlertConfig))"
proof -
  let ?k = "''guest_down:p/'' @ itoa 7"
  have k: "key_hold DefaultAlertConfig ?k = Some (2 * minute)"
    by (simp add: key_hold_def has_prefix_Cons DefaultAlertConfig_def)
  have u: "unbroken ?k (tick_rules DefaultAlertConfig (sample_tick t))" for t
    by (rule sample_rule_list [of t]) (simp add: unbroken_def)
  have s: "seen_at DefaultAlertConfig ?k (sample_tick t)" for t
    by (rule sample_rule_list [of t]) (simp add: seen_at_def)
  show ?thesis
    using sustained_alert_raised [OF k, of "[]" "sample_tick 0" "[]" "sample_tick (120 * second)" "[''ntfy'']"] u s
    by (simp add: fresh_def time_sub_def min_i64_def max_i64_def)
qed

section \<open>What an alert does\<close>

text \<open>The rows an alert leaves in the alert log and the messages sent to one provider.\<close>

fun logged :: "effect \<Rightarrow> (string \<times> string \<times> string \<times> string \<times> string) option" where
  "logged (InsertAlert ts ty inst subj msg sev) = Some (ty, inst, subj, msg, sev)"
| "logged (SendTo p n) = None"

fun sent_to :: "string \<Rightarrow> effect \<Rightarrow> (string \<times> string \<times> string \<times> string \<times> string) option" where
  "sent_to p (InsertAlert ts ty inst subj msg sev) = None"
| "sent_to p (SendTo q n) =
     (if q = p then Some (nt_type n, nt_instance n, nt_subject n, nt_message n, nt_severity n) else None)"

lemma map_filter_append: "List.map_filter f (xs @ ys) = List.map_filter f xs @ List.map_filter f ys"
  by (simp add: List.map_filter_def)

lemma map_filter_sent:
  "distinct ps \<Longrightarrow> List.map_filter (sent_to p) (map (\<lambda>q. SendTo q n) ps) =
     (if p \<in> set ps then [(nt_type n, nt_instance n, nt_subject n, nt_message n, nt_severity n)] else [])"
  by (induction ps) auto

lemma map_filter_logged: "List.map_filter logged (map (\<lambda>q. SendTo q n) ps) = []"
  by (induction ps) auto

text \<open>What an alert does: each alert adds one row to the alert log, and every provider is sent
  exactly those alerts, each once and in the same order, with the type, instance, subject, message
  and severity that were logged.\<close>

theorem alert_effects:
  assumes "distinct ps" and "p \<in> set ps"
  shows "length (List.map_filter logged (al_effects (alerter_run ts (NewAlerter ps cfg)))) =
      length (al_fires (alerter_run ts (NewAlerter ps cfg))) \<and>
    List.map_filter (sent_to p) (al_effects (alerter_run ts (NewAlerter ps cfg))) =
      List.map_filter logged (al_effects (alerter_run ts (NewAlerter ps cfg)))"
proof -
  let ?I = "\<lambda>a. al_providers a = ps \<and>
    length (List.map_filter logged (al_effects a)) = length (al_fires a) \<and>
    List.map_filter (sent_to p) (al_effects a) = List.map_filter logged (al_effects a)"
  have "?I (alerter_run ts (NewAlerter ps cfg))"
  proof (rule run_invariant [where P = "\<lambda>ts. ?I" and Q = "\<lambda>ts t rs. ?I"])
    fix ts :: "tick list" and t :: tick and rs :: "rule list" and r and a :: alerter assume "?I a"
    then show "?I (apply_rule (tk_now t) r a)"
      using assms by (simp add: apply_rule_eq map_filter_append map_filter_sent map_filter_logged)
  qed (simp_all add: cleanup_parts)
  then show ?thesis by blast
qed

theorem alert_effects_witness:
  "List.map_filter (sent_to ''ntfy'') (al_effects (alerter_run [sample_tick 5] (NewAlerter [''ntfy''] DefaultAlertConfig))) =
   List.map_filter logged (al_effects (alerter_run [sample_tick 5] (NewAlerter [''ntfy''] DefaultAlertConfig)))"
  using alert_effects [of "[''ntfy'']" "''ntfy''" "[sample_tick 5]" DefaultAlertConfig] by simp

end
