(* ===== verification/Helpers.thy ===== *)
theory Helpers
  imports Alerter SmartTable "HOL-Library.List_Lexorder" "HOL-Library.Char_ord" "HOL-Library.Product_Lexorder"
begin

text \<open>
  \<open>templates/helpers.go\<close>: what the HTML templates compute. Readings of the clock are parameters (\<open>clk\<close>), and
  so are the offset of the local time zone from UTC (\<open>tz\<close>, in seconds) and the conversion \<open>oor\<close> of an
  out-of-range \<open>float64\<close>. Maps are visited in the order of their lists; the sorted lists are proved for
  every result \<open>sort.Slice\<close> may give. Strings are compared byte by byte.
\<close>

section \<open>Numbers and sizes\<close>

text \<open>The divisor and the index of the unit; the loop runs while \<open>n\<close> is at least 1024.\<close>

function bytes_unit :: "int \<Rightarrow> int \<Rightarrow> nat \<Rightarrow> int \<times> nat" where
  "bytes_unit n dv ex = (if n \<ge> 1024 then bytes_unit (n div 1024) (wrap64 (dv * 1024)) (ex + 1) else (dv, ex))"
  by pat_completeness auto
termination by (relation "measure (\<lambda>(n, dv, ex). nat n)") auto

declare bytes_unit.simps [simp del]

definition byte_units :: "string list" where
  "byte_units = [''KB'', ''MB'', ''GB'', ''TB'', ''PB'', ''EB'']"

text \<open>\<open>None\<close> would be the panic of an index out of range.\<close>

definition FormatBytes :: "int \<Rightarrow> string option" where
  "FormatBytes b =
     (if b < 1024 then Some (itoa b @ '' B'')
      else let (dv, ex) = bytes_unit (b div 1024) 1024 0
           in if ex < length byte_units
              then Some (fmt_fixed 1 (fdiv (f64_of_int b) (f64_of_int dv)) @ '' '' @ byte_units ! ex) else None)"

definition FormatPct :: "f64 \<Rightarrow> string" where
  "FormatPct v = fmt_fixed 0 v @ ''%''"

definition FormatUptime :: "int \<Rightarrow> string" where
  "FormatUptime secs =
     (let d = secs sdiv 86400; h = (secs smod 86400) sdiv 3600
      in if d > 0 then itoa d @ ''d '' @ itoa h @ ''h''
         else let m = (secs smod 3600) sdiv 60 in itoa h @ ''h '' @ itoa m @ ''m'')"

definition FormatDuration :: "(f64 \<Rightarrow> int) \<Rightarrow> duration \<Rightarrow> string" where
  "FormatDuration oor d =
     (let secs = f64_to_i64 oor (dur_seconds d); mins = f64_to_i64 oor (dur_minutes d);
          hrs = f64_to_i64 oor (dur_hours d)
      in if d < minute then itoa secs @ ''s''
         else if d < hour then itoa mins @ ''m '' @ itoa (secs smod 60) @ ''s''
         else itoa hrs @ ''h '' @ itoa (mins smod 60) @ ''m'')"

definition FormatAge :: "(f64 \<Rightarrow> int) \<Rightarrow> gotime \<Rightarrow> int \<Rightarrow> string" where
  "FormatAge oor clk unixTS =
     (let age = time_sub clk (time_of_unix unixTS)
      in if age < hour then itoa (f64_to_i64 oor (dur_minutes age)) @ ''m''
         else if age < 24 * hour then itoa (f64_to_i64 oor (dur_hours age)) @ ''h''
         else itoa (f64_to_i64 oor (fdiv (dur_hours age) (Fin 24))) @ ''d'')"

text \<open>\<open>Time.Format\<close> with the layout \<open>2006-01-02 15:04\<close>: the civil date of a day number (days since
  1970-01-01, proleptic Gregorian calendar).\<close>

definition civil_date :: "int \<Rightarrow> int \<times> int \<times> int" where
  "civil_date days =
     (let z = days + 719468; era = z div 146097; doe = z mod 146097;
          yoe = (doe - doe div 1460 + doe div 36524 - doe div 146096) div 365;
          doy = doe - (365 * yoe + yoe div 4 - yoe div 100);
          mp = (5 * doy + 2) div 153; d = doy - (153 * mp + 2) div 5 + 1;
          m = (if mp < 10 then mp + 3 else mp - 9)
      in (yoe + era * 400 + (if m \<le> 2 then 1 else 0), m, d))"

definition pad_int :: "nat \<Rightarrow> int \<Rightarrow> string" where
  "pad_int w i = (if i < 0 then CHR ''-'' # pad_left w (digits10 (nat (- i))) else pad_left w (digits10 (nat i)))"

definition FormatTime :: "(gotime \<Rightarrow> int) \<Rightarrow> int \<Rightarrow> string" where
  "FormatTime tz unixTS =
     (let t = time_of_unix unixTS; secs = unix_of_time t + tz t; (y, m, d) = civil_date (secs div 86400);
          tod = secs mod 86400
      in pad_int 4 y @ ''-'' @ pad_int 2 m @ ''-'' @ pad_int 2 d @ '' '' @ pad_int 2 (tod div 3600) @ '':'' @
         pad_int 2 (tod mod 3600 div 60))"

definition MemPct :: "int \<Rightarrow> int \<Rightarrow> f64" where
  "MemPct used tot = (if tot = 0 then Fin 0 else pct_of used tot)"

definition ProgressBarWidth :: "f64 \<Rightarrow> f64" where
  "ProgressBarWidth pct = (if flt (Fin 100) pct then Fin 100 else if flt pct (Fin 0) then Fin 0 else pct)"

definition ProgressBarClass :: "f64 \<Rightarrow> string" where
  "ProgressBarClass pct =
     (if fle (Fin 90) pct then ''bar-crit'' else if fle (Fin 75) pct then ''bar-warn'' else ''bar-ok'')"

section \<open>Status classes\<close>

definition DiskStatusClass :: "int \<Rightarrow> string" where
  "DiskStatusClass status =
     (if status AND StatusFailedSmart \<noteq> 0 \<or> status AND StatusFailedScrutiny \<noteq> 0 then ''chip-crit''
      else if status AND StatusWarnScrutiny \<noteq> 0 then ''chip-warn''
      else if status AND StatusUnknown \<noteq> 0 then ''chip-unk''
      else if status AND StatusInternalError \<noteq> 0 then ''chip-warn''
      else ''chip-ok'')"

definition GuestStatusClass :: "string \<Rightarrow> string" where
  "GuestStatusClass status =
     (if status = ''running'' then ''chip-ok'' else if status = ''stopped'' then ''chip-crit'' else ''chip-warn'')"

definition BackupStatusLabel :: "gotime \<Rightarrow> int \<Rightarrow> f64 \<Rightarrow> string" where
  "BackupStatusLabel clk backupTime staleHours =
     (let age = time_sub clk (time_of_unix backupTime)
      in if flt staleHours (dur_hours age) then ''Stale'' else ''Ok'')"

definition BackupStatusClass :: "gotime \<Rightarrow> int \<Rightarrow> f64 \<Rightarrow> string" where
  "BackupStatusClass clk backupTime staleHours =
     (let age = time_sub clk (time_of_unix backupTime)
      in if flt staleHours (dur_hours age) then ''chip-warn'' else ''chip-ok'')"

definition TaskStatusClass :: "string \<Rightarrow> string" where
  "TaskStatusClass status =
     (if status = ''OK'' \<or> status = [] then ''chip-ok''
      else if length status \<ge> 5 \<and> take 5 status = ''Error'' then ''chip-crit'' else ''chip-warn'')"

section \<open>Counting\<close>

definition CountGuestsByStatus :: "(string, (int, guest) gomap) gomap \<Rightarrow> int \<times> int" where
  "CountGuestsByStatus guests =
     fold (\<lambda>(cl, gs). fold (\<lambda>(vmid, g) (running, stopped).
       if g_status g = ''running'' then (running + 1, stopped) else (running, stopped + 1)) gs) guests (0, 0)"

definition count_entries :: "('a, ('b, 'c) gomap) gomap \<Rightarrow> int" where
  "count_entries m = fold (\<lambda>(k, inner) tot. tot + int (length inner)) m 0"

definition NodeCount :: "(string, (string, node) gomap) gomap \<Rightarrow> int" where
  "NodeCount nodes = count_entries nodes"

definition DatastoreCount :: "(string, (string, datastore_status) gomap) gomap \<Rightarrow> int" where
  "DatastoreCount datastores = count_entries datastores"

text \<open>The separator is the UTF-8 encoding of the middle dot.\<close>

definition HeaderSummary :: "cache_snapshot \<Rightarrow> string" where
  "HeaderSummary snap =
     itoa (count_entries (c_nodes snap)) @ '' nodes '' @ [CHR 0xC2, CHR 0xB7] @ '' '' @
     itoa (fst (CountGuestsByStatus (c_guests snap))) @ '' running''"

definition OldestPoll :: "(f64 \<Rightarrow> int) \<Rightarrow> gotime \<Rightarrow> (string, gotime) gomap \<Rightarrow> string" where
  "OldestPoll oor clk lastPoll =
     (if lastPoll = [] then ''never''
      else let oldest = fold (\<lambda>(k, t) oldest. if oldest = zero_time \<or> t < oldest then t else oldest) lastPoll zero_time
           in itoa (f64_to_i64 oor (dur_seconds (time_sub clk oldest))) @ ''s ago'')"

section \<open>Sorted lists\<close>

definition entries :: "('a, ('b, 'c) gomap) gomap \<Rightarrow> ('a \<times> 'c) list" where
  "entries m = fold (\<lambda>(k, inner) acc. fold (\<lambda>(j, v) acc. acc @ [(k, v)]) inner acc) m []"

definition node_order :: "string \<times> node \<Rightarrow> string" where
  "node_order = (\<lambda>(i, n). i @ ''/'' @ n_name n)"

definition SortedNodeList :: "(string, (string, node) gomap) gomap \<Rightarrow> (string \<times> node) list" where
  "SortedNodeList nodes = sort_slice (\<lambda>x y. node_order x < node_order y) (entries nodes)"

definition datastore_order :: "string \<times> datastore_status \<Rightarrow> string" where
  "datastore_order = (\<lambda>(i, ds). i @ ''/'' @ ds_name ds)"

definition SortedDatastoreList :: "(string, (string, datastore_status) gomap) gomap \<Rightarrow> (string \<times> datastore_status) list" where
  "SortedDatastoreList datastores = sort_slice (\<lambda>x y. datastore_order x < datastore_order y) (entries datastores)"

definition SortedGuestList :: "(string, (int, guest) gomap) gomap \<Rightarrow> guest list" where
  "SortedGuestList guests = sort_slice (\<lambda>x y. g_vmid x < g_vmid y) (map snd (entries guests))"

definition SortedDiskList :: "(string, disk) gomap \<Rightarrow> disk list" where
  "SortedDiskList disks = sort_slice (\<lambda>x y. d_devpath x < d_devpath y) (map snd disks)"

definition backup_before :: "backup \<Rightarrow> backup \<Rightarrow> bool" where
  "backup_before x y =
     (if b_time x \<noteq> b_time y then b_time x > b_time y
      else if b_id x \<noteq> b_id y then b_id x < b_id y
      else b_datastore x < b_datastore y)"

definition AllBackupsSorted :: "(string, (string, backup) gomap) gomap \<Rightarrow> backup list" where
  "AllBackupsSorted backups = sort_slice backup_before (map snd (entries backups))"

definition backupIDMatchesVMID :: "string \<Rightarrow> string \<Rightarrow> bool" where
  "backupIDMatchesVMID backupID vmidStr \<longleftrightarrow> backupID = vmidStr \<or> has_suffix backupID (''-'' @ vmidStr)"

definition BackupsForGuest :: "(string, (string, backup) gomap) gomap \<Rightarrow> int \<Rightarrow> backup list" where
  "BackupsForGuest backups vmid =
     sort_slice (\<lambda>x y. b_time x > b_time y)
       (filter (\<lambda>b. backupIDMatchesVMID (b_id b) (itoa vmid)) (map snd (entries backups)))"

definition LatestBackupTime :: "(string, (string, backup) gomap) gomap \<Rightarrow> int \<Rightarrow> int" where
  "LatestBackupTime backups vmid =
     (case BackupsForGuest backups vmid of [] \<Rightarrow> 0 | b # bs \<Rightarrow> b_time b)"

definition AllTasksSorted :: "(string, pbs_task list) gomap \<Rightarrow> pbs_task list" where
  "AllTasksSorted tasks = sort_slice (\<lambda>x y. t_start x > t_start y) (concat (map snd tasks))"

section \<open>Tasks and optional values\<close>

definition IntPtrSortValue :: "int option \<Rightarrow> string" where
  "IntPtrSortValue p = (case p of None \<Rightarrow> ''-1'' | Some i \<Rightarrow> itoa i)"

definition TaskDurationSeconds :: "pbs_task \<Rightarrow> int" where
  "TaskDurationSeconds t = (case t_end t of None \<Rightarrow> - 1 | Some e \<Rightarrow> wrap64 (e - t_start t))"

definition TaskDuration :: "(f64 \<Rightarrow> int) \<Rightarrow> pbs_task \<Rightarrow> string" where
  "TaskDuration oor t =
     (case t_end t of
        None \<Rightarrow> ''running''
      | Some e \<Rightarrow> FormatDuration oor (wrap64 (wrap64 (e - t_start t) * second)))"

definition IntDeref :: "int option \<Rightarrow> int" where
  "IntDeref p = (case p of None \<Rightarrow> 0 | Some i \<Rightarrow> i)"

definition Int64Deref :: "int option \<Rightarrow> int" where
  "Int64Deref p = (case p of None \<Rightarrow> 0 | Some i \<Rightarrow> i)"

definition Float64Deref :: "f64 option \<Rightarrow> f64" where
  "Float64Deref p = (case p of None \<Rightarrow> Fin 0 | Some v \<Rightarrow> v)"

definition WearoutDisplay :: "int option \<Rightarrow> string" where
  "WearoutDisplay w = (case w of None \<Rightarrow> ''--'' | Some i \<Rightarrow> itoa i @ ''%'')"

definition TempDisplay :: "int option \<Rightarrow> string" where
  "TempDisplay t = (case t of None \<Rightarrow> ''--'' | Some i \<Rightarrow> itoa i @ ''C'')"

definition NodeTempDisplay :: "f64 option \<Rightarrow> string" where
  "NodeTempDisplay t = (case t of None \<Rightarrow> ''--'' | Some v \<Rightarrow> fmt_fixed 0 v @ ''C'')"

definition HoursDisplay :: "int option \<Rightarrow> string" where
  "HoursDisplay h =
     (case h of None \<Rightarrow> ''--''
      | Some i \<Rightarrow> if i \<ge> 1000 then itoa (i sdiv 1000) @ '','' @ pad_int 3 (i smod 1000) else itoa i)"

section \<open>Sparklines\<close>

definition min_value :: "sparkline_point list \<Rightarrow> f64" where
  "min_value ps = fold (\<lambda>p m. if flt (sp_value p) m then sp_value p else m) ps PInf"

definition max_value :: "sparkline_point list \<Rightarrow> f64" where
  "max_value ps = fold (\<lambda>p m. if flt m (sp_value p) then sp_value p else m) ps NInf"

definition value_range :: "sparkline_point list \<Rightarrow> f64" where
  "value_range ps = (let r = fsub (max_value ps) (min_value ps) in if feq r (Fin 0) then Fin 1 else r)"

definition polyline_x :: "nat \<Rightarrow> f64 \<Rightarrow> nat \<Rightarrow> f64" where
  "polyline_x n width i =
     (if n = 1 then fdiv width (Fin 2)
      else fmul (fdiv (f64_of_int (int i)) (f64_of_int (int n - 1))) width)"

definition polyline_y :: "sparkline_point list \<Rightarrow> f64 \<Rightarrow> sparkline_point \<Rightarrow> f64" where
  "polyline_y ps height p =
     fsub height (fmul (fdiv (fsub (sp_value p) (min_value ps)) (value_range ps)) height)"

definition SparklinePolyline :: "sparkline_point list \<Rightarrow> f64 \<Rightarrow> f64 \<Rightarrow> string" where
  "SparklinePolyline ps width height =
     (if ps = [] then []
      else str_join '' '' (map (\<lambda>(i, p). fmt_fixed 1 (polyline_x (length ps) width i) @ '','' @
             fmt_fixed 1 (polyline_y ps height p)) (enumerate 0 ps)))"

section \<open>Sizes never leave the table of units\<close>

lemma bytes_unit_bounds:
  assumes "in_i64 b" and "dv = 1024 ^ (ex + 1)" and "dv \<le> b" and "n = b div dv"
  shows "case bytes_unit n dv ex of (dv', ex') \<Rightarrow> dv' = 1024 ^ (ex' + 1) \<and> dv' \<le> b \<and> b < dv' * 1024"
  using assms
proof (induction n dv ex rule: bytes_unit.induct)
  case (1 n dv ex)
  from "1.prems" have dv: "0 < dv" by simp
  show ?case
  proof (cases "n \<ge> 1024")
    case True
    have "1024 * dv \<le> b div dv * dv" using True "1.prems"(4) dv by simp
    also have "\<dots> \<le> b" using dv by (metis div_mult_mod_eq le_add_same_cancel1 pos_mod_sign)
    finally have le: "dv * 1024 \<le> b" by simp
    then have w: "wrap64 (dv * 1024) = dv * 1024"
      using "1.prems"(1) dv by (intro wrap64_id) (simp add: in_i64_def)
    have "n div 1024 = b div (dv * 1024)" using "1.prems"(4) by (simp add: zdiv_zmult2_eq)
    moreover have "dv * 1024 = 1024 ^ (ex + 1 + 1)" using "1.prems"(2) by simp
    ultimately have "case bytes_unit (n div 1024) (dv * 1024) (ex + 1) of
        (dv', ex') \<Rightarrow> dv' = 1024 ^ (ex' + 1) \<and> dv' \<le> b \<and> b < dv' * 1024"
      by (intro "1.IH" [OF True "1.prems"(1), unfolded w] le)
    then show ?thesis unfolding bytes_unit.simps [of n dv ex] if_P [OF True] w .
  next
    case False
    have "b = dv * (b div dv) + b mod dv" by simp
    also have "\<dots> < dv * (b div dv) + dv" using pos_mod_bound [OF dv, of b] by (rule add_strict_left_mono)
    also have "\<dots> = dv * (b div dv + 1)" by (simp add: algebra_simps)
    also have "\<dots> \<le> dv * 1024" using False "1.prems"(4) dv by (intro mult_left_mono) simp_all
    finally have "b < dv * 1024" .
    with False "1.prems" show ?thesis by (subst bytes_unit.simps) simp
  qed
qed

text \<open>Formatting a size never leaves the table of units: below 1024 it is the number of bytes, else
  the size divided by the power of 1024 that leaves at least 1 and less than 1024, with one decimal and the
  unit of that power.\<close>

theorem format_bytes:
  assumes "in_i64 b"
  shows "if b < 1024 then FormatBytes b = Some (itoa b @ '' B'')
    else \<exists>k < length byte_units. 1024 ^ (k + 1) \<le> b \<and> b < 1024 ^ (k + 2) \<and>
      FormatBytes b = Some (fmt_fixed 1 (fdiv (f64_of_int b) (f64_of_int (1024 ^ (k + 1)))) @ '' '' @ byte_units ! k)"
proof (cases "b < 1024")
  case False
  obtain dv k where u: "bytes_unit (b div 1024) 1024 0 = (dv, k)" by (cases "bytes_unit (b div 1024) 1024 0")
  with bytes_unit_bounds [OF assms, of 1024 0 "b div 1024"] False
  have dv: "dv = 1024 ^ (k + 1)" "dv \<le> b" "b < dv * 1024" by simp_all
  have "k < 6"
  proof (rule ccontr)
    assume "\<not> k < 6"
    then have "(1024 :: int) ^ 7 \<le> 1024 ^ (k + 1)" by (intro power_increasing) simp_all
    with dv assms show False by (simp add: in_i64_def)
  qed
  then have k: "k < length byte_units" by (simp add: byte_units_def)
  moreover have "b < 1024 ^ (k + 2)" using dv by simp
  ultimately show ?thesis using False u dv by (auto simp: FormatBytes_def intro!: exI [of _ k])
qed (simp add: FormatBytes_def)

theorem format_bytes_witness: "FormatBytes 1536 = Some ''1.5 KB'' \<and> (\<exists>s. FormatBytes (2 ^ 63 - 1) = Some s)"
proof
  show "FormatBytes 1536 = Some ''1.5 KB''"
    by (simp add: FormatBytes_def bytes_unit.simps) code_simp
  show "\<exists>s. FormatBytes (2 ^ 63 - 1) = Some s"
    using format_bytes [of "2 ^ 63 - 1"] by (auto simp: in_i64_def)
qed

section \<open>Sorted lists are the entries, sorted\<close>

lemma entries_inner: "fold (\<lambda>(j, v) acc. acc @ [(k, v)]) inner acc = acc @ map (\<lambda>(j, v). (k, v)) inner"
  by (induction inner arbitrary: acc) auto

lemma entries_eq: "entries m = concat (map (\<lambda>(k, inner). map (\<lambda>(j, v). (k, v)) inner) m)"
proof -
  have "fold (\<lambda>(k, inner) acc. fold (\<lambda>(j, v) acc. acc @ [(k, v)]) inner acc) m acc =
      acc @ concat (map (\<lambda>(k, inner). map (\<lambda>(j, v). (k, v)) inner) m)" for acc
    by (induction m arbitrary: acc) (auto simp: entries_inner)
  then show ?thesis by (simp add: entries_def)
qed

lemma entries_in: "(k, v) \<in> set (entries m) \<longleftrightarrow> (\<exists>inner j. (k, inner) \<in> set m \<and> (j, v) \<in> set inner)"
  by (force simp: entries_eq)

lemma weak_order_backup: "weak_order backup_before"
proof -
  have "backup_before x y \<longleftrightarrow> (- b_time x, b_id x, b_datastore x) < (- b_time y, b_id y, b_datastore y)" for x y
    by (auto simp: backup_before_def less_prod_def)
  then have e: "backup_before = (\<lambda>x y. (- b_time x, b_id x, b_datastore x) < (- b_time y, b_id y, b_datastore y))"
    by (simp add: fun_eq_iff)
  show ?thesis unfolding e by (rule weak_order_key)
qed

text \<open>The backup table shows every cached backup exactly as often as it is cached, newest first and, for
  equal times, by backup id and then by datastore.\<close>

theorem backups_sorted:
  "mset (AllBackupsSorted backups) = mset (map snd (entries backups)) \<and>
   sorted_wrt (\<lambda>x y. b_time x > b_time y \<or> b_time x = b_time y \<and>
     (b_id x < b_id y \<or> b_id x = b_id y \<and> b_datastore x \<le> b_datastore y)) (AllBackupsSorted backups)"
proof
  have "sorted_wrt (\<lambda>x y. \<not> backup_before y x) (AllBackupsSorted backups)"
    unfolding AllBackupsSorted_def by (rule ss.srt_sorted [OF weak_order_backup])
  then show "sorted_wrt (\<lambda>x y. b_time x > b_time y \<or> b_time x = b_time y \<and>
     (b_id x < b_id y \<or> b_id x = b_id y \<and> b_datastore x \<le> b_datastore y)) (AllBackupsSorted backups)"
    by (rule sorted_wrt_mono_rel [rotated]) (auto simp: backup_before_def split: if_splits)
  show "mset (AllBackupsSorted backups) = mset (map snd (entries backups))"
    by (simp add: AllBackupsSorted_def ss.srt_mset)
qed

lemma has_suffix_iff: "has_suffix s p \<longleftrightarrow> (\<exists>pre. s = pre @ p)"
  unfolding has_suffix_def by (metis append_eq_conv_conj append_take_drop_id diff_le_self length_append
      length_drop diff_diff_cancel le_add2 add_diff_cancel_right')

lemma itoa_no_minus: "0 \<le> v \<Longrightarrow> CHR ''-'' \<notin> set (itoa v)"
  using digits10_digits [of "CHR ''-''" "nat v"] by (auto simp: itoa_def is_digit_def)

lemma after_minus: "pre @ CHR ''-'' # xs = pre' @ CHR ''-'' # ys \<Longrightarrow> CHR ''-'' \<notin> set xs \<Longrightarrow> CHR ''-'' \<notin> set ys \<Longrightarrow> xs = ys"
proof -
  have t: "takeWhile (\<lambda>c. c \<noteq> CHR ''-'') (rev (pre @ CHR ''-'' # xs)) = rev xs" if "CHR ''-'' \<notin> set xs" for pre xs
  proof -
    have "takeWhile (\<lambda>c. c \<noteq> CHR ''-'') (rev xs @ CHR ''-'' # rev pre) = rev xs"
      using that by (subst takeWhile_append2) auto
    then show ?thesis by simp
  qed
  assume "pre @ CHR ''-'' # xs = pre' @ CHR ''-'' # ys" "CHR ''-'' \<notin> set xs" "CHR ''-'' \<notin> set ys"
  then have "rev xs = rev ys" using t [of xs pre] t [of ys pre'] by metis
  then show ?thesis by simp
qed

lemma matches_once:
  assumes "backupIDMatchesVMID i (itoa v)" and "backupIDMatchesVMID i (itoa w)" and "0 \<le> v" and "0 \<le> w"
  shows "v = w"
proof (rule itoa_inj)
  note m = itoa_no_minus [OF assms(3)] itoa_no_minus [OF assms(4)]
  have ends: "i = itoa u \<or> (\<exists>pre. i = pre @ CHR ''-'' # itoa u)" if "backupIDMatchesVMID i (itoa u)" for u
    using that by (auto simp: backupIDMatchesVMID_def has_suffix_iff)
  have no: "itoa u \<noteq> pre @ CHR ''-'' # t" if "CHR ''-'' \<notin> set (itoa u)" for u pre t
    using that by (metis in_set_conv_decomp)
  from ends [OF assms(1)] ends [OF assms(2)] show "itoa v = itoa w"
    using no [OF m(1)] no [OF m(2)] after_minus [OF _ m] by metis
qed

text \<open>The backups of a guest: exactly the cached ones whose id is its number or ends in a dash and its
  number, newest first; no backup belongs to two guests; and the latest backup time is the greatest of
  theirs, 0 without any.\<close>

theorem guest_backups:
  assumes "0 \<le> vmid" and "0 \<le> other"
  shows "mset (BackupsForGuest backups vmid) =
      mset (filter (\<lambda>b. backupIDMatchesVMID (b_id b) (itoa vmid)) (map snd (entries backups))) \<and>
    sorted_wrt (\<lambda>x y. b_time x \<ge> b_time y) (BackupsForGuest backups vmid) \<and>
    (vmid = other \<or> set (BackupsForGuest backups vmid) \<inter> set (BackupsForGuest backups other) = {}) \<and>
    LatestBackupTime backups vmid =
      (if BackupsForGuest backups vmid = [] then 0 else Max (b_time ` set (BackupsForGuest backups vmid)))"
proof -
  have s: "sorted_wrt (\<lambda>x y. b_time x \<ge> b_time y) (BackupsForGuest backups v)" for v
    unfolding BackupsForGuest_def
    by (rule sorted_wrt_mono_rel [OF _ ss.srt_sorted [OF weak_order_key_desc]]) simp
  have "v = w" if "b \<in> set (BackupsForGuest backups v)" "b \<in> set (BackupsForGuest backups w)" "0 \<le> v" "0 \<le> w" for b v w
    using that by (auto simp: BackupsForGuest_def ss.srt_set dest: matches_once)
  then have "vmid = other \<or> set (BackupsForGuest backups vmid) \<inter> set (BackupsForGuest backups other) = {}"
    using assms by blast
  moreover have "LatestBackupTime backups vmid =
      (if BackupsForGuest backups vmid = [] then 0 else Max (b_time ` set (BackupsForGuest backups vmid)))"
  proof (cases "BackupsForGuest backups vmid")
    case (Cons b bs)
    with s [of vmid] have "Max (b_time ` set (BackupsForGuest backups vmid)) = b_time b"
      by (intro Max_eqI) auto
    with Cons show ?thesis by (simp add: LatestBackupTime_def)
  qed (simp add: LatestBackupTime_def)
  ultimately show ?thesis using s by (simp add: BackupsForGuest_def ss.srt_mset)
qed

theorem guest_backups_witness:
  "LatestBackupTime [(''pbs'', [(''s/101'', \<lparr>b_instance = ''pbs'', b_datastore = ''s'', b_type = ''ct'', b_id = ''lxc-101'',
      b_time = 7, b_size = None, b_verified = None\<rparr>)])] 101 = 7"
proof -
  define b0 where "b0 = \<lparr>b_instance = ''pbs'', b_datastore = ''s'', b_type = ''ct'', b_id = ''lxc-101'',
      b_time = 7, b_size = None, b_verified = None\<rparr>"
  define bs where "bs = [(''pbs'', [(''s/101'', b0)])]"
  have "backupIDMatchesVMID ''lxc-101'' (itoa 101)" by code_simp
  then have "backupIDMatchesVMID (b_id b0) (itoa 101)" by (simp add: b0_def)
  moreover have "map snd (entries bs) = [b0]" by (simp add: bs_def entries_def)
  ultimately have "set (BackupsForGuest bs 101) = {b0}" by (simp add: BackupsForGuest_def ss.srt_set)
  moreover have "b_time b0 = 7" by (simp add: b0_def)
  ultimately have b: "BackupsForGuest bs 101 \<noteq> []" "b_time ` set (BackupsForGuest bs 101) = {7}" by auto
  from guest_backups [of 101 102 bs, THEN conjunct2, THEN conjunct2, THEN conjunct2]
  have "LatestBackupTime bs 101 = 7" unfolding b(2) if_not_P [OF b(1)] by simp
  then show ?thesis by (simp only: bs_def b0_def)
qed

section \<open>What a disk chip says\<close>

lemma low_bits: "0 \<le> (s :: int) \<Longrightarrow> s < 8 \<Longrightarrow> s AND 8 = 0 \<and> s AND 16 = 0"
proof -
  assume "0 \<le> s" "s < 8"
  then have "s \<in> {0, 1, 2, 3, 4, 5, 6, 7}" by auto
  then show ?thesis by auto
qed

text \<open>The chip of an evaluated disk is red when one of its attributes failed, by the vendor's threshold or
  by the failure rate, else yellow when one warns, else green.\<close>

theorem disk_chip:
  "DiskStatusClass (snd (EvaluateDisk d)) =
    (if list_ex (\<lambda>a. snd (EvaluateAttribute a (d_protocol d)) \<in> {StatusFailedSmart, StatusFailedScrutiny}) (d_attrs d)
     then ''chip-crit''
     else if list_ex (\<lambda>a. snd (EvaluateAttribute a (d_protocol d)) = StatusWarnScrutiny) (d_attrs d)
     then ''chip-warn'' else ''chip-ok'')"
  using disk_bits [of d] low_bits [of "snd (EvaluateDisk d)"]
  by (auto simp: DiskStatusClass_def case_prod_unfold Let_def list_ex_iff StatusUnknown_def StatusInternalError_def)

section \<open>Sparklines stay inside their box\<close>

definition finite_value :: "f64 \<Rightarrow> bool" where
  "finite_value v = (case v of Fin q \<Rightarrow> True | _ \<Rightarrow> False)"

definition val :: "f64 \<Rightarrow> rat" where
  "val v = (case v of Fin q \<Rightarrow> q | _ \<Rightarrow> 0)"

lemma finite_val: "finite_value v \<Longrightarrow> v = Fin (val v)"
  by (simp add: finite_value_def val_def split: f64.splits)

lemma min_value_fold:
  assumes "list_all (finite_value \<circ> sp_value) ps"
  shows "fold (\<lambda>p m. if flt (sp_value p) m then sp_value p else m) ps (Fin q) =
    Fin (fold (\<lambda>p m. min (val (sp_value p)) m) ps q)"
  using assms
proof (induction ps arbitrary: q)
  case (Cons p ps)
  have "(if flt (sp_value p) (Fin q) then sp_value p else Fin q) = Fin (min (val (sp_value p)) q)"
    using finite_val [of "sp_value p"] Cons.prems by (cases "sp_value p") (auto simp: val_def finite_value_def min_def)
  with Cons show ?case by simp
qed simp

lemma max_value_fold:
  assumes "list_all (finite_value \<circ> sp_value) ps"
  shows "fold (\<lambda>p m. if flt m (sp_value p) then sp_value p else m) ps (Fin q) =
    Fin (fold (\<lambda>p m. max (val (sp_value p)) m) ps q)"
  using assms
proof (induction ps arbitrary: q)
  case (Cons p ps)
  have "(if flt (Fin q) (sp_value p) then sp_value p else Fin q) = Fin (max (val (sp_value p)) q)"
    using finite_val [of "sp_value p"] Cons.prems by (cases "sp_value p") (auto simp: val_def finite_value_def max_def)
  with Cons show ?case by simp
qed simp

lemma fold_min_le: "fold (\<lambda>p m. min (f p) m) ps q \<le> q \<and> (\<forall>p \<in> set ps. fold (\<lambda>p m. min (f p) m) ps q \<le> (f p :: rat))"
proof (induction ps arbitrary: q)
  case (Cons p ps)
  from Cons.IH [of "min (f p) q"] show ?case by auto
qed simp

lemma fold_max_ge: "q \<le> fold (\<lambda>p m. max (f p) m) ps q \<and> (\<forall>p \<in> set ps. (f p :: rat) \<le> fold (\<lambda>p m. max (f p) m) ps q)"
proof (induction ps arbitrary: q)
  case (Cons p ps)
  from Cons.IH [of "max (f p) q"] show ?case by auto
qed simp

lemma value_bounds:
  assumes "list_all (finite_value \<circ> sp_value) ps" and "p \<in> set ps"
  shows "\<exists>lo hi. min_value ps = Fin lo \<and> max_value ps = Fin hi \<and> lo \<le> val (sp_value p) \<and> val (sp_value p) \<le> hi"
proof -
  obtain r rs where ps: "ps = r # rs" using assms(2) by (cases ps) auto
  with assms(1) have r: "sp_value r = Fin (val (sp_value r))" using finite_val by simp
  then have "flt (sp_value r) PInf" "flt NInf (sp_value r)" by (metis fle.simps flt_def)+
  with r have "min_value ps = Fin (fold (\<lambda>p m. min (val (sp_value p)) m) rs (val (sp_value r)))"
    "max_value ps = Fin (fold (\<lambda>p m. max (val (sp_value p)) m) rs (val (sp_value r)))"
    using min_value_fold [of rs "val (sp_value r)"] max_value_fold [of rs "val (sp_value r)"] assms(1)
    by (simp_all add: min_value_def max_value_def ps)
  then show ?thesis
    using fold_min_le [of "val \<circ> sp_value" rs "val (sp_value r)"] fold_max_ge [of "val (sp_value r)" "val \<circ> sp_value" rs] assms(2)
    by (auto simp: ps)
qed

text \<open>Being a number between two floating-point numbers survives rounding.\<close>

lemma polyline_y_eq:
  "min_value ps = Fin lo \<Longrightarrow> sp_value p = Fin v \<Longrightarrow> value_range ps = Fin r \<Longrightarrow> 0 < r \<Longrightarrow> rnd (v - lo) = Fin a \<Longrightarrow>
    rnd (a / r) = Fin q \<Longrightarrow> rnd (q * h) = Fin t \<Longrightarrow> polyline_y ps (Fin h) p = rnd (h - t)"
  by (simp add: polyline_y_def fsub_def)

lemma polyline_y_box:
  assumes fin: "list_all (finite_value \<circ> sp_value) ps" and p: "p \<in> set ps"
    and r: "value_range ps = Fin r" and h: "rnd h = Fin h" "0 \<le> h"
  shows "\<exists>y. polyline_y ps (Fin h) p = Fin y \<and> 0 \<le> y \<and> y \<le> h"
proof -
  obtain lo hi where lo: "min_value ps = Fin lo" "max_value ps = Fin hi" "lo \<le> val (sp_value p)" "val (sp_value p) \<le> hi"
    using value_bounds [OF fin p] by blast
  have v: "sp_value p = Fin (val (sp_value p))" using fin p by (auto simp: list_all_iff intro: finite_val)
  have m: "fle (Fin 0) (rnd (val (sp_value p) - lo))" "fle (rnd (val (sp_value p) - lo)) (rnd (hi - lo))"
    using lo by (simp_all add: rnd_nonneg rnd_mono)
  have range: "\<exists>d. rnd (hi - lo) = Fin d \<and> 0 < r \<and> d \<le> r"
  proof (cases "rnd (hi - lo) = Fin 0")
    case True
    then have "r = 1" using r lo by (simp add: value_range_def fsub_def feq_def)
    with True show ?thesis by simp
  next
    case False
    then have "rnd (hi - lo) = Fin r" using r lo
      by (cases "rnd (hi - lo)") (auto simp: value_range_def fsub_def feq_def Let_def split: if_splits)
    moreover have "0 \<le> r" using rnd_nonneg [of "hi - lo"] lo calculation by simp
    ultimately show ?thesis using False by (cases "r = 0") auto
  qed
  then obtain d where d: "rnd (hi - lo) = Fin d" "0 < r" "d \<le> r" by blast
  with m obtain a where a: "rnd (val (sp_value p) - lo) = Fin a" "0 \<le> a" "a \<le> r"
    by (cases "rnd (val (sp_value p) - lo)") auto
  have "\<exists>q. rnd (a / r) = Fin q \<and> 0 \<le> q \<and> q \<le> 1" using a d by (intro rnd_between) simp_all
  then obtain q where q: "rnd (a / r) = Fin q" "0 \<le> q" "q \<le> 1" by blast
  have "q * h \<le> 1 * h" using q h by (intro mult_right_mono)
  then have "\<exists>t. rnd (q * h) = Fin t \<and> 0 \<le> t \<and> t \<le> h" using q h by (intro rnd_between) simp_all
  then obtain t where t: "rnd (q * h) = Fin t" "0 \<le> t" "t \<le> h" by blast
  have "\<exists>y. rnd (h - t) = Fin y \<and> 0 \<le> y \<and> y \<le> h" using t h by (intro rnd_between) simp_all
  moreover have "polyline_y ps (Fin h) p = rnd (h - t)"
    using d(2) v lo(1) r a(1) q(1) t(1) by (metis polyline_y_eq)
  ultimately show ?thesis by simp
qed

lemma polyline_x_box:
  assumes "i < n" and "n \<le> 2 ^ 53" and w: "rnd w = Fin w" "0 \<le> w"
  shows "\<exists>x. polyline_x n (Fin w) i = Fin x \<and> 0 \<le> x \<and> x \<le> w"
proof (cases "n = 1")
  case True
  have "\<exists>x. rnd (w / 2) = Fin x \<and> 0 \<le> x \<and> x \<le> w" using w by (intro rnd_between) simp_all
  with True show ?thesis by (simp add: polyline_x_def)
next
  case False
  with assms have n: "1 < n" by simp
  have i: "f64_of_int (int i) = Fin (of_nat i)" "f64_of_int (int n - 1) = Fin (of_nat n - 1)"
    using rnd_int_exact [of "int i"] rnd_int_exact [of "int n - 1"] assms by simp_all
  have "of_nat i \<le> (of_nat (n - 1) :: rat)" using assms(1) by (simp only: of_nat_le_iff)
  then have le: "of_nat i \<le> (of_nat n - 1 :: rat)" using n by (simp add: of_nat_diff)
  have pos: "0 < (of_nat n - 1 :: rat)" using n by simp
  have "\<exists>q. rnd (of_nat i / (of_nat n - 1)) = Fin q \<and> 0 \<le> q \<and> q \<le> 1"
    using le pos by (intro rnd_between) (simp_all add: divide_le_eq)
  then obtain q where q: "rnd (of_nat i / (of_nat n - 1)) = Fin q" "0 \<le> q" "q \<le> 1" by blast
  have "q * w \<le> 1 * w" using q w by (intro mult_right_mono)
  then have "\<exists>x. rnd (q * w) = Fin x \<and> 0 \<le> x \<and> x \<le> w" using q w by (intro rnd_between) simp_all
  then show ?thesis using False i q pos by (simp add: polyline_x_def)
qed

text \<open>C36: every point of a sparkline of finite values whose range is finite lies in the box, whatever the
  roundings of the floating-point operations; a flat line and a single point included.\<close>

theorem sparkline_in_box:
  assumes "list_all (finite_value \<circ> sp_value) ps" and "finite_value (value_range ps)"
    and "i < length ps" and "length ps \<le> 2 ^ 53"
    and "rnd w = Fin w" and "0 \<le> w" and "rnd h = Fin h" and "0 \<le> h"
  shows "\<exists>x y. polyline_x (length ps) (Fin w) i = Fin x \<and> polyline_y ps (Fin h) (ps ! i) = Fin y \<and>
    0 \<le> x \<and> x \<le> w \<and> 0 \<le> y \<and> y \<le> h"
  using polyline_x_box [OF assms(3,4,5,6)] polyline_y_box [OF assms(1) nth_mem [OF assms(3)] finite_val [OF assms(2)] assms(7,8)]
  by blast

theorem sparkline_in_box_witness:
  "\<exists>x y. polyline_x 2 (Fin 240) 1 = Fin x \<and> x \<le> 240 \<and>
    polyline_y [\<lparr>sp_ts = 0, sp_value = Fin 5\<rparr>, \<lparr>sp_ts = 1, sp_value = Fin 8\<rparr>] (Fin 40) \<lparr>sp_ts = 1, sp_value = Fin 8\<rparr> = Fin y \<and> 0 \<le> y"
proof -
  define ps where "ps = [\<lparr>sp_ts = 0, sp_value = Fin 5\<rparr>, \<lparr>sp_ts = 1, sp_value = Fin 8\<rparr>]"
  have "value_range ps = Fin 3"
    by (simp add: ps_def value_range_def max_value_def min_value_def fsub_def feq_def flt_def rnd_numeral)
  then have f: "finite_value (value_range ps)" by (simp add: finite_value_def)
  have g: "list_all (finite_value \<circ> sp_value) ps" and l: "length ps = 2" and p: "ps ! 1 = \<lparr>sp_ts = 1, sp_value = Fin 8\<rparr>"
    by (simp_all add: ps_def finite_value_def)
  have "\<exists>x y. polyline_x 2 (Fin 240) 1 = Fin x \<and> polyline_y ps (Fin 40) (ps ! 1) = Fin y \<and>
      0 \<le> x \<and> x \<le> 240 \<and> 0 \<le> y \<and> y \<le> 40"
    unfolding l [symmetric] by (rule sparkline_in_box [OF g f]) (simp_all add: l rnd_numeral)
  then show ?thesis unfolding p unfolding ps_def by blast
qed

section \<open>The stale chip and the alert\<close>

lemma stale_chip: "0 \<le> maxage \<Longrightarrow> in_i64 maxage \<Longrightarrow> BackupStatusLabel clk (b_time b) (dur_hours maxage) = ''Stale'' \<Longrightarrow>
    backup_age clk b > maxage"
proof (rule ccontr)
  assume a: "0 \<le> maxage" "in_i64 maxage" "BackupStatusLabel clk (b_time b) (dur_hours maxage) = ''Stale''"
    and "\<not> backup_age clk b > maxage"
  then have "fle (dur_hours (backup_age clk b)) (dur_hours maxage)"
    by (intro dur_hours_mono) (simp_all add: backup_age_def)
  with a(3) show False by (simp add: BackupStatusLabel_def backup_age_def Let_def flt_def split: if_splits)
qed

lemma progress_width: "pct = NaN \<or> fle (Fin 0) (ProgressBarWidth pct) \<and> fle (ProgressBarWidth pct) (Fin 100)"
  by (cases pct) (auto simp: ProgressBarWidth_def flt_def)

end
