(* ===== verification/Wiring.thy ===== *)
theory Wiring
  imports Startup Temperature PveCollect Pbs Pruner AlertProps Helpers
begin

text \<open>
  \<open>main\<close> of \<open>cmd/glint/main.go\<close>: from the flags, the environment and the files to the components that run, each
  with its configuration. The goroutines themselves are not run here: \<open>main_run\<close> gives the components as
  they are when they are started. Registering the instances touches only their own two tables, which no
  component reads or writes. Log lines and the text of errors are left out; what is written to the
  standard output is kept.
\<close>

section \<open>From settings to components\<close>

datatype log_level = LevelDebug | LevelInfo | LevelWarn | LevelError

definition parse_level :: "string \<Rightarrow> log_level" where
  "parse_level s = (if s = ''debug'' then LevelDebug else if s = ''warn'' then LevelWarn
     else if s = ''error'' then LevelError else LevelInfo)"

definition pve_collector_config :: "pve_settings \<Rightarrow> pve_config" where
  "pve_collector_config s =
     \<lparr>pc_name = ps_name s, pc_host = ps_host s, pc_tokenid = ps_tokenid s, pc_secret = ps_secret s,
      pc_iscluster = False,
      pc_interval = (if ps_interval s = 0 then 15 * second else ps_interval s),
      pc_diskinterval = (if ps_diskinterval s = 0 then 1 * hour else ps_diskinterval s)\<rparr>"

definition temp_collector_of :: "(string \<Rightarrow> string option) \<Rightarrow> (string \<Rightarrow> bool) \<Rightarrow> pve_settings \<Rightarrow> temp_collector list" where
  "temp_collector_of readkey parsekey s =
     (case ps_ssh s of
        None \<Rightarrow> []
      | Some ssh \<Rightarrow>
          (case NewTempCollector readkey parsekey (ps_name s) (ps_name s)
                  \<lparr>sc_host = sh_host ssh, sc_user = sh_user ssh, sc_key = sh_key ssh, sc_knownhosts = sh_knownhosts ssh\<rparr> of
             Inl e \<Rightarrow> []
           | Inr t \<Rightarrow> [t]))"

definition pbs_collector_config :: "pbs_settings \<Rightarrow> pbs_config" where
  "pbs_collector_config s =
     \<lparr>bc_name = bs_name s, bc_host = bs_host s, bc_tokenid = bs_tokenid s, bc_secret = bs_secret s,
      bc_datastores = bs_datastores s,
      bc_interval = (if bs_interval s = 0 then 5 * minute else bs_interval s)\<rparr>"

definition register_pve :: "(nat \<Rightarrow> bool) \<Rightarrow> pve_settings list \<Rightarrow> store \<Rightarrow> store" where
  "register_pve dberr ps st =
     fold (\<lambda>(i, p) st. snd (UpsertPVEInstance (dberr i) (ps_name p) (ps_host p) False [] st)) (enumerate 0 ps) st"

definition register_pbs :: "(nat \<Rightarrow> bool) \<Rightarrow> pbs_settings list \<Rightarrow> store \<Rightarrow> store" where
  "register_pbs dberr bs st =
     fold (\<lambda>(i, b) st. snd (UpsertPBSInstance (dberr i) (bs_name b) (bs_host b) st)) (enumerate 0 bs) st"

datatype target = NtfyTarget ntfy | WebhookTarget webhook

definition target_name :: "target \<Rightarrow> string" where
  "target_name t = (case t of NtfyTarget _ \<Rightarrow> ''ntfy'' | WebhookTarget _ \<Rightarrow> ''webhook'')"

definition targets_of :: "notification_settings \<Rightarrow> target list" where
  "targets_of n =
     (if no_type n = ''ntfy'' then [NtfyTarget (NewNtfy (no_url n) (no_topic n))]
      else if no_type n = ''webhook'' then
        [WebhookTarget (NewWebhook (no_url n) (if no_method n = [] then ''POST'' else no_method n) (no_headers n))]
      else [])"

definition override :: "string \<Rightarrow> string \<Rightarrow> string" where
  "override new old = (if new \<noteq> [] then new else old)"

definition apply_cpu :: "cpu_alert_settings option \<Rightarrow> alert_config \<Rightarrow> alert_config" where
  "apply_cpu s ac = (case s of None \<Rightarrow> ac
     | Some c \<Rightarrow> ac\<lparr>ac_nodecpu := map_option (\<lambda>t. t\<lparr>ta_threshold := ca_threshold c, ta_duration := ca_duration c,
         ta_severity := override (ca_severity c) (ta_severity t)\<rparr>) (ac_nodecpu ac)\<rparr>)"

definition apply_guest :: "guest_alert_settings option \<Rightarrow> alert_config \<Rightarrow> alert_config" where
  "apply_guest s ac = (case s of None \<Rightarrow> ac
     | Some g \<Rightarrow> ac\<lparr>ac_guestdown := map_option (\<lambda>t. t\<lparr>ga_grace := gr_grace g,
         ga_severity := override (gr_severity g) (ga_severity t)\<rparr>) (ac_guestdown ac)\<rparr>)"

definition apply_backup :: "backup_alert_settings option \<Rightarrow> alert_config \<Rightarrow> alert_config" where
  "apply_backup s ac = (case s of None \<Rightarrow> ac
     | Some b \<Rightarrow> ac\<lparr>ac_backupstale := map_option (\<lambda>t. t\<lparr>ba_maxage := bk_maxage b,
         ba_severity := override (bk_severity b) (ba_severity t)\<rparr>) (ac_backupstale ac)\<rparr>)"

definition apply_datastore :: "ds_alert_settings option \<Rightarrow> alert_config \<Rightarrow> alert_config" where
  "apply_datastore s ac = (case s of None \<Rightarrow> ac
     | Some d \<Rightarrow> ac\<lparr>ac_dsfull := map_option (\<lambda>t. t\<lparr>ta_threshold := dl_threshold d,
         ta_severity := override (dl_severity d) (ta_severity t)\<rparr>) (ac_dsfull ac)\<rparr>)"

definition wired_alerts :: "alert_settings \<Rightarrow> alert_config" where
  "wired_alerts s =
     apply_datastore (as_ds s) (apply_backup (as_backup s) (apply_guest (as_guest s)
       (apply_cpu (as_cpu s) DefaultAlertConfig)))"

text \<open>The threshold of the dashboard's chip.\<close>

definition stale_hours :: "alert_config \<Rightarrow> f64" where
  "stale_hours ac = (case ac_backupstale ac of Some b \<Rightarrow> dur_hours (ba_maxage b) | None \<Rightarrow> Fin 0)"

section \<open>The program\<close>

record flags =
  fl_config :: string
  fl_version :: bool
  fl_healthcheck :: bool

record main_env =
  me_version :: string
  me_commit :: string
  me_built :: string
  me_info :: "(string \<times> string) list option"
  me_go :: string
  me_os :: string
  me_arch :: string
  me_env :: "string \<Rightarrow> string"
  me_urlok :: "string \<Rightarrow> bool"
  me_yaml :: "string \<Rightarrow> config \<Rightarrow> config option"
  me_readfile :: "string \<Rightarrow> config_file"
  me_http :: "string \<Rightarrow> reply"
  me_faults :: open_faults
  me_db :: store
  me_pveerr :: "nat \<Rightarrow> bool"
  me_pbserr :: "nat \<Rightarrow> bool"
  me_readkey :: "string \<Rightarrow> string option"
  me_parsekey :: "string \<Rightarrow> bool"
  me_ifaces :: "interface list option"

record program =
  pg_css :: string
  pg_level :: log_level
  pg_json :: bool
  pg_store :: store
  pg_cache :: cache
  pg_pool :: worker_pool
  pg_pve :: "pve list"
  pg_temps :: "temp_collector list"
  pg_pbs :: "pbs list"
  pg_retention :: retention
  pg_targets :: "target list"
  pg_stale :: f64
  pg_alerter :: alerter
  pg_listen :: string

datatype main_result = Exit int string | Running program string

definition version_text :: "main_env \<Rightarrow> string" where
  "version_text m =
     (let (ver, sha, built, dirty) = buildInfo (me_version m) (me_commit m) (me_built m) (me_info m)
      in ''glint '' @ ver @ [nl] @ ''  commit:    '' @ sha @ '' ('' @ dirty @ '')'' @ [nl] @
         ''  built:     '' @ built @ [nl] @ ''  go:        '' @ me_go m @ [nl] @
         ''  platform:  '' @ me_os m @ ''/'' @ me_arch m @ [nl])"

definition start_program :: "main_env \<Rightarrow> config \<Rightarrow> store \<Rightarrow> program" where
  "start_program m cfg st =
     (let (ver, sha, built, dirty) = buildInfo (me_version m) (me_commit m) (me_built m) (me_info m);
          alertCfg = wired_alerts (cf_alerts cfg);
          targets = concat (map targets_of (cf_notifications cfg))
      in \<lparr>pg_css = sha, pg_level = parse_level (cf_loglevel cfg), pg_json = (cf_logformat cfg = ''json''),
          pg_store = register_pbs (me_pbserr m) (cf_pbs cfg) (register_pve (me_pveerr m) (cf_pve cfg) st),
          pg_cache = cache_new, pg_pool = NewWorkerPool (nat (cf_workers cfg)),
          pg_pve = map (NewPVECollector \<circ> pve_collector_config) (cf_pve cfg),
          pg_temps = concat (map (temp_collector_of (me_readkey m) (me_parsekey m)) (cf_pve cfg)),
          pg_pbs = map (NewPBSCollector \<circ> pbs_collector_config) (cf_pbs cfg),
          pg_retention = DefaultRetention, pg_targets = targets, pg_stale = stale_hours alertCfg,
          pg_alerter = NewAlerter (map target_name targets) alertCfg, pg_listen = cf_listen cfg\<rparr>)"

definition main_run :: "main_env \<Rightarrow> flags \<Rightarrow> main_result" where
  "main_run m fl =
     (if fl_version fl then Exit 0 (version_text m)
      else if fl_healthcheck fl then Exit (runHealthcheck (me_env m) (me_http m)) []
      else case Load (me_env m) (me_urlok m) (me_yaml m) (me_readfile m) (fl_config fl) of
             Inl e \<Rightarrow> Exit 1 []
           | Inr cfg \<Rightarrow>
               (case store_New (me_faults m) (me_db m) of
                  Inl e \<Rightarrow> Exit 1 []
                | Inr st \<Rightarrow> Running (start_program m cfg st) (printListenURLs (me_ifaces m) (cf_listen cfg))))"

text \<open>A program that runs was started from a usable configuration.\<close>

lemma running:
  "main_run m fl = Running g out \<Longrightarrow>
    \<exists>cfg st. Load (me_env m) (me_urlok m) (me_yaml m) (me_readfile m) (fl_config fl) = Inr cfg \<and>
      usable (me_urlok m) cfg \<and> store_New (me_faults m) (me_db m) = Inr st \<and> g = start_program m cfg st"
proof -
  assume "main_run m fl = Running g out"
  then obtain cfg st where l: "Load (me_env m) (me_urlok m) (me_yaml m) (me_readfile m) (fl_config fl) = Inr cfg"
    and "store_New (me_faults m) (me_db m) = Inr st" "g = start_program m cfg st"
    by (auto simp: main_run_def split: if_splits sum.splits)
  moreover have "Validate (me_urlok m) cfg = None"
    using l by (auto simp: Load_def finish_load_def Let_def split: if_splits config_file.splits option.splits)
  ultimately show ?thesis using validate_usable by blast
qed

lemma start_sel:
  "pg_pve (start_program m cfg st) = map (NewPVECollector \<circ> pve_collector_config) (cf_pve cfg)"
  "pg_temps (start_program m cfg st) = concat (map (temp_collector_of (me_readkey m) (me_parsekey m)) (cf_pve cfg))"
  "pg_pbs (start_program m cfg st) = map (NewPBSCollector \<circ> pbs_collector_config) (cf_pbs cfg)"
  "pg_alerter (start_program m cfg st) =
     NewAlerter (map target_name (concat (map targets_of (cf_notifications cfg)))) (wired_alerts (cf_alerts cfg))"
  "pg_stale (start_program m cfg st) = stale_hours (wired_alerts (cf_alerts cfg))"
  "pg_cache (start_program m cfg st) = cache_new" "pg_listen (start_program m cfg st) = cf_listen cfg"
  "pg_pool (start_program m cfg st) = NewWorkerPool (nat (cf_workers cfg))"
  "pg_store (start_program m cfg st) = register_pbs (me_pbserr m) (cf_pbs cfg) (register_pve (me_pveerr m) (cf_pve cfg) st)"
  by (simp_all add: start_program_def Let_def split: prod.split)

section \<open>The alert rules that run\<close>

lemmas apply_defs = apply_cpu_def apply_guest_def apply_backup_def apply_datastore_def

lemma wired_sel:
  "ac_nodecpu (wired_alerts s) = Some (case as_cpu s of
     None \<Rightarrow> \<lparr>ta_threshold = Fin 90, ta_duration = 5 * minute, ta_severity = ''warning'', ta_cooldown = 1 * hour\<rparr>
   | Some c \<Rightarrow> \<lparr>ta_threshold = ca_threshold c, ta_duration = ca_duration c,
       ta_severity = override (ca_severity c) ''warning'', ta_cooldown = 1 * hour\<rparr>)"
  "ac_nodemem (wired_alerts s) = ac_nodemem DefaultAlertConfig"
  "ac_guestdown (wired_alerts s) = Some (case as_guest s of
     None \<Rightarrow> \<lparr>ga_grace = 2 * minute, ga_severity = ''critical'', ga_cooldown = 30 * minute\<rparr>
   | Some g \<Rightarrow> \<lparr>ga_grace = gr_grace g, ga_severity = override (gr_severity g) ''critical'', ga_cooldown = 30 * minute\<rparr>)"
  "ac_backupstale (wired_alerts s) = Some (case as_backup s of
     None \<Rightarrow> \<lparr>ba_maxage = 36 * hour, ba_severity = ''warning'', ba_cooldown = 6 * hour\<rparr>
   | Some b \<Rightarrow> \<lparr>ba_maxage = bk_maxage b, ba_severity = override (bk_severity b) ''warning'', ba_cooldown = 6 * hour\<rparr>)"
  "ac_disksmart (wired_alerts s) = ac_disksmart DefaultAlertConfig"
  "ac_dsfull (wired_alerts s) = Some (case as_ds s of
     None \<Rightarrow> \<lparr>ta_threshold = Fin 85, ta_duration = 0, ta_severity = ''warning'', ta_cooldown = 6 * hour\<rparr>
   | Some d \<Rightarrow> \<lparr>ta_threshold = dl_threshold d, ta_duration = 0, ta_severity = override (dl_severity d) ''warning'',
       ta_cooldown = 6 * hour\<rparr>)"
  by (simp_all add: wired_alerts_def apply_defs DefaultAlertConfig_def split: option.split)

text \<open>Whatever is configured, a running program has all six rules enabled, the cooldown of every key and
  the memory and SMART rules are the built-in ones (so a configured SMART severity has no effect), every
  hold is positive, and the hold of a key is the configured one where there is one.\<close>

theorem running_alert_rules:
  assumes "main_run m fl = Running g out"
  shows "\<exists>cfg. Load (me_env m) (me_urlok m) (me_yaml m) (me_readfile m) (fl_config fl) = Inr cfg \<and>
    al_config (pg_alerter g) = wired_alerts (cf_alerts cfg) \<and>
    key_cooldown (al_config (pg_alerter g)) k = key_cooldown DefaultAlertConfig k \<and>
    pred_option (\<lambda>h. 0 < h) (key_hold (al_config (pg_alerter g)) k) \<and>
    ac_nodemem (al_config (pg_alerter g)) = ac_nodemem DefaultAlertConfig \<and>
    ac_disksmart (al_config (pg_alerter g)) = ac_disksmart DefaultAlertConfig \<and>
    (has_prefix k ''guest_down:'' \<longrightarrow> key_hold (al_config (pg_alerter g)) k =
      Some (case as_guest (cf_alerts cfg) of Some s \<Rightarrow> gr_grace s | None \<Rightarrow> 2 * minute)) \<and>
    ac_nodecpu (al_config (pg_alerter g)) \<noteq> None \<and> ac_guestdown (al_config (pg_alerter g)) \<noteq> None \<and>
    ac_backupstale (al_config (pg_alerter g)) \<noteq> None \<and> ac_dsfull (al_config (pg_alerter g)) \<noteq> None"
proof -
  obtain cfg st where l: "Load (me_env m) (me_urlok m) (me_yaml m) (me_readfile m) (fl_config fl) = Inr cfg"
    and u: "usable (me_urlok m) cfg" and g: "g = start_program m cfg st"
    using running [OF assms] by blast
  let ?s = "cf_alerts cfg"
  have a: "al_config (pg_alerter g) = wired_alerts ?s" by (simp add: g start_sel NewAlerter_def)
  have us: "usable_alerts ?s" using u by (simp add: usable_def)
  have c: "key_cooldown (wired_alerts ?s) k = key_cooldown DefaultAlertConfig k"
    by (simp add: key_cooldown_def wired_sel DefaultAlertConfig_def split: option.split)
  have h: "pred_option (\<lambda>h. 0 < h) (key_hold (wired_alerts ?s) k)"
    using us by (cases "as_cpu ?s"; cases "as_guest ?s")
      (simp_all add: key_hold_def wired_sel DefaultAlertConfig_def usable_alerts_def)
  have gd: "has_prefix k ''guest_down:'' \<longrightarrow> key_hold (wired_alerts ?s) k =
      Some (case as_guest ?s of Some s \<Rightarrow> gr_grace s | None \<Rightarrow> 2 * minute)"
    by (cases k) (auto simp: key_hold_def wired_sel has_prefix_Cons has_prefix_def split: option.split)
  show ?thesis unfolding a using l c h gd by (intro exI [of _ cfg]) (simp add: wired_sel)
qed

section \<open>The stale chip and the stale alert\<close>

lemma backup_rule_in:
  assumes "(pbs, bs) \<in> set (c_backups snap)" and "(i, b) \<in> set bs" and "ac_backupstale cfg = Some s"
    and "backup_age (clk pbs i) b > ba_maxage s"
  shows "\<exists>r \<in> set (rules cfg snap now clk). ru_key r = ''backup_stale:'' @ pbs @ ''/'' @ i \<and> ru_holds r"
proof -
  obtain r where r: "backup_rules cfg now clk pbs (i, b) = [r]" "ru_key r = ''backup_stale:'' @ pbs @ ''/'' @ i" "ru_holds r"
    using assms(3,4) by (simp add: backup_rules_def)
  then have "r \<in> set (nested_rules (backup_rules cfg now clk) (c_backups snap))"
    using assms(1,2) unfolding in_nested_rules by force
  with r show ?thesis by (auto simp: rules_def)
qed

text \<open>C12: in a running program the dashboard and the alerter agree on stale backups in this direction: when the
  chip of a cached backup says "Stale" by the clock the alerter reads, then at that evaluation the alert
  for the backup is raised, unless one was raised within the cooldown.\<close>

theorem stale_chip_alerts:
  assumes "main_run m fl = Running g out"
    and "(pbs, bs) \<in> set (c_backups (Snapshot (tk_cache t)))" and "(i, b) \<in> set bs"
    and "in_i64 (case ac_backupstale (al_config (pg_alerter g)) of Some s \<Rightarrow> ba_maxage s | None \<Rightarrow> 0)"
    and "BackupStatusLabel (tk_clk t pbs i) (b_time b) (pg_stale g) = ''Stale''"
  shows "alerted (al_config (pg_alerter g)) (tk_now t) (''backup_stale:'' @ pbs @ ''/'' @ i)
    (alerter_run (ts @ [t]) (pg_alerter g))"
proof -
  obtain cfg st where u: "usable (me_urlok m) cfg" and g: "g = start_program m cfg st"
    using running [OF assms(1)] by blast
  let ?ac = "wired_alerts (cf_alerts cfg)"
  obtain s where s: "ac_backupstale ?ac = Some s" by (simp add: wired_sel)
  then have s0: "0 \<le> ba_maxage s"
    using u by (cases "as_backup (cf_alerts cfg)") (auto simp: wired_sel usable_def usable_alerts_def)
  have "backup_age (tk_clk t pbs i) b > ba_maxage s"
    using assms(4,5) s s0 by (intro stale_chip) (simp_all add: g start_sel NewAlerter_def stale_hours_def)
  then obtain r where r: "r \<in> set (tick_rules ?ac t)" "ru_key r = ''backup_stale:'' @ pbs @ ''/'' @ i" "ru_holds r"
    using backup_rule_in [OF assms(2,3) s] unfolding tick_rules_def by blast
  have "key_hold ?ac (ru_key r) = None" by (simp add: r key_hold_def has_prefix_Cons)
  from instant_alert [OF r(1,3) this] show ?thesis by (simp add: g start_sel NewAlerter_def r)
qed

section \<open>A program that runs\<close>

definition sample_main :: main_env where
  "sample_main =
     \<lparr>me_version = ''1.0'', me_commit = ''none'', me_built = ''unknown'', me_info = None, me_go = ''go1.25'',
      me_os = ''linux'', me_arch = ''amd64'',
      me_env = (\<lambda>v. if v = ''GLINT_PVE_URL'' then ''https://pve:8006'' else if v = ''GLINT_PVE_TOKEN_ID'' then ''t''
         else if v = ''GLINT_PVE_TOKEN_SECRET'' then ''s'' else []),
      me_urlok = \<lambda>_. True, me_yaml = \<lambda>_ _. None, me_readfile = \<lambda>_. NotExist, me_http = \<lambda>_. NetError,
      me_faults = \<lparr>op_indir = False, op_mkdir = False, op_open = False, op_chmod = False, op_ping = False, op_exec = False\<rparr>,
      me_db = empty_store, me_pveerr = \<lambda>_. False, me_pbserr = \<lambda>_. False, me_readkey = \<lambda>_. None,
      me_parsekey = \<lambda>_. False, me_ifaces = None\<rparr>"

definition sample_flags :: flags where
  "sample_flags = \<lparr>fl_config = [], fl_version = False, fl_healthcheck = False\<rparr>"

lemma sample_runs:
  obtains g out where "main_run sample_main sample_flags = Running g out" and "pg_cache g = cache_new"
    and "al_config (pg_alerter g) = DefaultAlertConfig" and "pg_stale g = dur_hours (36 * hour)"
    and "pg_pve g = [NewPVECollector \<lparr>pc_name = ''default'', pc_host = ''https://pve:8006'', pc_tokenid = ''t'',
      pc_secret = ''s'', pc_iscluster = False, pc_interval = 15 * second, pc_diskinterval = 1 * hour\<rparr>]"
    and "pg_store g = snd (UpsertPVEInstance False ''default'' ''https://pve:8006'' False [] empty_store)"
proof -
  let ?cfg = "applyEnvOverrides (me_env sample_main) defaults"
  have u: "usable (me_urlok sample_main) ?cfg"
    by (simp add: usable_def applyEnvOverrides_def defaults_def env_set_def env_int_def env_pve_def env_pbs_def
        env_ntfy_def sample_main_def usable_pve_def usable_alerts_def nonempty_def)
  then have l: "Load (me_env sample_main) (me_urlok sample_main) (me_yaml sample_main) (me_readfile sample_main) [] = Inr ?cfg"
    by (simp add: Load_def finish_load_def Let_def flip: validate_usable)
  have "store_New (me_faults sample_main) (me_db sample_main) = Inr empty_store"
    by (simp add: store_New_def sample_main_def)
  with l have r: "main_run sample_main sample_flags =
      Running (start_program sample_main ?cfg empty_store) (printListenURLs None (cf_listen ?cfg))"
    by (simp add: main_run_def sample_flags_def) (simp add: sample_main_def)
  have a: "cf_alerts ?cfg = \<lparr>as_cpu = None, as_guest = None, as_backup = None, as_smart = None, as_ds = None\<rparr>"
    by (simp add: applyEnvOverrides_def defaults_def)
  have w: "wired_alerts (cf_alerts ?cfg) = DefaultAlertConfig" by (simp add: a wired_alerts_def apply_defs)
  have p: "cf_pve ?cfg = [\<lparr>ps_name = ''default'', ps_host = ''https://pve:8006'', ps_tokenid = ''t'', ps_secret = ''s'',
      ps_insecure = False, ps_interval = 15 * second, ps_diskinterval = 1 * hour, ps_ssh = None\<rparr>]"
    by (simp add: applyEnvOverrides_def defaults_def env_pve_def env_true_def sample_main_def)
  have b: "cf_pbs ?cfg = []" by (simp add: applyEnvOverrides_def defaults_def env_pbs_def sample_main_def)
  have e: "me_pveerr sample_main = (\<lambda>_. False)" by (simp add: sample_main_def)
  have "pg_store (start_program sample_main ?cfg empty_store) =
      snd (UpsertPVEInstance False ''default'' ''https://pve:8006'' False [] empty_store)"
    by (simp add: start_sel b p e register_pve_def register_pbs_def)
  then show ?thesis
    by (rule that [OF r, rotated -1]) (simp_all only: start_sel w NewAlerter_def alerter.select_convs stale_hours_def
        DefaultAlertConfig_def alert_config.select_convs option.case backup_alert.select_convs p list.map comp_apply
        pve_collector_config_def pve_settings.select_convs, simp_all)
qed

theorem running_alert_rules_witness:
  "\<exists>g out. main_run sample_main sample_flags = Running g out \<and>
    key_cooldown (al_config (pg_alerter g)) ''guest_down:x/1'' = 30 * minute"
proof -
  obtain g out where r: "main_run sample_main sample_flags = Running g out" by (rule sample_runs)
  from running_alert_rules [OF r, of "''guest_down:x/1''"]
  have "key_cooldown (al_config (pg_alerter g)) ''guest_down:x/1'' = 30 * minute"
    by (auto simp: key_cooldown_def has_prefix_Cons DefaultAlertConfig_def)
  with r show ?thesis by blast
qed

theorem stale_chip_alerts_witness:
  "\<exists>g out. main_run sample_main sample_flags = Running g out \<and>
    alerted DefaultAlertConfig 5 ''backup_stale:pbs/vm/1'' (alerter_run [\<lparr>tk_cache = cache_new\<lparr>c_backups :=
      [(''pbs'', [(''vm/1'', \<lparr>b_instance = ''pbs'', b_datastore = ''d'', b_type = ''vm'', b_id = ''1'', b_time = 0,
        b_size = None, b_verified = None\<rparr>)])]\<rparr>, tk_now = 5, tk_clk = \<lambda>_ _. 100 * hour\<rparr>] (pg_alerter g))"
proof -
  let ?b = "\<lparr>b_instance = ''pbs'', b_datastore = ''d'', b_type = ''vm'', b_id = ''1'', b_time = 0, b_size = None,
    b_verified = None\<rparr>"
  let ?t = "\<lparr>tk_cache = cache_new\<lparr>c_backups := [(''pbs'', [(''vm/1'', ?b)])]\<rparr>, tk_now = 5, tk_clk = \<lambda>_ _. 100 * hour\<rparr>"
  obtain g out where r: "main_run sample_main sample_flags = Running g out"
    and a: "al_config (pg_alerter g) = DefaultAlertConfig" and h: "pg_stale g = dur_hours (36 * hour)" by (rule sample_runs)
  have "c_backups (Snapshot (tk_cache ?t)) = [(''pbs'', [(''vm/1'', ?b)])]"
    by (subst Snapshot_eq) (simp_all add: wf_cache_def wf_nested_def cache_new_def)
  then have "alerted DefaultAlertConfig (tk_now ?t) (''backup_stale:'' @ ''pbs'' @ ''/'' @ ''vm/1'')
      (alerter_run ([] @ [?t]) (pg_alerter g))"
    unfolding a [symmetric]
    by (intro stale_chip_alerts [OF r, where bs = "[(''vm/1'', ?b)]" and b = ?b])
      (simp_all add: a h DefaultAlertConfig_def in_i64_def BackupStatusLabel_def dur_hours_def dur_in_def
        time_of_unix_def time_sub_def min_i64_def max_i64_def rnd_numeral)
  with r show ?thesis by auto
qed

section \<open>The collectors that run\<close>

lemma started_pve: "main_run m fl = Running g out \<Longrightarrow> p \<in> set (pg_pve g) \<Longrightarrow>
    \<not> pc_iscluster (pv_config p) \<and> pv_clusterid p = [] \<and> pv_nodes p = []"
  by (auto simp: start_sel NewPVECollector_def pve_collector_config_def dest!: running)

lemma lone_instance:
  assumes "\<not> pc_iscluster (pv_config p)" and "pv_clusterid p \<in> {[], pc_name (pv_config p)}"
  shows "case pve_Collect po (p, c, s) of (err, p', c', s') \<Rightarrow>
    pv_config p' = pv_config p \<and> pv_clusterid p' \<in> {[], pc_name (pv_config p)} \<and>
    (err = None \<longrightarrow> pv_clusterid p' = pc_name (pv_config p)) \<and>
    (\<forall>i. i \<noteq> pc_name (pv_config p) \<longrightarrow> gm_get (c_guests c') i = gm_get (c_guests c) i)"
proof (cases "discoverNodes (po_api po) p")
  case (Inr p1)
  note d = discover_keeps [OF Inr]
  have r: "pv_config (resolve_cluster (po_api po) p1) = pv_config p"
    "pv_clusterid (resolve_cluster (po_api po) p1) = pc_name (pv_config p)"
    using resolve_cluster_keeps [of "po_api po" p1] d assms by (auto simp: resolve_cluster_def)
  then show ?thesis
    by (cases "refused po (resolve_cluster (po_api po) p1)")
      (simp_all add: pve_Collect_def Inr Let_def poll_cache_def cache_ops)
qed (use assms in \<open>simp add: pve_Collect_def\<close>)

text \<open>The polls of one collector, each with what the outside gave it.\<close>

definition pve_polls :: "poll_env list \<Rightarrow> pve \<times> cache \<times> store \<Rightarrow> pve \<times> cache \<times> store" where
  "pve_polls pos st = fold (\<lambda>po st. snd (pve_Collect po st)) pos st"

text \<open>C35: the name of a cluster is never looked up in a running program. Whatever its polls find, a collector
  keeps its guests under the name of its instance and no other name, and once a poll has succeeded that name
  is its cluster's; two instances of one Proxmox cluster are therefore two clusters to the dashboard and the
  alerter.\<close>

theorem cluster_is_instance:
  assumes "main_run m fl = Running g out" and "p \<in> set (pg_pve g)"
  shows "case pve_polls pos (p, c, s) of (p', c', s') \<Rightarrow>
    pv_clusterid p' \<in> {[], pc_name (pv_config p)} \<and>
    (fst (pve_Collect po (p', c', s')) = None \<longrightarrow>
      pv_clusterid (fst (snd (pve_Collect po (p', c', s')))) = pc_name (pv_config p)) \<and>
    (i \<noteq> pc_name (pv_config p) \<longrightarrow> gm_get (c_guests c') i = gm_get (c_guests c) i)"
proof -
  let ?I = "\<lambda>(p', c', s' :: store). pv_config p' = pv_config p \<and> pv_clusterid p' \<in> {[], pc_name (pv_config p)} \<and>
    (i \<noteq> pc_name (pv_config p) \<longrightarrow> gm_get (c_guests c') i = gm_get (c_guests c) i)"
  have l: "\<not> pc_iscluster (pv_config p)" "pv_clusterid p = []" using started_pve [OF assms] by simp_all
  have "?I (pve_polls pos (p, c, s))" unfolding pve_polls_def
  proof (rule fold_invariant [where P = ?I])
    fix po :: poll_env and st :: "pve \<times> cache \<times> store" assume st: "?I st"
    obtain q d u where "st = (q, d, u)" by (cases st)
    with st l lone_instance [where p = q and po = po and c = d and s = u] show "?I (snd (pve_Collect po st))" by (auto split: prod.splits)
  qed (simp add: l)
  moreover obtain q d u where r: "pve_polls pos (p, c, s) = (q, d, u)" by (cases "pve_polls pos (p, c, s)")
  ultimately show ?thesis using l lone_instance [where p = q and po = po and c = d and s = u]
    by (auto simp: split_beta)
qed

text \<open>The node of an instance in the cache.\<close>

definition node_at :: "cache \<Rightarrow> string \<Rightarrow> string \<Rightarrow> node option" where
  "node_at c i nd = Option.bind (gm_get (c_nodes c) i) (\<lambda>nodes. gm_get nodes nd)"

text \<open>C40: a temperature is only ever recorded for a node that bears the name of its instance: while the cache
  has no such node, a poll of a started temperature collector leaves the cache exactly as it was, whatever
  the sensors say. When it has one, a poll that reads a temperature changes that of this node and nothing
  else: no other field of it, no other node of this or another instance, no guest, disk or other entry of the cache.\<close>

theorem temperature_needs_namesake:
  assumes "main_run m fl = Running g out" and "t \<in> set (pg_temps g)"
  shows "tc_node t = tc_instance t \<and>
    (case temp_collect w t c of (err, c') \<Rightarrow> err = None \<and>
       (if node_at c (tc_instance t) (tc_instance t) = None then c' = c
        else c'\<lparr>c_nodes := c_nodes c\<rparr> = c \<and>
          node_at c' i nd =
            (case pollTemperature w t of
               Inl e \<Rightarrow> node_at c i nd
             | Inr x \<Rightarrow> if i = tc_instance t \<and> nd = tc_instance t
                 then map_option (\<lambda>n. n\<lparr>n_temperature := Some x\<rparr>) (node_at c i nd) else node_at c i nd)))"
proof -
  obtain cfg st where g: "g = start_program m cfg st" using running [OF assms(1)] by blast
  have "tc_node t = tc_instance t"
    using assms(2) by (auto simp: g start_sel temp_collector_of_def NewTempCollector_def split: option.splits if_splits)
  then show ?thesis
    by (auto simp: temp_collect_def UpdateNodeTemperature_def node_at_def Option.bind_eq_None_conv split: sum.split option.split)
qed

text \<open>The pool of a running program has room for at least one job, and every poll interval is not zero. An
  interval that a ticker refuses (\<open>time.NewTicker\<close> panics when it is not positive) is one that was
  configured negative, which the validation lets pass; a configuration that names no file has none.\<close>

theorem running_intervals:
  assumes "main_run m fl = Running g out"
  shows "0 < wp_cap (pg_pool g) \<and>
    list_all (\<lambda>i. i \<noteq> 0) (map (pc_interval \<circ> pv_config) (pg_pve g) @ map (bc_interval \<circ> pb_config) (pg_pbs g)) \<and>
    (\<exists>cfg. Load (me_env m) (me_urlok m) (me_yaml m) (me_readfile m) (fl_config fl) = Inr cfg \<and>
      (list_all (\<lambda>i. 0 < i) (map (pc_interval \<circ> pv_config) (pg_pve g) @ map (bc_interval \<circ> pb_config) (pg_pbs g)) \<longleftrightarrow>
        list_all (\<lambda>i. 0 \<le> i) (map ps_interval (cf_pve cfg) @ map bs_interval (cf_pbs cfg)))) \<and>
    (fl_config fl = [] \<longrightarrow>
      list_all (\<lambda>i. 0 < i) (map (pc_interval \<circ> pv_config) (pg_pve g) @ map (bc_interval \<circ> pb_config) (pg_pbs g)))"
proof -
  obtain cfg st where l: "Load (me_env m) (me_urlok m) (me_yaml m) (me_readfile m) (fl_config fl) = Inr cfg"
    and u: "usable (me_urlok m) cfg" and g: "g = start_program m cfg st" using running [OF assms] by blast
  have p: "map (pc_interval \<circ> pv_config) (pg_pve g) =
      map (\<lambda>i. if i = 0 then 15 * second else i) (map ps_interval (cf_pve cfg))"
    by (simp add: g start_sel NewPVECollector_def pve_collector_config_def)
  have b: "map (bc_interval \<circ> pb_config) (pg_pbs g) =
      map (\<lambda>i. if i = 0 then 5 * minute else i) (map bs_interval (cf_pbs cfg))"
    by (simp add: g start_sel NewPBSCollector_def pbs_collector_config_def)
  have c: "0 < wp_cap (pg_pool g)" using u by (simp add: g start_sel NewWorkerPool_def usable_def)
  have e: "list_all (\<lambda>i. 0 \<le> i) (map ps_interval (cf_pve cfg) @ map bs_interval (cf_pbs cfg))" if "fl_config fl = []"
    using l that by (auto simp: Load_def finish_load_def Let_def applyEnvOverrides_def defaults_def env_pve_def env_pbs_def
        split: option.splits)
  have s: "list_all (\<lambda>i. 0 < i) (map (\<lambda>i. if i = 0 then d else i) xs) \<longleftrightarrow> list_all (\<lambda>i. 0 \<le> i) xs"
    "list_all (\<lambda>i. i \<noteq> 0) (map (\<lambda>i. if i = 0 then d else i) xs)" if "0 < d" for d :: int and xs
    using that by (induction xs) auto
  have s15: "0 < 15 * second" and m5: "0 < 5 * minute" by simp_all
  show ?thesis unfolding p b list_all_append s(1) [OF s15] s(1) [OF m5]
    using l c e s(2) [OF s15] s(2) [OF m5] by (auto simp del: map_map)
qed

theorem running_intervals_witness:
  "\<exists>g out. main_run sample_main sample_flags = Running g out \<and>
    list_all (\<lambda>i. 0 < i) (map (pc_interval \<circ> pv_config) (pg_pve g))"
proof -
  obtain g out where r: "main_run sample_main sample_flags = Running g out" by (rule sample_runs)
  from running_intervals [OF r] have "list_all (\<lambda>i. 0 < i) (map (pc_interval \<circ> pv_config) (pg_pve g))"
    by (simp add: sample_flags_def)
  with r show ?thesis by blast
qed

theorem cluster_is_instance_witness:
  "\<exists>g out p. main_run sample_main sample_flags = Running g out \<and> pg_pve g = [p] \<and>
    (\<forall>pos c s. pv_clusterid (fst (pve_polls pos (p, c, s))) \<in> {[], ''default''})"
proof -
  obtain g out p where r: "main_run sample_main sample_flags = Running g out" and p: "pg_pve g = [p]"
    and n: "pc_name (pv_config p) = ''default''"
    by (rule sample_runs) (simp add: NewPVECollector_def)
  have "pv_clusterid (fst (pve_polls pos (p, c, s))) \<in> {[], ''default''}" for pos c s
    using cluster_is_instance [OF r, where p = p and pos = pos and c = c and s = s] p n by (auto simp: split_beta)
  with r p show ?thesis by blast
qed

text \<open>A program with a temperature collector: the same environment and a file with one instance.\<close>

definition sample_ssh :: main_env where
  "sample_ssh = sample_main\<lparr>me_readfile := \<lambda>_. Content ''x'', me_yaml := \<lambda>_ d. Some (d\<lparr>cf_pve := [\<lparr>ps_name = ''pve'',
     ps_host = ''h'', ps_tokenid = ''t'', ps_secret = ''s'', ps_insecure = False, ps_interval = 0, ps_diskinterval = 0,
     ps_ssh = Some \<lparr>sh_host = ''h'', sh_user = ''u'', sh_key = ''k'', sh_knownhosts = []\<rparr>\<rparr>]\<rparr>),
     me_readkey := \<lambda>_. Some ''key'', me_parsekey := \<lambda>_. True\<rparr>"

lemma sample_ssh_runs:
  obtains g out where "main_run sample_ssh (sample_flags\<lparr>fl_config := ''f''\<rparr>) = Running g out"
    and "pg_temps g = [\<lparr>tc_instance = ''pve'', tc_node = ''pve'', tc_ssh = \<lparr>sc_host = ''h'', sc_user = ''u'', sc_key = ''k'',
      sc_knownhosts = []\<rparr>\<rparr>]"
proof -
  define cfg where "cfg = applyEnvOverrides (me_env sample_ssh) (the (me_yaml sample_ssh [] defaults))"
  have e: "expandEnvVars env ''x'' = ''x''" for env by (simp add: placeholder_none)
  have u: "usable (me_urlok sample_ssh) cfg"
    by (simp add: cfg_def usable_def applyEnvOverrides_def defaults_def env_set_def env_int_def env_pve_def env_pbs_def
        env_ntfy_def sample_ssh_def sample_main_def usable_pve_def usable_alerts_def nonempty_def)
  have y: "me_readfile sample_ssh ''f'' = Content ''x''" "me_yaml sample_ssh ''x'' defaults = me_yaml sample_ssh [] defaults"
    "me_yaml sample_ssh [] defaults \<noteq> None" by (simp_all add: sample_ssh_def)
  have l: "Load (me_env sample_ssh) (me_urlok sample_ssh) (me_yaml sample_ssh) (me_readfile sample_ssh) ''f'' = Inr cfg"
    using u y by (auto simp: Load_def finish_load_def Let_def e cfg_def simp del: expandEnvVars.simps simp flip: validate_usable)
  have "store_New (me_faults sample_ssh) (me_db sample_ssh) = Inr empty_store"
    by (simp add: store_New_def sample_ssh_def sample_main_def)
  with l have "main_run sample_ssh (sample_flags\<lparr>fl_config := ''f''\<rparr>) =
      Running (start_program sample_ssh cfg empty_store) (printListenURLs (me_ifaces sample_ssh) (cf_listen cfg))"
    by (simp add: main_run_def sample_flags_def)
  moreover have "pg_temps (start_program sample_ssh cfg empty_store) = [\<lparr>tc_instance = ''pve'', tc_node = ''pve'',
      tc_ssh = \<lparr>sc_host = ''h'', sc_user = ''u'', sc_key = ''k'', sc_knownhosts = []\<rparr>\<rparr>]"
    by (simp add: start_sel cfg_def applyEnvOverrides_def env_pve_def sample_ssh_def temp_collector_of_def NewTempCollector_def)
  ultimately show ?thesis by (rule that)
qed

theorem temperature_needs_namesake_witness:
  "\<exists>g out t. main_run sample_ssh (sample_flags\<lparr>fl_config := ''f''\<rparr>) = Running g out \<and> pg_temps g = [t] \<and>
    (\<forall>n k. let w = \<lparr>sw_knownhosts = \<lambda>_. True, sw_dial = \<lambda>_. True, sw_handshake = True, sw_session = True,
           sw_sensors = Some (Some (AMap [(''coretemp'', AMap [(''Core 0'', AMap [(''temp2_input'', AF64 (Fin 48))])])]))\<rparr>;
         lone = cache_new\<lparr>c_nodes := [(''pve'', [(''b'', k)])]\<rparr>; both = cache_new\<lparr>c_nodes := [(''pve'', [(''b'', k), (''pve'', n)])]\<rparr>
       in temp_collect w t lone = (None, lone) \<and>
         node_at (snd (temp_collect w t both)) ''pve'' ''pve'' = Some (n\<lparr>n_temperature := Some (Fin 48)\<rparr>) \<and>
         node_at (snd (temp_collect w t both)) ''pve'' ''b'' = Some k)"
proof -
  obtain g out t where r: "main_run sample_ssh (sample_flags\<lparr>fl_config := ''f''\<rparr>) = Running g out"
    and t: "pg_temps g = [t]" "t = \<lparr>tc_instance = ''pve'', tc_node = ''pve'', tc_ssh = \<lparr>sc_host = ''h'', sc_user = ''u'',
      sc_key = ''k'', sc_knownhosts = []\<rparr>\<rparr>"
    by (rule sample_ssh_runs) simp
  let ?w = "\<lparr>sw_knownhosts = \<lambda>_. True, sw_dial = \<lambda>_. True, sw_handshake = True, sw_session = True,
    sw_sensors = Some (Some (AMap [(''coretemp'', AMap [(''Core 0'', AMap [(''temp2_input'', AF64 (Fin 48))])])]))\<rparr>"
  have x: "pollTemperature ?w t = Inr (Fin 48)"
    by (simp add: t pollTemperature_def hostKeyCallback_def parseSensorsJSON_def chip_max_def sensor_max_def upd_max_def
        isRelevantChip_def has_prefix_def is_input_key_def flt_def)
  have "temp_collect ?w t (cache_new\<lparr>c_nodes := [(''pve'', [(''b'', k)])]\<rparr>) = (None, cache_new\<lparr>c_nodes := [(''pve'', [(''b'', k)])]\<rparr>)" for k
    using temperature_needs_namesake [OF r, of t, where w = ?w and c = "cache_new\<lparr>c_nodes := [(''pve'', [(''b'', k)])]\<rparr>"] t
    by (auto simp: node_at_def split: prod.splits)
  moreover have "node_at (snd (temp_collect ?w t (cache_new\<lparr>c_nodes := [(''pve'', [(''b'', k), (''pve'', n)])]\<rparr>))) ''pve'' nd =
      (if nd = ''pve'' then Some (n\<lparr>n_temperature := Some (Fin 48)\<rparr>) else if nd = ''b'' then Some k else None)" for n k nd
    using temperature_needs_namesake [OF r, of t, where w = ?w and c = "cache_new\<lparr>c_nodes := [(''pve'', [(''b'', k), (''pve'', n)])]\<rparr>" and i = "''pve''" and nd = nd] t x
    by (auto simp: node_at_def split: prod.splits)
  ultimately show ?thesis using r t(1) by (intro exI [of _ g] exI [of _ out] exI [of _ t]) (simp add: Let_def)
qed

end
