(* ===== verification/SharedNodes.thy ===== *)
theory SharedNodes
  imports CacheHeap PveCollect
begin

text \<open>
  The nodes of a poll after \<open>UpdateNodes\<close>: the collector still holds the pointers it has handed over and builds the
  rows of \<open>node_snapshots\<close> from them, without the lock of the cache, while the temperature poller may write through
  the same pointers (\<open>internal/collector/pve.go\<close>, \<open>internal/cache/cache.go\<close>). Here \<open>ops\<close> are the operations on the
  cache between the update and the building of a row, in any order; what the row then holds is given exactly.
\<close>

text \<open>The temperature of a node that was put into the cache before these operations: the last one written for its name
  before the nodes of its instance are replaced.\<close>

fun temp_after :: "string \<Rightarrow> string \<Rightarrow> heap_op list \<Rightarrow> f64 option \<Rightarrow> f64 option" where
  "temp_after i nd [] t = t"
| "temp_after i nd (HNodes j m # ops) t = (if j = i then t else temp_after i nd ops t)"
| "temp_after i nd (HTemperature j n x # ops) t = temp_after i nd ops (if j = i \<and> n = nd then Some x else t)"
| "temp_after i nd (_ # ops) t = temp_after i nd ops t"

text \<open>The row a poll builds from the pointer of a node.\<close>

definition row_from :: "pve \<Rightarrow> int \<Rightarrow> heap_cache \<Rightarrow> addr \<Rightarrow> node_snapshot" where
  "row_from p ts h a = node_snapshot_of p ts (hc_heap h ! a)"

section \<open>While the cache still points to the nodes\<close>

lemma refs_other:
  assumes "distinct (refs m)" and "gm_get m i = Some ns" and "gm_get m j = Some ms" and "i \<noteq> j"
  shows "set (map snd ns) \<inter> set (map snd ms) = {}"
  using assms
proof (induction m)
  case (Cons p m)
  then show ?case
    using refs_get [of m i ns] refs_get [of m j ms] by (cases p) (auto split: if_splits; blast)
qed simp

lemma refs_del_own:
  assumes "distinct (refs m)" and "gm_get m i = Some ns"
  shows "set (map snd ns) \<inter> set (refs (gm_del i m)) = {}"
  using assms
proof (induction m)
  case (Cons p m)
  obtain k ms where p: "p = (k, ms)" by (cases p)
  show ?case
  proof (cases "k = i")
    case True
    then have "set (refs (gm_del i (p # m))) \<subseteq> set (refs m)" using refs_del [of i m] by (simp add: p gm_del_def)
    moreover have "ns = ms" "set (map snd ms) \<inter> set (refs m) = {}" using Cons.prems True by (simp_all add: p)
    ultimately show ?thesis by blast
  next
    case False
    then have g: "gm_get m i = Some ns" and d: "distinct (refs m)" "set (map snd ms) \<inter> set (refs m) = {}"
      using Cons.prems by (simp_all add: p)
    have "set (refs (gm_del i (p # m))) = set (map snd ms) \<union> set (refs (gm_del i m))"
      using False by (simp add: p gm_del_def)
    with Cons.IH [OF d(1) g] d(2) refs_get [OF g] show ?thesis by blast
  qed
qed simp

lemma get_inj: "distinct (map snd m) \<Longrightarrow> gm_get m x = Some b \<Longrightarrow> gm_get m y = Some b \<Longrightarrow> x = y"
  by (induction m) (auto split: if_splits dest: map_of_SomeD intro: rev_image_eqI)

lemma refs_own: "distinct (refs m) \<Longrightarrow> gm_get m i = Some ns \<Longrightarrow> distinct (map snd ns)"
  by (induction m) (auto split: if_splits)

definition linked :: "string \<Rightarrow> (string, addr) gomap \<Rightarrow> heap_cache \<Rightarrow> bool" where
  "linked i m h \<longleftrightarrow> heap_ok h \<and> gm_get (hc_nodes h) i = Some m"

lemma linked_valid: "linked i m h \<Longrightarrow> a \<in> set (map snd m) \<Longrightarrow> a < length (hc_heap h)"
  using refs_get [of "hc_nodes h" i m] by (auto simp: linked_def heap_ok_def list_all_iff)

text \<open>An operation of the others keeps the link, and changes the node only by writing its temperature.\<close>

lemma linked_step:
  assumes l: "linked i m h" and op: "heap_op_ok (map snd m) o1 h" and a: "gm_get m nd = Some a"
    and other: "\<And>m'. o1 \<noteq> HNodes i m'"
  shows "linked i m (heap_apply o1 h) \<and>
    hc_heap (heap_apply o1 h) ! a = (case o1 of HTemperature j n x \<Rightarrow>
       if j = i \<and> n = nd then (hc_heap h ! a)\<lparr>n_temperature := Some x\<rparr> else hc_heap h ! a | _ \<Rightarrow> hc_heap h ! a)"
proof -
  have am: "a \<in> set (map snd m)" using a by (force dest: map_of_SomeD)
  note v = linked_valid [OF l am]
  have h: "heap_ok h" "distinct (refs (hc_nodes h))" "gm_get (hc_nodes h) i = Some m"
    using l by (simp_all add: linked_def heap_ok_def)
  show ?thesis
  proof (cases o1)
    case (HAlloc n)
    with l v show ?thesis by (auto simp: linked_def heap_ok_def h_alloc_def list_all_iff nth_append)
  next
    case (HNodes j m')
    with other have "i \<noteq> j" by blast
    with HNodes op put_ok(1) [OF h(1), of "map snd m" j m'] h(3) show ?thesis
      by (simp add: linked_def h_update_nodes_def)
  next
    case HSnapshot
    obtain snap h' where s: "h_snapshot h = (snap, h')" by (cases "h_snapshot h")
    with HSnapshot snapshot_spec [OF h(1) s] l v show ?thesis
      by (auto simp: linked_def heap_ok_def list_all_iff intro: less_le_trans)
  next
    case (HTemperature j n x)
    have k: "linked i m (heap_apply o1 h)"
      using l temperature_frame [of j n x h] by (auto simp: HTemperature linked_def heap_ok_def)
    have "hc_heap (h_update_temperature j n x h) ! a =
        (if j = i \<and> n = nd then (hc_heap h ! a)\<lparr>n_temperature := Some x\<rparr> else hc_heap h ! a)"
    proof (cases "\<exists>ms b. gm_get (hc_nodes h) j = Some ms \<and> gm_get ms n = Some b")
      case False
      with h(3) a show ?thesis by (auto simp: h_update_temperature_def split: option.split)
    next
      case True
      then obtain ms b where b: "gm_get (hc_nodes h) j = Some ms" "gm_get ms n = Some b" by blast
      then have u: "hc_heap (h_update_temperature j n x h) = (hc_heap h)[b := (hc_heap h ! b)\<lparr>n_temperature := Some x\<rparr>]"
        by (simp add: h_update_temperature_def)
      have bm: "b \<in> set (map snd ms)" using b(2) by (force dest: map_of_SomeD)
      show ?thesis
      proof (cases "j = i \<and> n = nd")
        case True
        with b a h(3) v u show ?thesis by simp
      next
        case False
        have "b \<noteq> a"
        proof (cases "j = i")
          case True
          with b h(3) False have "gm_get m n = Some b" "n \<noteq> nd" by auto
          with get_inj [OF refs_own [OF h(2,3)], of n b nd] a show ?thesis by blast
        next
          case False
          with refs_other [OF h(2) h(3) b(1)] am bm show ?thesis by blast
        qed
        with False u show ?thesis by auto
      qed
    qed
    with k HTemperature show ?thesis by simp
  qed
qed

text \<open>When the nodes of the instance are replaced, the cache no longer points to the old ones.\<close>

lemma unlinked:
  assumes l: "linked i m h" and op: "heap_op_ok (map snd m) (HNodes i m') h"
  shows "kept_apart (map snd m) (hc_heap h) (heap_apply (HNodes i m') h)"
proof -
  have h: "heap_ok h" "distinct (refs (hc_nodes h))" "gm_get (hc_nodes h) i = Some m" "wf_gomap (hc_nodes h)"
    using l by (simp_all add: linked_def heap_ok_def wf_nested_def)
  have "set (refs (gm_put i m' (hc_nodes h))) = set (map snd m') \<union> set (refs (gm_del i (hc_nodes h)))"
    using mset_eq_setD [of "refs (gm_put i m' (hc_nodes h))" "map snd m' @ refs (gm_del i (hc_nodes h))"] refs_put [OF h(4)]
    by simp
  moreover have "set (map snd m') \<inter> set (map snd m) = {}"
    using op unfolding heap_op_ok.simps list_all_iff by blast
  ultimately have "a \<notin> set (refs (gm_put i m' (hc_nodes h)))" if "a \<in> set (map snd m)" for a
    using that refs_del_own [OF h(2,3)] by blast
  with put_ok(1) [OF h(1) op] linked_valid [OF l] show ?thesis
    by (simp add: kept_apart_def h_update_nodes_def list_all_iff)
qed

lemma temp_run:
  assumes "linked i m h" and "heap_run_ok (map snd m) ops h" and "gm_get m nd = Some a"
    and "hc_heap h ! a = n\<lparr>n_temperature := t\<rparr>"
  shows "hc_heap (heap_run ops h) ! a = n\<lparr>n_temperature := temp_after i nd ops t\<rparr>"
  using assms(1,2,4)
proof (induction ops arbitrary: h t)
  case (Cons o1 ops)
  have am: "a \<in> set (map snd m)" using assms(3) by (force dest: map_of_SomeD)
  show ?case
  proof (cases "\<exists>m'. o1 = HNodes i m'")
    case True
    then obtain m' where o1: "o1 = HNodes i m'" by blast
    have "kept_apart (map snd m) (hc_heap h) (heap_run ops (heap_apply o1 h))"
      using Cons.prems unfolding o1 by (intro kept_apart_run unlinked) simp_all
    then have "hc_heap (heap_run ops (heap_apply o1 h)) ! a = hc_heap h ! a"
      using am unfolding kept_apart_def list_all_iff by blast
    with Cons.prems(3) show ?thesis by (simp add: o1 heap_run_def)
  next
    case False
    with Cons.prems assms(3) have s: "linked i m (heap_apply o1 h)" "hc_heap (heap_apply o1 h) ! a =
      (case o1 of HTemperature j n x \<Rightarrow>
       if j = i \<and> n = nd then (hc_heap h ! a)\<lparr>n_temperature := Some x\<rparr> else hc_heap h ! a | _ \<Rightarrow> hc_heap h ! a)"
      using linked_step [of i m h o1 nd a] by auto
    with Cons.prems False show ?thesis
      by (cases o1) (auto simp: heap_run_def dest!: Cons.IH [unfolded heap_run_def])
  qed
qed (simp add: heap_run_def)

section \<open>What a row of a poll holds\<close>

lemma temp_after_written: "temp_after i nd ops t \<in> insert t (Some ` {x. HTemperature i nd x \<in> set ops})"
proof (induction i nd ops t rule: temp_after.induct)
  case (3 i nd j n x ops t)
  then show ?case by (auto split: if_splits)
qed auto

lemma row_sel: "node_snapshot_of p ts (n\<lparr>n_temperature := t\<rparr>) = (node_snapshot_of p ts n)\<lparr>ns_cputemp := t\<rparr>"
  by (simp add: node_snapshot_of_def case_prod_unfold Let_def)

text \<open>C38: a poll has put its nodes into the cache and builds the row of a node after any operations of others
  on the cache (temperatures, polls of other instances or of its own name, snapshots, new nodes): the row is the one
  of the gathered node except for the temperature, which is the last one written for that instance and
  node before the instance's nodes were replaced, and the gathered one (none) when there is no such. So the
  temperature of a row is a reading of the poller or missing, and no other column is ever affected.\<close>

theorem row_temperature:
  assumes "heap_ok h" and "heap_op_ok [] (HNodes i m) h" and "gm_get m nd = Some a"
    and "heap_run_ok (map snd m) ops (heap_apply (HNodes i m) h)"
  shows "row_from p ts (heap_run ops (heap_apply (HNodes i m) h)) a =
      (row_from p ts h a)\<lparr>ns_cputemp := temp_after i nd ops (n_temperature (hc_heap h ! a))\<rparr> \<and>
    temp_after i nd ops t \<in> insert t (Some ` {x. HTemperature i nd x \<in> set ops})"
proof -
  let ?h = "heap_apply (HNodes i m) h"
  have "linked i m ?h" using put_ok(1) [OF assms(1,2)] by (simp add: linked_def h_update_nodes_def)
  moreover have "hc_heap ?h ! a = (hc_heap h ! a)\<lparr>n_temperature := n_temperature (hc_heap h ! a)\<rparr>"
    by (simp add: h_update_nodes_def)
  ultimately have "hc_heap (heap_run ops ?h) ! a =
      (hc_heap h ! a)\<lparr>n_temperature := temp_after i nd ops (n_temperature (hc_heap h ! a))\<rparr>"
    using assms(3,4) by (intro temp_run)
  then show ?thesis using temp_after_written by (simp only: row_from_def row_sel simp_thms)
qed

theorem row_temperature_witness:
  "\<forall>p ts. let h = \<lparr>hc_heap = [bare_node], hc_nodes = []\<rparr>;
       ops = [HTemperature ''i'' ''a'' (Fin 50), HTemperature ''i'' ''b'' (Fin 70), HNodes ''i'' [], HTemperature ''i'' ''a'' (Fin 60)]
   in ns_cputemp (row_from p ts (heap_run ops (heap_apply (HNodes ''i'' [(''a'', 0)]) h)) 0) = Some (Fin 50)"
proof -
  let ?h = "\<lparr>hc_heap = [bare_node], hc_nodes = []\<rparr>"
  let ?ops = "[HTemperature ''i'' ''a'' (Fin 50), HTemperature ''i'' ''b'' (Fin 70), HNodes ''i'' [], HTemperature ''i'' ''a'' (Fin 60)]"
  have "heap_ok ?h" by (simp add: heap_ok_def wf_nested_def wf_gomap_def)
  moreover have "heap_op_ok [] (HNodes ''i'' [(''a'', 0)]) ?h" by (simp add: wf_gomap_def gm_del_def)
  moreover have "heap_run_ok (map snd [(''a'', 0)]) ?ops (heap_apply (HNodes ''i'' [(''a'', 0)]) ?h)"
    by (simp add: wf_gomap_def)
  ultimately show ?thesis
    using row_temperature [of ?h "''i''" "[(''a'', 0)]" "''a''" 0 ?ops] by (simp add: Let_def)
qed

end
