(* ===== verification/Concurrent.thy ===== *)
theory Concurrent
  imports Wiring SharedNodes
begin

text \<open>
  The running program: the goroutines that \<open>main\<close> starts, over the cache and the store they share. A poll first
  talks to the network, which depends on nothing shared, and then makes its calls to the cache and the
  store one by one; each call is atomic (the mutex of the cache, a statement of the database), and the calls of
  different goroutines interleave in any order. \<open>pve_plan\<close>, \<open>pbs_plan\<close>, \<open>temp_plan\<close>, \<open>alert_plan\<close> and
  \<open>prune_plan\<close> give the calls of one round; run without interruption they are the rounds of the other theories.
  A row of a node is taken from what the poll gathered, except that the temperature poller may write into the node
  through the pointer the cache shares before the row is built: \<open>as_made\<close> lets the row have any temperature, and
  \<open>SharedNodes\<close> says which one.
\<close>

section \<open>The calls on shared state\<close>

datatype store_op =
    InsNode bool node_snapshot
  | InsGuest bool guest_snapshot
  | UpDisk bool gotime disk
  | InsSmart bool int disk
  | InsBackup bool int backup
  | InsDatastore bool int datastore_status
  | InsAlert bool int string string string string string
  | DelOlder snap_table int

fun store_apply :: "store_op \<Rightarrow> store \<Rightarrow> store" where
  "store_apply (InsNode e r) s = snd (InsertNodeSnapshot e r s)"
| "store_apply (InsGuest e r) s = snd (InsertGuestSnapshot e r s)"
| "store_apply (UpDisk e clk d) s = snd (UpsertDisk e clk d s)"
| "store_apply (InsSmart e ts d) s = snd (InsertSMARTSnapshot e ts d s)"
| "store_apply (InsBackup e ts b) s = snd (InsertBackupSnapshot e ts b s)"
| "store_apply (InsDatastore e ts d) s = snd (InsertDatastoreSnapshot e ts d s)"
| "store_apply (InsAlert e ts ty i sub msg sev) s = snd (store_InsertAlert e ts ty i sub msg sev s)"
| "store_apply (DelOlder t c) s = delete_older t c s"

datatype shared_call = OnCache cache_op | OnStore store_op

fun perform :: "shared_call \<Rightarrow> cache \<times> store \<Rightarrow> cache \<times> store" where
  "perform (OnCache op) (c, s) = (cache_apply op c, s)"
| "perform (OnStore op) (c, s) = (c, store_apply op s)"

section \<open>The calls of one round\<close>

definition pve_rows :: "poll_env \<Rightarrow> pve \<Rightarrow> poll_acc \<Rightarrow> store_op list" where
  "pve_rows po p ac =
     (let ts = unix_of_time (po_now po)
      in map (\<lambda>(nodeName, n). InsNode (po_nodeerr po nodeName) (node_snapshot_of p ts n)) (ac_nodes ac) @
         map (\<lambda>(vmid, g). InsGuest (po_guesterr po vmid) (guest_snapshot_of p ts g)) (ac_guests ac) @
         concat (map (\<lambda>(i, d). [UpDisk (po_diskerr po i) (po_uclk po i) d, InsSmart (po_smarterr po i) ts d])
           (enumerate 0 (ac_disks ac))))"

definition pve_plan :: "poll_env \<Rightarrow> pve \<Rightarrow> pve \<times> shared_call list" where
  "pve_plan po p =
     (case discoverNodes (po_api po) p of
        Inl e \<Rightarrow> (p, [])
      | Inr p \<Rightarrow>
          (let p = resolve_cluster (po_api po) p; now = po_now po
           in case refused po p of
                Some nodeName \<Rightarrow> (p, [])
              | None \<Rightarrow>
                  (let ac = gather po p;
                       p' = (if disks_due now p then p\<lparr>pv_lastdisk := now\<rparr> else p)
                   in (p', [OnCache (PutNodes (pc_name (pv_config p)) (ac_nodes ac)),
                            OnCache (PutGuests (pv_clusterid p) (ac_guests ac))] @
                          (if disks_due now p then [OnCache (PutDisks (disk_map (ac_disks ac)))] else []) @
                          map OnStore (pve_rows po p ac) @ [OnCache (PutLastPoll (pve_name p') now)]))))"

definition pbs_plan :: "pbs_env \<Rightarrow> pbs \<Rightarrow> shared_call list" where
  "pbs_plan po b =
     (case poll_datastores (bo_api po) b of
        Inl e \<Rightarrow> []
      | Inr dss \<Rightarrow>
          (let name = bc_name (pb_config b); bs = poll_backups po b dss; ts = unix_of_time (bo_now po)
           in [OnCache (PutDatastores name dss), OnCache (PutBackups name bs)] @
              (case collectTasks (bo_api po) b (bo_taskclk po) of Inl e \<Rightarrow> [] | Inr tasks \<Rightarrow> [OnCache (PutTasks name tasks)]) @
              map (\<lambda>(k, ds). OnStore (InsDatastore (bo_dserr po k) ts ds)) dss @
              map (\<lambda>(k, x). OnStore (InsBackup (bo_backuperr po k) ts x)) bs @
              [OnCache (PutLastPoll (pbs_name b) (bo_now po))]))"

definition temp_plan :: "ssh_world \<Rightarrow> temp_collector \<Rightarrow> shared_call list" where
  "temp_plan w t =
     (case pollTemperature w t of
        Inl e \<Rightarrow> []
      | Inr temp \<Rightarrow> [OnCache (PutTemperature (tc_instance t) (tc_node t) temp)])"

text \<open>What an evaluation of the alerter adds to its effects: the rows of the alert log, in order.\<close>

definition log_call :: "bool \<Rightarrow> effect \<Rightarrow> shared_call list" where
  "log_call e ef = (case ef of
       InsertAlert ts ty i sub msg sev \<Rightarrow> [OnStore (InsAlert e ts ty i sub msg sev)]
     | SendTo p n \<Rightarrow> [])"

definition alert_plan :: "cache \<Rightarrow> gotime \<Rightarrow> (string \<Rightarrow> string \<Rightarrow> gotime) \<Rightarrow> (nat \<Rightarrow> bool) \<Rightarrow> alerter \<Rightarrow>
    alerter \<times> shared_call list" where
  "alert_plan c now clk err a =
     (let a' = evaluate c now clk a
      in (a', concat (map (\<lambda>(i, ef). log_call (err i) ef) (enumerate 0 (drop (length (al_effects a)) (al_effects a'))))))"

definition prune_plan :: "(f64 \<Rightarrow> int) \<Rightarrow> retention \<Rightarrow> gotime \<Rightarrow> (snap_table \<Rightarrow> bool) \<Rightarrow> shared_call list" where
  "prune_plan oor r now fails =
     map (\<lambda>(t, d). OnStore (DelOlder t (cutoff oor now d))) (filter (\<lambda>(t, d). \<not> fails t) (prune_tables r))"

section \<open>A round without interruption\<close>

lemma perform_store: "fold perform (map OnStore ops) (c, s) = (c, fold store_apply ops s)"
  by (induction ops arbitrary: s) auto

lemma fold_pairs: "fold (\<lambda>(k, v). f k v) m s = fold store_apply (map (\<lambda>(k, v). op k v) m) s"
  if "\<And>k v s. store_apply (op k v) s = f k v s"
  using that by (induction m arbitrary: s) auto

lemma fold_two: "fold store_apply (concat (map (\<lambda>(i, d). [f i d, g i d]) xs)) s =
    fold (\<lambda>(i, d) s. store_apply (g i d) (store_apply (f i d) s)) xs s"
  by (induction xs arbitrary: s) auto

lemma rows_store: "fold store_apply (pve_rows po p ac) s = poll_store po p ac s"
proof -
  let ?ts = "unix_of_time (po_now po)"
  have n: "fold (\<lambda>(nodeName, n) s. snd (InsertNodeSnapshot (po_nodeerr po nodeName) (node_snapshot_of p ?ts n) s)) m s =
      fold store_apply (map (\<lambda>(nodeName, n). InsNode (po_nodeerr po nodeName) (node_snapshot_of p ?ts n)) m) s" for m s
    by (induction m arbitrary: s) auto
  have g: "fold (\<lambda>(vmid, g) s. snd (InsertGuestSnapshot (po_guesterr po vmid) (guest_snapshot_of p ?ts g) s)) m s =
      fold store_apply (map (\<lambda>(vmid, g). InsGuest (po_guesterr po vmid) (guest_snapshot_of p ?ts g)) m) s" for m s
    by (induction m arbitrary: s) auto
  show ?thesis by (simp add: pve_rows_def poll_store_def Let_def fold_two n g)
qed

text \<open>The calls of a round, one after the other, are the round: a poll of either kind, a temperature
  poll, a pruning. So every statement about the rounds holds of the program when they do not overlap.\<close>

lemma plans_are_rounds:
  "(let (p', calls) = pve_plan po p in (p', fold perform calls (c, s)) = snd (pve_Collect po (p, c, s))) \<and>
   fold perform (pbs_plan bo b) (c, s) = snd (pbs_Collect bo b (c, s)) \<and>
   fold perform (temp_plan w t) (c, s) = (snd (temp_collect w t c), s) \<and>
   fold perform (prune_plan oor r now fails) (c, s) = (c, prune oor r now fails s)"
proof (intro conjI)
  show "let (p', calls) = pve_plan po p in (p', fold perform calls (c, s)) = snd (pve_Collect po (p, c, s))"
    by (auto simp: pve_plan_def pve_Collect_def Let_def perform_store rows_store poll_cache_def split: sum.split option.split)
  have d: "fold perform (map (\<lambda>(k, ds). OnStore (InsDatastore (f k) ts ds)) m) (c, s) =
      (c, fold (\<lambda>(k, ds) s. snd (InsertDatastoreSnapshot (f k) ts ds s)) m s)" for f ts m c s
    by (induction m arbitrary: s) auto
  have x: "fold perform (map (\<lambda>(k, x). OnStore (InsBackup (f k) ts x)) m) (c, s) =
      (c, fold (\<lambda>(k, b) s. snd (InsertBackupSnapshot (f k) ts b s)) m s)" for f ts m c s
    by (induction m arbitrary: s) auto
  show "fold perform (pbs_plan bo b) (c, s) = snd (pbs_Collect bo b (c, s))"
    by (auto simp: pbs_plan_def pbs_Collect_def pbs_cache_def pbs_store_def Let_def d x split: sum.split)
  show "fold perform (temp_plan w t) (c, s) = (snd (temp_collect w t c), s)"
    by (simp add: temp_plan_def temp_collect_def split: sum.split)
  have "fold perform (map (\<lambda>(t, d). OnStore (DelOlder t (cutoff oor now d))) (filter (\<lambda>(t, d). \<not> fails t) ts)) (c, s) =
      (c, fold (\<lambda>(t, d) s. if fails t then s else delete_older t (cutoff oor now d) s) ts s)" for ts s
    by (induction ts arbitrary: s) auto
  then show "fold perform (prune_plan oor r now fails) (c, s) = (c, prune oor r now fails s)"
    by (simp add: prune_plan_def prune_def)
qed

section \<open>The program as a step relation\<close>

datatype task = PveTask nat | PbsTask nat | TempTask nat | AlertTask | PruneTask

text \<open>\<open>sy_left\<close> holds the calls that a task has still to make in its current round.\<close>

record system =
  sy_cache :: cache
  sy_store :: store
  sy_alerter :: alerter
  sy_pve :: "pve list"
  sy_left :: "task \<Rightarrow> shared_call list"

definition started :: "program \<Rightarrow> system" where
  "started g = \<lparr>sy_cache = pg_cache g, sy_store = pg_store g, sy_alerter = pg_alerter g, sy_pve = pg_pve g,
     sy_left = \<lambda>_. []\<rparr>"

definition begin_round :: "task \<Rightarrow> shared_call list \<Rightarrow> system \<Rightarrow> system" where
  "begin_round t calls s = s\<lparr>sy_left := (sy_left s)(t := calls)\<rparr>"

definition make_call :: "task \<Rightarrow> shared_call \<Rightarrow> shared_call list \<Rightarrow> system \<Rightarrow> system" where
  "make_call t a rest s =
     (let (c, st) = perform a (sy_cache s, sy_store s)
      in s\<lparr>sy_cache := c, sy_store := st, sy_left := (sy_left s)(t := rest)\<rparr>)"

text \<open>What becomes of a planned call: a row of a node may have got a temperature.\<close>

inductive as_made :: "shared_call \<Rightarrow> shared_call \<Rightarrow> bool" where
  planned: "as_made a a"
| temperature: "as_made (OnStore (InsNode e r)) (OnStore (InsNode e (r\<lparr>ns_cputemp := Some x\<rparr>)))"

text \<open>A task begins a round when its last one is over, with whatever the outside gives it; a task that has calls
  left makes the next one.\<close>

inductive sys_step :: "program \<Rightarrow> system \<Rightarrow> system \<Rightarrow> bool" for g :: program where
  pve_round: "i < length (sy_pve s) \<Longrightarrow> sy_left s (PveTask i) = [] \<Longrightarrow> pve_plan po (sy_pve s ! i) = (p, calls) \<Longrightarrow>
    sys_step g s (begin_round (PveTask i) calls (s\<lparr>sy_pve := (sy_pve s)[i := p]\<rparr>))"
| pbs_round: "i < length (pg_pbs g) \<Longrightarrow> sy_left s (PbsTask i) = [] \<Longrightarrow>
    sys_step g s (begin_round (PbsTask i) (pbs_plan bo (pg_pbs g ! i)) s)"
| temp_round: "i < length (pg_temps g) \<Longrightarrow> sy_left s (TempTask i) = [] \<Longrightarrow>
    sys_step g s (begin_round (TempTask i) (temp_plan w (pg_temps g ! i)) s)"
| alert_round: "sy_left s AlertTask = [] \<Longrightarrow> alert_plan (sy_cache s) now clk err (sy_alerter s) = (a, calls) \<Longrightarrow>
    sys_step g s (begin_round AlertTask calls (s\<lparr>sy_alerter := a\<rparr>))"
| prune_round: "sy_left s PruneTask = [] \<Longrightarrow>
    sys_step g s (begin_round PruneTask (prune_plan oor (pg_retention g) now fails) s)"
| call: "sy_left s t = a # rest \<Longrightarrow> as_made a b \<Longrightarrow> sys_step g s (make_call t b rest s)"

definition sys_reach :: "program \<Rightarrow> system \<Rightarrow> bool" where
  "sys_reach g s \<longleftrightarrow> (sys_step g)\<^sup>*\<^sup>* (started g) s"

section \<open>What always holds\<close>

definition pve_names :: "program \<Rightarrow> string set" where
  "pve_names g = set (map (pc_name \<circ> pv_config) (pg_pve g))"

definition pbs_names :: "program \<Rightarrow> string set" where
  "pbs_names g = set (map (bc_name \<circ> pb_config) (pg_pbs g))"

definition poller_names :: "program \<Rightarrow> string set" where
  "poller_names g = (\<lambda>n. ''pve:'' @ n) ` pve_names g \<union> (\<lambda>n. ''pbs:'' @ n) ` pbs_names g"

text \<open>The keys of the cache are the configured names.\<close>

definition cache_named :: "program \<Rightarrow> cache \<Rightarrow> bool" where
  "cache_named g c \<longleftrightarrow> wf_cache c \<and> fst ` set (c_nodes c) \<subseteq> pve_names g \<and> fst ` set (c_guests c) \<subseteq> pve_names g \<and>
     fst ` set (c_datastores c) \<subseteq> pbs_names g \<and> fst ` set (c_backups c) \<subseteq> pbs_names g \<and>
     fst ` set (c_tasks c) \<subseteq> pbs_names g \<and> fst ` set (c_lastpoll c) \<subseteq> poller_names g"

text \<open>Every table has one row per key, and the alert log grows in the order of its numbers.\<close>

definition store_ok :: "store \<Rightarrow> bool" where
  "store_ok s \<longleftrightarrow> nodes.keyed (st_nodes s) \<and> guests.keyed (st_guests s) \<and> smart.keyed (st_smart s) \<and>
     backups.keyed (st_backups s) \<and> datastores.keyed (st_datastores s) \<and>
     wf_gomap (st_disks s) \<and> wf_gomap (st_pve s) \<and> wf_gomap (st_pbs s) \<and>
     sorted_wrt (<) (map ar_id (st_alerts s)) \<and> list_all (\<lambda>r. ar_id r < st_nextid s) (st_alerts s)"

text \<open>The calls that a task of the program may have left.\<close>

fun call_ok :: "program \<Rightarrow> shared_call \<Rightarrow> bool" where
  "call_ok g (OnCache (PutNodes i m)) \<longleftrightarrow> i \<in> pve_names g \<and> wf_gomap m"
| "call_ok g (OnCache (PutGuests i m)) \<longleftrightarrow> i \<in> pve_names g \<and> wf_gomap m"
| "call_ok g (OnCache (PutDisks m)) \<longleftrightarrow> wf_gomap m"
| "call_ok g (OnCache (PutDatastores i m)) \<longleftrightarrow> i \<in> pbs_names g \<and> wf_gomap m"
| "call_ok g (OnCache (PutBackups i m)) \<longleftrightarrow> i \<in> pbs_names g \<and> wf_gomap m"
| "call_ok g (OnCache (PutTasks i ts)) \<longleftrightarrow> i \<in> pbs_names g"
| "call_ok g (OnCache (PutTemperature i n t)) \<longleftrightarrow> True"
| "call_ok g (OnCache (PutLastPoll i t)) \<longleftrightarrow> i \<in> poller_names g"
| "call_ok g (OnStore op) \<longleftrightarrow> True"

lemma keys_gm_put: "fst ` set (gm_put k v m) = insert k (fst ` set m)"
  by (metis dom_fun_upd gm_get_dom gm_get_put option.distinct(1))

lemma call_ok_op: "call_ok g (OnCache op) \<Longrightarrow> op_ok op"
  by (cases op) auto

lemma cache_named_apply: "cache_named g c \<Longrightarrow> call_ok g (OnCache op) \<Longrightarrow> cache_named g (cache_apply op c)"
proof -
  assume c: "cache_named g c" and op: "call_ok g (OnCache op)"
  have "wf_cache (cache_apply op c)" using c call_ok_op [OF op] by (intro wf_cache_apply) (simp_all add: cache_named_def)
  moreover have "i \<in> fst ` set (c_nodes c)" if "gm_get (c_nodes c) i = Some m" for i m
    using that gm_get_dom [of "c_nodes c"] by auto
  ultimately show ?thesis using c op
    by (cases op) (auto simp: cache_named_def cache_ops UpdateNodeTemperature_def keys_gm_put image_iff
        split: option.splits)
qed

lemma store_ok_apply: "store_ok s \<Longrightarrow> store_ok (store_apply op s)"
proof (cases op)
  case (DelOlder t c)
  then show "store_ok s \<Longrightarrow> ?thesis"
    by (cases t) (auto simp: store_ok_def list_all_iff sorted_wrt_map nodes.keyed_delete guests.keyed_delete
        smart.keyed_delete backups.keyed_delete datastores.keyed_delete sorted_wrt_filter)
qed (auto simp: store_ok_def InsertNodeSnapshot_def InsertGuestSnapshot_def UpsertDisk_def InsertSMARTSnapshot_def
    InsertBackupSnapshot_def InsertDatastoreSnapshot_def store_InsertAlert_def Let_def nodes.keyed_put guests.keyed_put
    smart.keyed_put backups.keyed_put datastores.keyed_put wf_gm_put sorted_wrt_append list_all_iff)

text \<open>A collector of a running program.\<close>

definition lone :: "program \<Rightarrow> pve \<Rightarrow> bool" where
  "lone g p \<longleftrightarrow> \<not> pc_iscluster (pv_config p) \<and> pc_name (pv_config p) \<in> pve_names g \<and>
     pv_clusterid p \<in> {[], pc_name (pv_config p)}"

lemma pve_plan_ok: "lone g p \<Longrightarrow> pve_plan po p = (p', calls) \<Longrightarrow> lone g p' \<and> list_all (call_ok g) calls"
proof (cases "discoverNodes (po_api po) p")
  case (Inr p1)
  assume l: "lone g p" and e: "pve_plan po p = (p', calls)"
  define q where "q = resolve_cluster (po_api po) p1"
  have q: "pv_config q = pv_config p" "pv_clusterid q = pc_name (pv_config p)"
    using resolve_cluster_keeps [of "po_api po" p1] discover_keeps [OF Inr] l
    by (auto simp: q_def lone_def resolve_cluster_def)
  then have lq: "lone g q" "pve_name q \<in> poller_names g"
    using l by (auto simp: lone_def poller_names_def pve_name_def)
  define r where "r = (if disks_due (po_now po) q then q\<lparr>pv_lastdisk := po_now po\<rparr> else q)"
  have r: "lone g r" "pve_name r = pve_name q" using lq(1) by (simp_all add: r_def lone_def pve_name_def)
  have n: "pc_name (pv_config q) \<in> pve_names g" "pv_clusterid q \<in> pve_names g" using lq(1) q by (simp_all add: lone_def)
  show ?thesis
  proof (cases "refused po q")
    case None
    then have "pve_plan po p = (r, [OnCache (PutNodes (pc_name (pv_config q)) (ac_nodes (gather po q))),
          OnCache (PutGuests (pv_clusterid q) (ac_guests (gather po q)))] @
        (if disks_due (po_now po) q then [OnCache (PutDisks (disk_map (ac_disks (gather po q))))] else []) @
        map OnStore (pve_rows po q (gather po q)) @ [OnCache (PutLastPoll (pve_name r) (po_now po))])"
      by (simp add: pve_plan_def Inr q_def [symmetric] r_def [symmetric] Let_def)
    moreover have "list_all (call_ok g) (map OnStore ops)" for ops by (simp add: list_all_iff)
    ultimately show ?thesis using e r lq(2) n by (auto simp: gather_wf wf_disk_map)
  next
    case (Some nd)
    then show ?thesis using e lq(1) by (simp add: pve_plan_def Inr q_def [symmetric] Let_def)
  qed
qed (auto simp: pve_plan_def)

lemma poll_backups_wf: "wf_gomap (poll_backups po b dss)"
proof -
  have k: "wf_gomap m \<Longrightarrow> wf_gomap (fold keep_latest xs m)" for xs m
    by (rule fold_invariant) (auto simp: keep_latest_def wf_gm_put split: option.split)
  show ?thesis unfolding poll_backups_def
    by (rule fold_invariant [where P = wf_gomap]) (auto simp: k split: sum.split)
qed

lemma other_plans_ok:
  "b \<in> set (pg_pbs g) \<Longrightarrow> list_all (call_ok g) (pbs_plan bo b)"
  "list_all (call_ok g) (temp_plan w t)"
  "alert_plan c now clk err a = (a', calls) \<Longrightarrow> list_all (call_ok g) calls"
  "list_all (call_ok g) (prune_plan oor r now fails)"
proof -
  show "b \<in> set (pg_pbs g) \<Longrightarrow> list_all (call_ok g) (pbs_plan bo b)"
    by (auto simp: pbs_plan_def Let_def list_all_iff pbs_names_def poller_names_def pbs_name_def poll_wf poll_backups_wf
        split: sum.split)
  show "list_all (call_ok g) (temp_plan w t)" by (simp add: temp_plan_def split: sum.split)
  show "alert_plan c now clk err a = (a', calls) \<Longrightarrow> list_all (call_ok g) calls"
    by (auto simp: alert_plan_def log_call_def Let_def list_all_iff split: effect.splits)
  show "list_all (call_ok g) (prune_plan oor r now fails)"
    by (auto simp: prune_plan_def list_all_iff)
qed

text \<open>The invariant, with the alerter seen as a run over the caches it has read.\<close>

definition sys_inv :: "program \<Rightarrow> system \<Rightarrow> bool" where
  "sys_inv g s \<longleftrightarrow> cache_named g (sy_cache s) \<and> store_ok (sy_store s) \<and> list_all (lone g) (sy_pve s) \<and>
     (\<forall>t. list_all (call_ok g) (sy_left s t)) \<and>
     (\<exists>ts. sy_alerter s = alerter_run ts (pg_alerter g) \<and> list_all (cache_named g \<circ> tk_cache) ts)"

lemma begin_round_inv: "sys_inv g s \<Longrightarrow> list_all (call_ok g) calls \<Longrightarrow> sys_inv g (begin_round t calls s)"
  by (simp add: sys_inv_def begin_round_def)

lemma as_made_ok: "as_made a b \<Longrightarrow> call_ok g a \<Longrightarrow> call_ok g b"
  by (induction rule: as_made.induct) simp_all

lemma make_call_inv: "sys_inv g s \<Longrightarrow> sy_left s t = a # rest \<Longrightarrow> as_made a b \<Longrightarrow> sys_inv g (make_call t b rest s)"
proof -
  assume i: "sys_inv g s" and t: "sy_left s t = a # rest" and b: "as_made a b"
  then have "list_all (call_ok g) (a # rest)" by (metis sys_inv_def)
  then have "call_ok g b" "list_all (call_ok g) rest" using as_made_ok [OF b] by simp_all
  then show ?thesis using i
    by (cases b) (auto simp: sys_inv_def make_call_def cache_named_apply store_ok_apply)
qed

lemma step_inv: "sys_step g s s' \<Longrightarrow> sys_inv g s \<Longrightarrow> sys_inv g s'"
proof (induction rule: sys_step.induct)
  case (pve_round i s po p calls)
  then have "lone g (sy_pve s ! i)" by (simp add: sys_inv_def list_all_length)
  from pve_plan_ok [OF this pve_round.hyps(3)] pve_round.prems
  have "sys_inv g (s\<lparr>sy_pve := (sy_pve s)[i := p]\<rparr>)" "list_all (call_ok g) calls"
    by (auto simp: sys_inv_def list_all_iff dest!: set_update_subset_insert [THEN subsetD])
  then show ?case by (rule begin_round_inv)
next
  case (alert_round s now clk err a calls)
  obtain ts where ts: "sy_alerter s = alerter_run ts (pg_alerter g)" "list_all (cache_named g \<circ> tk_cache) ts"
    using alert_round.prems by (auto simp: sys_inv_def)
  let ?t = "\<lparr>tk_cache = sy_cache s, tk_now = now, tk_clk = clk\<rparr>"
  have "a = alerter_run (ts @ [?t]) (pg_alerter g)"
    using alert_round.hyps ts by (simp add: alert_plan_def Let_def alerter_run_def)
  moreover have "list_all (cache_named g \<circ> tk_cache) (ts @ [?t])"
    using ts alert_round.prems by (simp add: sys_inv_def)
  ultimately have "sys_inv g (s\<lparr>sy_alerter := a\<rparr>)" using alert_round.prems by (auto simp: sys_inv_def)
  then show ?case using other_plans_ok(3) [OF alert_round.hyps(2)] by (rule begin_round_inv)
next
  case (pbs_round i s bo)
  from pbs_round.prems other_plans_ok(1) [OF nth_mem [OF pbs_round.hyps(1)]] show ?case by (rule begin_round_inv)
qed (auto intro: begin_round_inv make_call_inv other_plans_ok)

lemma register_ok: "store_ok s \<Longrightarrow> store_ok (register_pve f ps s)" "store_ok s \<Longrightarrow> store_ok (register_pbs f bs s)"
  unfolding register_pve_def register_pbs_def
  by (rule fold_invariant; auto simp: UpsertPVEInstance_def UpsertPBSInstance_def store_ok_def wf_gm_put)+

lemma started_inv:
  assumes "main_run m fl = Running g out" and "store_ok (me_db m)"
  shows "sys_inv g (started g)"
proof -
  obtain cfg st where g: "g = start_program m cfg st" and st: "store_New (me_faults m) (me_db m) = Inr st"
    using running [OF assms(1)] by blast
  then have "store_ok st" using assms(2) by (auto simp: store_New_def split: if_splits)
  then have "store_ok (pg_store g)" by (simp add: g start_sel register_ok)
  moreover have "list_all (lone g) (pg_pve g)"
    using started_pve [OF assms(1)] by (auto simp: list_all_iff lone_def pve_names_def)
  moreover have "cache_named g (pg_cache g)" by (simp add: g start_sel cache_named_def) (simp add: cache_new_def)
  ultimately show ?thesis
    by (auto simp: sys_inv_def started_def alerter_run_def intro: exI [of _ "[]"])
qed

lemma reachable_inv:
  assumes "main_run m fl = Running g out" and "store_ok (me_db m)" and "sys_reach g s"
  shows "sys_inv g s"
proof -
  have "(sys_step g)\<^sup>*\<^sup>* (started g) s" using assms(3) by (simp add: sys_reach_def)
  then show ?thesis by (induction rule: rtranclp_induct) (auto intro: started_inv [OF assms(1,2)] step_inv)
qed

text \<open>C5: at every moment of a running program, however the calls of its goroutines interleave and whatever the
  servers, the sensors and the database answer: the maps of the cache are well-formed and their keys are names
  of configured instances (so a snapshot is the contents), every table (the disks and the instances too) has one row per key, the
  alert log is in the order of its numbers, and the alerter is in a state that evaluations of such caches lead to (so
  what holds of every run of the alerter holds of the program).\<close>

theorem system_invariant:
  assumes "main_run m fl = Running g out" and "store_ok (me_db m)" and "sys_reach g s"
  shows "cache_named g (sy_cache s) \<and> Snapshot (sy_cache s) = sy_cache s \<and> store_ok (sy_store s) \<and>
    (\<exists>ts. sy_alerter s = alerter_run ts (pg_alerter g) \<and> list_all (cache_named g \<circ> tk_cache) ts)"
  using reachable_inv [OF assms] by (auto simp: sys_inv_def cache_named_def Snapshot_eq)

section \<open>Such a run\<close>

text \<open>A server with one node, whose one disk has failed.\<close>

definition sample_reply :: "string \<Rightarrow> json option" where
  "sample_reply url =
     (if url = ''https://pve:8006/api2/json/nodes'' then
        Some (JObj [(''data'', JArr [JObj [(''node'', JStr ''n''), (''status'', JStr ''online'')]])])
      else if url = ''https://pve:8006/api2/json/nodes/n/status'' then Some (JObj [(''data'', JObj [])])
      else if url = ''https://pve:8006/api2/json/nodes/n/disks/list?skipsmart=1'' then
        Some (JObj [(''data'', JArr [JObj [(''devpath'', JStr ''/dev/nvme0n1''), (''wwn'', JStr ''w1'')]])])
      else if url = ''https://pve:8006/api2/json/nodes/n/disks/smart?disk=%2Fdev%2Fnvme0n1'' then
        Some (JObj [(''data'', JObj [(''health'', JStr ''FAILED'')])])
      else None)"

definition sample_poll :: poll_env where
  "sample_poll = \<lparr>po_api = \<lparr>ae_ok = \<lambda>_. True, ae_get = \<lambda>r. Answer 200 (sample_reply (gr_url r)),
       ae_oor = \<lambda>_. 0, ae_fmtv = \<lambda>_. []\<rparr>,
     po_now = 0, po_dclk = \<lambda>_. 0, po_order = [], po_refuse = None, po_nodeerr = \<lambda>_. False, po_guesterr = \<lambda>_. False,
     po_diskerr = \<lambda>_. False, po_smarterr = \<lambda>_. False, po_uclk = \<lambda>_. 0\<rparr>"

definition sample_pve :: pve where
  "sample_pve = NewPVECollector \<lparr>pc_name = ''default'', pc_host = ''https://pve:8006'', pc_tokenid = ''t'',
      pc_secret = ''s'', pc_iscluster = False, pc_interval = 15 * second, pc_diskinterval = 1 * hour\<rparr>"

text \<open>The calls that a task has left can be made one after the other.\<close>

lemma calls_made:
  assumes "sy_left s t = calls"
  shows "\<exists>s'. (sys_step g)\<^sup>*\<^sup>* s s' \<and> (sy_cache s', sy_store s') = fold perform calls (sy_cache s, sy_store s) \<and>
    sy_alerter s' = sy_alerter s \<and> sy_left s' = (sy_left s)(t := [])"
  using assms
proof (induction calls arbitrary: s)
  case Nil
  then show ?case by (intro exI [of _ s]) auto
next
  case (Cons a calls)
  let ?s = "make_call t a calls s"
  have "sys_step g s ?s" by (rule sys_step.call [OF Cons.prems as_made.planned])
  moreover have m: "sy_left ?s t = calls" "(sy_cache ?s, sy_store ?s) = perform a (sy_cache s, sy_store s)"
    "sy_alerter ?s = sy_alerter s" "(sy_left ?s)(t := []) = (sy_left s)(t := [])"
    by (simp_all add: make_call_def case_prod_unfold Let_def)
  moreover from Cons.IH [OF m(1)] obtain s' where "(sys_step g)\<^sup>*\<^sup>* ?s s'"
    "(sy_cache s', sy_store s') = fold perform calls (sy_cache ?s, sy_store ?s)" "sy_alerter s' = sy_alerter ?s"
    "sy_left s' = (sy_left ?s)(t := [])" by blast
  ultimately show ?case by (intro exI [of _ s']) (auto intro: converse_rtranclp_into_rtranclp)
qed

lemma pve_round_made:
  assumes "i < length (sy_pve s)" and "sy_left s (PveTask i) = []" and "pve_plan po (sy_pve s ! i) = (p, calls)"
  shows "\<exists>s'. (sys_step g)\<^sup>*\<^sup>* s s' \<and> (sy_cache s', sy_store s') = fold perform calls (sy_cache s, sy_store s) \<and>
    sy_alerter s' = sy_alerter s \<and> sy_left s' = sy_left s"
proof -
  let ?s = "begin_round (PveTask i) calls (s\<lparr>sy_pve := (sy_pve s)[i := p]\<rparr>)"
  have l: "sy_left ?s (PveTask i) = calls" by (simp add: begin_round_def)
  have "sys_step g s ?s" by (rule sys_step.pve_round [OF assms])
  with calls_made [OF l, of g] obtain s' where "(sys_step g)\<^sup>*\<^sup>* s s'"
    "(sy_cache s', sy_store s') = fold perform calls (sy_cache ?s, sy_store ?s)" "sy_alerter s' = sy_alerter ?s"
    "sy_left s' = (sy_left ?s)(PveTask i := [])" by (meson converse_rtranclp_into_rtranclp)
  moreover have "(sy_left s)(PveTask i := []) = sy_left s" using assms(2) by (simp add: fun_upd_idem)
  ultimately show ?thesis by (intro exI [of _ s']) (simp add: begin_round_def)
qed

lemma sample_round:
  "case fold perform (snd (pve_plan sample_poll sample_pve))
      (cache_new, snd (UpsertPVEInstance False ''default'' ''https://pve:8006'' False [] empty_store)) of (c, s) \<Rightarrow>
     (case (c_disks c, st_disks s) of
        ([(w, d)], [(w', r)]) \<Rightarrow> w = ''w1'' \<and> w' = ''w1'' \<and> d_health d = ''FAILED'' \<and> d_devpath d = ''/dev/nvme0n1'' \<and>
          d_instance d = ''default'' \<and> dr_devpath r = ''/dev/nvme0n1''
      | _ \<Rightarrow> False) \<and> length (st_nodes s) = 1 \<and> length (st_smart s) = 1 \<and> length (st_pve s) = 1"
  by code_simp

lemma sample_system:
  obtains g out s d where "main_run sample_main sample_flags = Running g out" and "sys_reach g s"
    and "c_disks (sy_cache s) = [(''w1'', d)]" and "d_health d = ''FAILED''" and "d_devpath d = ''/dev/nvme0n1''"
    and "d_instance d = ''default''" and "sy_alerter s = pg_alerter g"
    and "map fst (st_disks (sy_store s)) = [''w1'']" and "length (st_nodes (sy_store s)) = 1"
    and "length (st_smart (sy_store s)) = 1" and "length (st_pve (sy_store s)) = 1"
proof -
  obtain g out where r: "main_run sample_main sample_flags = Running g out" and c: "pg_cache g = cache_new"
    and p: "pg_pve g = [sample_pve]"
    and st: "pg_store g = snd (UpsertPVEInstance False ''default'' ''https://pve:8006'' False [] empty_store)"
    by (rule sample_runs) (simp add: sample_pve_def)
  obtain p' calls where plan: "pve_plan sample_poll sample_pve = (p', calls)" by (cases "pve_plan sample_poll sample_pve")
  obtain s where s: "(sys_step g)\<^sup>*\<^sup>* (started g) s" "(sy_cache s, sy_store s) = fold perform calls (cache_new, pg_store g)"
    "sy_alerter s = pg_alerter g"
    using pve_round_made [of 0 "started g" sample_poll p' calls g] plan by (auto simp: started_def p c)
  have "case (sy_cache s, sy_store s) of (c, s) \<Rightarrow>
     (case (c_disks c, st_disks s) of
        ([(w, d)], [(w', r)]) \<Rightarrow> w = ''w1'' \<and> w' = ''w1'' \<and> d_health d = ''FAILED'' \<and> d_devpath d = ''/dev/nvme0n1'' \<and>
          d_instance d = ''default'' \<and> dr_devpath r = ''/dev/nvme0n1''
      | _ \<Rightarrow> False) \<and> length (st_nodes s) = 1 \<and> length (st_smart s) = 1 \<and> length (st_pve s) = 1"
    using sample_round unfolding s(2) st plan snd_conv .
  then obtain d where "c_disks (sy_cache s) = [(''w1'', d)]" "d_health d = ''FAILED''" "d_devpath d = ''/dev/nvme0n1''"
    "d_instance d = ''default''" "map fst (st_disks (sy_store s)) = [''w1'']" "length (st_nodes (sy_store s)) = 1"
    "length (st_smart (sy_store s)) = 1" "length (st_pve (sy_store s)) = 1"
    by (cases "c_disks (sy_cache s)"; cases "tl (c_disks (sy_cache s))"; cases "st_disks (sy_store s)"; cases "tl (st_disks (sy_store s))")
      (auto split: prod.splits)
  moreover have "sys_reach g s" using s(1) by (simp add: sys_reach_def)
  ultimately show ?thesis using r s(3) by (intro that)
qed

lemma sample_db_ok: "store_ok (me_db sample_main)"
  by (simp add: sample_main_def store_ok_def empty_store_def)

text \<open>After the first poll: a node, a disk, their rows and that of the instance.\<close>

theorem system_invariant_witness:
  "\<exists>g out s d. main_run sample_main sample_flags = Running g out \<and> sys_reach g s \<and> c_disks (sy_cache s) = [(''w1'', d)] \<and>
    map fst (st_disks (sy_store s)) = [''w1''] \<and> length (st_nodes (sy_store s)) = 1 \<and> length (st_smart (sy_store s)) = 1 \<and>
    length (st_pve (sy_store s)) = 1 \<and> cache_named g (sy_cache s) \<and> Snapshot (sy_cache s) = sy_cache s \<and> store_ok (sy_store s)"
proof -
  obtain g out s d where s: "main_run sample_main sample_flags = Running g out" "sys_reach g s"
    "c_disks (sy_cache s) = [(''w1'', d)]" "map fst (st_disks (sy_store s)) = [''w1'']" "length (st_nodes (sy_store s)) = 1"
    "length (st_smart (sy_store s)) = 1" "length (st_pve (sy_store s)) = 1" by (rule sample_system)
  from system_invariant [OF s(1) sample_db_ok s(2)] s show ?thesis
    by (intro exI [of _ g] exI [of _ out] exI [of _ s] exI [of _ d]) simp
qed

end
