(* ===== verification/EndToEnd.thy ===== *)
theory EndToEnd
  imports Concurrent
begin

text \<open>
  From a poll to an alert: the collectors, the cache, the alerter and the log together, over the step relation of
  \<open>Concurrent\<close>. A failed disk that a poll has put into the cache leads to a row of the alert log at the
  next evaluation; and since the cache only ever merges disks (\<open>UpdateDisks\<close>), this stays so when no poll finds the
  disk any more.
\<close>

section \<open>What an evaluation adds\<close>

definition log_effect :: "gotime \<Rightarrow> rule \<Rightarrow> effect" where
  "log_effect now r = InsertAlert (unix_of_time now) (nt_type (ru_notif r)) (nt_instance (ru_notif r))
     (nt_subject (ru_notif r)) (nt_message (ru_notif r)) (nt_severity (ru_notif r))"

lemma fired_effects:
  "\<exists>fs. set fs \<subseteq> set rs \<and> al_fires (fold (apply_rule now) rs a) = al_fires a @ map (\<lambda>r. (ru_key r, now)) fs \<and>
    (\<exists>new. al_effects (fold (apply_rule now) rs a) = al_effects a @ new \<and> log_effect now ` set fs \<subseteq> set new)"
proof (induction rs arbitrary: a)
  case (Cons r rs)
  from Cons.IH [of "apply_rule now r a"] obtain fs new where
    f: "set fs \<subseteq> set rs" "al_fires (fold (apply_rule now) rs (apply_rule now r a)) =
        al_fires (apply_rule now r a) @ map (\<lambda>r. (ru_key r, now)) fs"
      "al_effects (fold (apply_rule now) rs (apply_rule now r a)) = al_effects (apply_rule now r a) @ new"
      "log_effect now ` set fs \<subseteq> set new" by blast
  show ?case
  proof (cases "ready now r a \<and> \<not> cooling now r a")
    case True
    then have "al_fires (apply_rule now r a) = al_fires a @ [(ru_key r, now)]"
      "al_effects (apply_rule now r a) = al_effects a @ log_effect now r # map (\<lambda>p. SendTo p (ru_notif r)) (al_providers a)"
      by (simp_all add: apply_rule_eq log_effect_def)
    with f show ?thesis by (intro exI [of _ "r # fs"]) auto
  next
    case False
    then have "al_fires (apply_rule now r a) = al_fires a" "al_effects (apply_rule now r a) = al_effects a"
      by (simp_all add: apply_rule_eq)
    with f show ?thesis by (intro exI [of _ fs]) auto
  qed
qed simp

text \<open>The rows of the alert log that an evaluation plans are the alerts it raises.\<close>

lemma planned_alerts:
  assumes "alert_plan c now clk err a = (a', calls)"
  shows "\<exists>fs. set fs \<subseteq> set (rules (al_config a) (Snapshot c) now clk) \<and>
    al_fires a' = al_fires a @ map (\<lambda>r. (ru_key r, now)) fs \<and>
    (\<forall>r \<in> set fs. \<exists>e. OnStore (InsAlert e (unix_of_time now) (nt_type (ru_notif r)) (nt_instance (ru_notif r))
      (nt_subject (ru_notif r)) (nt_message (ru_notif r)) (nt_severity (ru_notif r))) \<in> set calls)"
proof -
  have a': "a' = evaluate c now clk a" and
    calls: "calls = concat (map (\<lambda>(i, ef). log_call (err i) ef) (enumerate 0 (drop (length (al_effects a)) (al_effects a'))))"
    using assms by (auto simp: alert_plan_def Let_def)
  have cl: "al_fires (cleanup now a) = al_fires a" "al_effects (cleanup now a) = al_effects a"
    by (simp_all add: cleanup_def Let_def)
  from fired_effects [of "rules (al_config a) (Snapshot c) now clk" now "cleanup now a"] obtain fs new where
    f: "set fs \<subseteq> set (rules (al_config a) (Snapshot c) now clk)"
      "al_fires a' = al_fires a @ map (\<lambda>r. (ru_key r, now)) fs" "al_effects a' = al_effects a @ new"
      "log_effect now ` set fs \<subseteq> set new"
    unfolding a' evaluate_rules cl by blast
  have "\<exists>e. OnStore (InsAlert e (unix_of_time now) (nt_type (ru_notif r)) (nt_instance (ru_notif r))
      (nt_subject (ru_notif r)) (nt_message (ru_notif r)) (nt_severity (ru_notif r))) \<in> set calls" if "r \<in> set fs" for r
  proof -
    have "log_effect now r \<in> set new" using f(4) that by blast
    then obtain i where i: "i < length new" "new ! i = log_effect now r" by (auto simp: in_set_conv_nth)
    then have "(i, log_effect now r) \<in> set (enumerate 0 new)" by (auto simp: in_set_enumerate_eq)
    then have "set (log_call (err i) (log_effect now r)) \<subseteq> set calls"
      unfolding calls f(3) by (auto intro!: bexI)
    then show ?thesis by (auto simp: log_call_def log_effect_def)
  qed
  with f show ?thesis by blast
qed

text \<open>The rule with the key of a disk is the rule of that disk.\<close>

lemma disk_rule_key:
  assumes "r \<in> set (rules cfg snap now clk)" and "ru_key r = ''disk_smart:'' @ w" and "wf_gomap (c_disks snap)"
    and "gm_get (c_disks snap) w = Some d" and "ac_disksmart cfg = Some t"
  shows "nt_type (ru_notif r) = ''disk_smart_failed'' \<and> nt_instance (ru_notif r) = d_instance d \<and>
    nt_subject (ru_notif r) = d_devpath d \<and> nt_severity (ru_notif r) = sa_severity t"
proof -
  have "r \<in> set (concat (map (disk_rules cfg now) (c_disks snap)))"
    using assms(1,2) unfolding rules_def
    by (auto simp: in_nested_rules cpu_rules_def mem_rules_def guest_rules_def backup_rules_def datastore_rules_def
        Let_def split: option.splits if_splits)
  then obtain w' d' where wd: "(w', d') \<in> set (c_disks snap)" and r: "r \<in> set (disk_rules cfg now (w', d'))" by auto
  from r assms(2,5) have "w' = w" by (auto simp: disk_rules_def)
  with wd assms(3,4) have "d' = d" using gm_get_in by fastforce
  with r assms(2,5) show ?thesis by (auto simp: disk_rules_def)
qed

section \<open>A disk stays in the cache\<close>

text \<open>Some poll in progress has found the disk.\<close>

definition found :: "string \<Rightarrow> system \<Rightarrow> bool" where
  "found w s \<longleftrightarrow> (\<exists>t m. OnCache (PutDisks m) \<in> set (sy_left s t) \<and> gm_get m w \<noteq> None)"

lemma copy_absent: "gm_get src k = None \<Longrightarrow> gm_get (gm_copy dst src) k = gm_get dst k"
proof (induction src arbitrary: dst)
  case (Cons x src)
  obtain a b where x: "x = (a, b)" by (cases x)
  with Cons.prems have "a \<noteq> k" "gm_get src k = None" by (auto split: if_splits)
  then show ?case using Cons.IH [of "gm_put a b dst"] by (simp add: gm_copy_def x)
qed (simp add: gm_copy_def)

lemma disk_kept: "sys_step g s s' \<Longrightarrow> \<not> found w s \<Longrightarrow> gm_get (c_disks (sy_cache s')) w = gm_get (c_disks (sy_cache s)) w"
proof (induction rule: sys_step.induct)
  case (call s t a rest b)
  show ?case
  proof (cases b)
    case (OnCache op)
    with call.hyps(2) have "OnCache op = a" by (cases rule: as_made.cases) simp_all
    with call have "op = PutDisks m \<Longrightarrow> gm_get m w = None" for m
      unfolding found_def by (metis list.set_intros(1))
    then show ?thesis
      by (cases op) (simp_all add: make_call_def OnCache UpdateNodes_def UpdateGuests_def UpdateDisks_def copy_absent
        UpdateDatastores_def UpdateBackups_def UpdateTasks_def UpdateNodeTemperature_def SetLastPoll_def split: option.split)
  qed (simp add: make_call_def)
qed (simp_all add: begin_round_def)

lemma disk_stays: "(\<lambda>s s'. sys_step g s s' \<and> \<not> found w s)\<^sup>*\<^sup>* s s' \<Longrightarrow>
    gm_get (c_disks (sy_cache s')) w = gm_get (c_disks (sy_cache s)) w \<and> (sys_step g)\<^sup>*\<^sup>* s s'"
  by (induction rule: rtranclp_induct) (auto simp: disk_kept intro: rtranclp.rtrancl_into_rtrancl)

section \<open>A failed disk is reported\<close>

lemma running_disk_rule:
  assumes "main_run m fl = Running g out"
  shows "ac_disksmart (al_config (pg_alerter g)) = Some \<lparr>sa_severity = ''critical'', sa_cooldown = 6 * hour\<rparr>"
    and "\<exists>ps. pg_alerter g = NewAlerter ps (al_config (pg_alerter g))"
proof -
  obtain cfg st where g: "g = start_program m cfg st" using running [OF assms] by blast
  show "ac_disksmart (al_config (pg_alerter g)) = Some \<lparr>sa_severity = ''critical'', sa_cooldown = 6 * hour\<rparr>"
    by (simp add: g start_sel wired_sel DefaultAlertConfig_def)
  show "\<exists>ps. pg_alerter g = NewAlerter ps (al_config (pg_alerter g))" by (auto simp: g start_sel)
qed

lemma disk_rule_in:
  assumes "gm_get (c_disks snap) w = Some d" and "ac_disksmart cfg = Some t"
    and "d_health d = ''FAILED'' \<or> d_status d AND StatusFailedSmart \<noteq> 0"
  shows "\<exists>r \<in> set (rules cfg snap now clk). ru_key r = ''disk_smart:'' @ w \<and> ru_holds r"
proof -
  have "(w, d) \<in> set (c_disks snap)" using assms(1) by (rule map_of_SomeD)
  moreover have "\<exists>r \<in> set (disk_rules cfg now (w, d)). ru_key r = ''disk_smart:'' @ w \<and> ru_holds r"
    using assms(2,3) by (auto simp: disk_rules_def)
  ultimately show ?thesis by (auto simp: rules_def)
qed

text \<open>C6: a disk that has failed is reported, whatever the other goroutines do: once it is in the cache of a running
  program, every evaluation of the alerter adds a critical row for it to the alert log unless one was raised
  less than six hours ago. This holds in particular when no poll finds the disk any more: a disk
  that was taken out goes on being reported until the program is restarted.\<close>

theorem failed_disk_alert:
  assumes "main_run m fl = Running g out" and "store_ok (me_db m)" and "sys_reach g s"
    and "gm_get (c_disks (sy_cache s)) w = Some d" and "d_health d = ''FAILED'' \<or> d_status d AND StatusFailedSmart \<noteq> 0"
    and "(\<lambda>s s'. sys_step g s s' \<and> \<not> found w s)\<^sup>*\<^sup>* s s'"
    and "alert_plan (sy_cache s') now clk err (sy_alerter s') = (a, calls)"
  shows "(\<exists>e msg. OnStore (InsAlert e (unix_of_time now) ''disk_smart_failed'' (d_instance d) (d_devpath d) msg ''critical'') \<in> set calls) \<or>
    (\<exists>t. (''disk_smart:'' @ w, t) \<in> set (al_fires (sy_alerter s')) \<and> time_sub now t < 6 * hour)"
proof -
  let ?k = "''disk_smart:'' @ w" and ?cfg = "al_config (pg_alerter g)"
  have d: "gm_get (c_disks (sy_cache s')) w = Some d" and "sys_reach g s'"
    using disk_stays [OF assms(6)] assms(3,4) by (auto simp: sys_reach_def)
  from reachable_inv [OF assms(1,2) this(2)] obtain ts where c: "wf_cache (sy_cache s')"
    and ts: "sy_alerter s' = alerter_run ts (pg_alerter g)" by (auto simp: sys_inv_def cache_named_def)
  then have snap: "Snapshot (sy_cache s') = sy_cache s'" and wf: "wf_gomap (c_disks (sy_cache s'))"
    by (simp_all add: Snapshot_eq) (simp add: wf_cache_def)
  note cfg = running_disk_rule [OF assms(1)]
  obtain ps where ps: "pg_alerter g = NewAlerter ps ?cfg" using cfg(2) by blast
  let ?t = "\<lparr>tk_cache = sy_cache s', tk_now = now, tk_clk = clk\<rparr>"
  obtain r where r: "r \<in> set (tick_rules ?cfg ?t)" "ru_key r = ?k" "ru_holds r"
    using disk_rule_in [OF d cfg(1) assms(5)] by (auto simp: tick_rules_def snap)
  have "key_hold ?cfg ?k = None" "key_cooldown ?cfg ?k = 6 * hour"
    using cfg(1) by (simp_all add: key_hold_def key_cooldown_def has_prefix_Cons)
  moreover have "a = alerter_run (ts @ [?t]) (NewAlerter ps ?cfg)"
    using assms(7) ts ps by (simp add: alert_plan_def Let_def run_snoc eval_tick_def)
  ultimately have "alerted ?cfg now ?k a" using instant_alert [OF r(1,3), of ts ps] by (simp add: r(2))
  then obtain t where t: "(?k, t) \<in> set (al_fires a)" "t = now \<or> time_sub now t < 6 * hour"
    using \<open>key_cooldown ?cfg ?k = 6 * hour\<close> by (auto simp: alerted_def list_ex_iff)
  have "al_config (sy_alerter s') = ?cfg" using ts ps by (metis NewAlerter_sel(1) run_config(1))
  with planned_alerts [OF assms(7)] snap obtain fs where
    fs: "set fs \<subseteq> set (rules ?cfg (sy_cache s') now clk)" "al_fires a = al_fires (sy_alerter s') @ map (\<lambda>r. (ru_key r, now)) fs"
      "\<And>r. r \<in> set fs \<Longrightarrow> \<exists>e. OnStore (InsAlert e (unix_of_time now) (nt_type (ru_notif r)) (nt_instance (ru_notif r))
        (nt_subject (ru_notif r)) (nt_message (ru_notif r)) (nt_severity (ru_notif r))) \<in> set calls" by auto
  show ?thesis
  proof (cases "(?k, t) \<in> set (al_fires (sy_alerter s'))")
    case True
    moreover have "time_sub now t < 6 * hour" using t(2) by (auto simp: time_sub_def min_i64_def)
    ultimately show ?thesis by blast
  next
    case False
    with t(1) fs(2) obtain q where q: "q \<in> set fs" "ru_key q = ?k" by auto
    from disk_rule_key [OF _ q(2) wf d cfg(1)] fs(1) q(1) have "nt_type (ru_notif q) = ''disk_smart_failed''"
      "nt_instance (ru_notif q) = d_instance d" "nt_subject (ru_notif q) = d_devpath d" "nt_severity (ru_notif q) = ''critical''"
      by auto
    with fs(3) [OF q(1)] show ?thesis by metis
  qed
qed

text \<open>The first poll of a server whose one disk has failed.\<close>

theorem failed_disk_alert_witness:
  "\<exists>g out s a calls e msg. main_run sample_main sample_flags = Running g out \<and> sys_reach g s \<and>
    alert_plan (sy_cache s) 0 (\<lambda>_ _. 0) (\<lambda>_. False) (sy_alerter s) = (a, calls) \<and>
    OnStore (InsAlert e 0 ''disk_smart_failed'' ''default'' ''/dev/nvme0n1'' msg ''critical'') \<in> set calls"
proof -
  obtain g out s d where r: "main_run sample_main sample_flags = Running g out" and s: "sys_reach g s"
    "c_disks (sy_cache s) = [(''w1'', d)]" "d_health d = ''FAILED''" "d_devpath d = ''/dev/nvme0n1''" "d_instance d = ''default''"
    "sy_alerter s = pg_alerter g" by (rule sample_system)
  obtain a acts where a: "alert_plan (sy_cache s) 0 (\<lambda>_ _. 0) (\<lambda>_. False) (sy_alerter s) = (a, acts)"
    by (cases "alert_plan (sy_cache s) 0 (\<lambda>_ _. 0) (\<lambda>_. False) (sy_alerter s)")
  have "al_fires (sy_alerter s) = []" using running_disk_rule(2) [OF r] by (metis NewAlerter_sel(6) s(6))
  moreover have "gm_get (c_disks (sy_cache s)) ''w1'' = Some d" by (simp add: s(2))
  ultimately have "\<exists>e msg. OnStore (InsAlert e (unix_of_time 0) ''disk_smart_failed'' ''default'' ''/dev/nvme0n1'' msg ''critical'')
      \<in> set acts"
    using failed_disk_alert [OF r sample_db_ok s(1) _ _ rtranclp.rtrancl_refl a, of "''w1''" d] s by simp
  moreover have "unix_of_time 0 = 0" by (simp add: unix_of_time_def)
  ultimately show ?thesis using r a s(1) by metis
qed

end
