(* ===== verification/HttpServer.thy ===== *)
theory HttpServer
  imports GoTime
begin

text \<open>
  The HTTP layer of \<open>internal/api\<close>: what a handler does to its response writer, the middleware of
  \<open>middleware.go\<close>, and the routes that \<open>registerRoutes\<close> in \<open>handlers.go\<close> gives to \<open>http.ServeMux\<close>. A handler
  ends normally or panics, with the writer as it left it. The writer follows \<open>net/http\<close>: the first status
  wins, the headers are those set before it, and writing a body without a status sends 200. The value of
  a JSON document stands for its text; the text of a redirect is left out.
\<close>

section \<open>Responses\<close>

datatype json_value = JvNull | JvInt int | JvFloat f64 | JvStr string | JvArr "json_value list"
  | JvObj "(string \<times> json_value) list"

datatype content = Bytes string | Doc json_value

type_synonym headers = "string \<Rightarrow> string option"

text \<open>\<open>wr_seen\<close> is what the \<open>statusWriter\<close> of the logging middleware has seen.\<close>

record writer =
  wr_headers :: headers
  wr_sent :: "(int \<times> headers) option"
  wr_body :: "content list"
  wr_seen :: int

definition new_writer :: writer where
  "new_writer = \<lparr>wr_headers = \<lambda>_. None, wr_sent = None, wr_body = [], wr_seen = 0\<rparr>"

definition set_header :: "string \<Rightarrow> string \<Rightarrow> writer \<Rightarrow> writer" where
  "set_header k v w = w\<lparr>wr_headers := (wr_headers w)(k \<mapsto> v)\<rparr>"

definition WriteHeader :: "int \<Rightarrow> writer \<Rightarrow> writer" where
  "WriteHeader code w =
     w\<lparr>wr_seen := code, wr_sent := (case wr_sent w of None \<Rightarrow> Some (code, wr_headers w) | Some s \<Rightarrow> Some s)\<rparr>"

definition write_body :: "content \<Rightarrow> writer \<Rightarrow> writer" where
  "write_body b w =
     w\<lparr>wr_sent := (case wr_sent w of None \<Rightarrow> Some (200, wr_headers w) | Some s \<Rightarrow> Some s),
       wr_body := wr_body w @ [b]\<rparr>"

definition http_error :: "string \<Rightarrow> int \<Rightarrow> writer \<Rightarrow> writer" where
  "http_error msg code w =
     (let w = w\<lparr>wr_headers := (wr_headers w)(''Content-Length'' := None)\<rparr>;
          w = set_header ''Content-Type'' ''text/plain; charset=utf-8'' w;
          w = set_header ''X-Content-Type-Options'' ''nosniff'' w
      in write_body (Bytes (msg @ [nl])) (WriteHeader code w))"

definition not_found :: "writer \<Rightarrow> writer" where
  "not_found w = http_error ''404 page not found'' 404 w"

text \<open>How a handler ends.\<close>

datatype ending = Done writer | Panicked writer

fun left :: "ending \<Rightarrow> writer" where
  "left (Done w) = w"
| "left (Panicked w) = w"

section \<open>Middleware\<close>

text \<open>A request, with its path as it is escaped in the URL.\<close>

record http_request =
  hq_method :: string
  hq_path :: string
  hq_query :: "string \<Rightarrow> string"

type_synonym handler = "http_request \<Rightarrow> writer \<Rightarrow> ending"

definition quoted :: "string \<Rightarrow> string" where
  "quoted s = [CHR 0x27] @ s @ [CHR 0x27]"

definition SecurityHeadersMiddleware :: "handler \<Rightarrow> handler" where
  "SecurityHeadersMiddleware nxt r w =
     (let w = set_header ''X-Content-Type-Options'' ''nosniff'' w;
          w = set_header ''X-Frame-Options'' ''DENY'' w;
          w = set_header ''Content-Security-Policy''
            (''default-src '' @ quoted ''self'' @ ''; script-src '' @ quoted ''self'' @ ''; style-src '' @ quoted ''self'' @ '' '' @
             quoted ''unsafe-inline'' @ ''; upgrade-insecure-requests'') w;
          w = set_header ''Referrer-Policy'' ''strict-origin-when-cross-origin'' w;
          w = set_header ''Cache-Control'' ''no-store'' w
      in nxt r w)"

text \<open>What is logged: the method, the path and the status. Nothing is when the handler panics.\<close>

type_synonym access_log = "(string \<times> string \<times> int) list"

definition LoggingMiddleware :: "handler \<Rightarrow> http_request \<Rightarrow> writer \<Rightarrow> ending \<times> access_log" where
  "LoggingMiddleware nxt r w =
     (case nxt r (w\<lparr>wr_seen := 200\<rparr>) of
        Done w \<Rightarrow> (Done w, [(hq_method r, hq_path r, wr_seen w)])
      | Panicked w \<Rightarrow> (Panicked w, []))"

definition RecoveryMiddleware :: "handler \<Rightarrow> handler" where
  "RecoveryMiddleware nxt r w =
     (case nxt r w of
        Done w \<Rightarrow> Done w
      | Panicked w \<Rightarrow> Done (http_error ''Internal Server Error'' 500 w))"

section \<open>Routes\<close>

datatype endpoint = StaticFiles | Dashboard | Nodes | Guests | Backups | Events | Disks | DiskDetail string
  | NodeSVG string string | GuestSVG string string | NodeJSON string string | GuestJSON string string
  | Healthz | Widget | Swagger

text \<open>The pattern of \<open>registerRoutes\<close> that matches the segments of a path. A wildcard matches a segment that is not
  empty; a pattern that ends in a slash matches everything below it, the longest such pattern winning.\<close>

definition route :: "string list \<Rightarrow> endpoint" where
  "route segs =
     (if segs = [''fragments'', ''nodes''] then Nodes
      else if segs = [''fragments'', ''guests''] then Guests
      else if segs = [''fragments'', ''backups''] then Backups
      else if segs = [''fragments'', ''events''] then Events
      else if segs = [''fragments'', ''disks''] then Disks
      else if segs = [''healthz''] then Healthz
      else if segs = [''api'', ''widget''] then Widget
      else case segs of
             [a, b, x] \<Rightarrow> if [a, b] = [''fragments'', ''disk''] \<and> x \<noteq> [] then DiskDetail x
                 else if a = ''static'' then StaticFiles else if a = ''swagger'' then Swagger else Dashboard
           | [a, b, k, x, y] \<Rightarrow>
               if [a, b, k] = [''fragments'', ''sparkline'', ''node''] \<and> x \<noteq> [] \<and> y \<noteq> [] then NodeSVG x y
               else if [a, b, k] = [''fragments'', ''sparkline'', ''guest''] \<and> x \<noteq> [] \<and> y \<noteq> [] then GuestSVG x y
               else if [a, b, k] = [''api'', ''sparkline'', ''node''] \<and> x \<noteq> [] \<and> y \<noteq> [] then NodeJSON x y
               else if [a, b, k] = [''api'', ''sparkline'', ''guest''] \<and> x \<noteq> [] \<and> y \<noteq> [] then GuestJSON x y
               else if a = ''static'' then StaticFiles else if a = ''swagger'' then Swagger else Dashboard
           | a # b # rest \<Rightarrow> if a = ''static'' then StaticFiles else if a = ''swagger'' then Swagger else Dashboard
           | _ \<Rightarrow> Dashboard)"

text \<open>\<open>http.ServeMux\<close>: the path is cleaned as \<open>path.Clean\<close> does, keeping a final slash; a path that is not
  clean is redirected. Segments are unescaped one by one.\<close>

fun clean_segs :: "string list \<Rightarrow> string list \<Rightarrow> string list" where
  "clean_segs acc [] = rev acc"
| "clean_segs acc (s # ss) =
     (if s = [] \<or> s = ''.'' then clean_segs acc ss
      else if s = ''..'' then clean_segs (drop 1 acc) ss
      else clean_segs (s # acc) ss)"

definition cleanPath :: "string \<Rightarrow> string" where
  "cleanPath p =
     (let p = (if take 1 p = ''/'' then p else ''/'' @ p);
          np = ''/'' @ str_join ''/'' (clean_segs [] (split_on (CHR ''/'') p))
      in if has_suffix p ''/'' \<and> np \<noteq> ''/'' then np @ ''/'' else np)"

fun unescape :: "string \<Rightarrow> string option" where
  "unescape (CHR ''%'' # a # b # cs) =
     (case (digit_val 16 a, digit_val 16 b, unescape cs) of
        (Some x, Some y, Some s) \<Rightarrow> Some (char_of (16 * x + y) # s)
      | _ \<Rightarrow> None)"
| "unescape (c # cs) = (if c = CHR ''%'' then None else map_option ((#) c) (unescape cs))"
| "unescape [] = Some []"

definition segment :: "string \<Rightarrow> string" where
  "segment s = (case unescape s of Some t \<Rightarrow> t | None \<Rightarrow> s)"

definition segments :: "string \<Rightarrow> string list" where
  "segments path = map segment (drop 1 (split_on (CHR ''/'') path))"

text \<open>The text of a URL with the given path.\<close>

definition plain_char :: "char \<Rightarrow> bool" where
  "plain_char c \<longleftrightarrow> unreserved c \<or> c \<in> set ''$&+,/:;=@''"

definition encode_path :: "string \<Rightarrow> string" where
  "encode_path p = concat (map (\<lambda>c. if plain_char c then [c]
     else [CHR ''%'', hex_digit (byte_of c div 16), hex_digit (byte_of c mod 16)]) p)"

text \<open>A CONNECT request is matched as it is, and every pattern asks for GET, which HEAD satisfies as well.\<close>

datatype dispatch = Serve endpoint | Redirect string | NotAllowed | BadRequest

definition mux :: "http_request \<Rightarrow> dispatch" where
  "mux r =
     (let path = cleanPath (hq_path r); get = hq_method r \<in> {''GET'', ''HEAD''}
      in if hq_path r = ''*'' then BadRequest
         else if hq_method r = ''CONNECT'' then NotAllowed
         else if get \<and> segments path = [''static''] then Redirect ''/static/''
         else if get \<and> segments path = [''swagger''] then Redirect ''/swagger/''
         else if path \<noteq> hq_path r then Redirect (encode_path path)
         else if get then Serve (route (segments path))
         else NotAllowed)"

text \<open>A redirect of the \<open>ServeMux\<close> has status 307 since Go 1.26, the version the module asks for. Its \<open>Location\<close> is given up to
  the query of the request, which it keeps.\<close>

definition mux_handler :: "(endpoint \<Rightarrow> handler) \<Rightarrow> handler" where
  "mux_handler serve r w =
     (case mux r of
        Serve e \<Rightarrow> serve e r w
      | Redirect url \<Rightarrow>
          (let w = set_header ''Location'' url w;
               w = (if hq_method r \<in> {''GET'', ''HEAD''} then set_header ''Content-Type'' ''text/html; charset=utf-8'' w else w)
           in Done (WriteHeader 307 w))
      | NotAllowed \<Rightarrow> Done (http_error ''Method Not Allowed'' 405 (set_header ''Allow'' ''GET, HEAD'' w))
      | BadRequest \<Rightarrow> Done (WriteHeader 400 (set_header ''Connection'' ''close'' w)))"

text \<open>The handler that \<open>NewServer\<close> gives to the server.\<close>

definition server_handler :: "(endpoint \<Rightarrow> handler) \<Rightarrow> handler" where
  "server_handler serve =
     SecurityHeadersMiddleware (RecoveryMiddleware (\<lambda>r w. fst (LoggingMiddleware (mux_handler serve) r w)))"

section \<open>Headers and panics\<close>

text \<open>The security headers of a response.\<close>

definition protective :: "headers \<Rightarrow> bool" where
  "protective h \<longleftrightarrow> h ''X-Content-Type-Options'' = Some ''nosniff'' \<and> h ''X-Frame-Options'' = Some ''DENY'' \<and>
     h ''Content-Security-Policy'' \<noteq> None \<and> h ''Referrer-Policy'' = Some ''strict-origin-when-cross-origin'' \<and>
     h ''Cache-Control'' = Some ''no-store''"

definition guarded :: "writer \<Rightarrow> bool" where
  "guarded w \<longleftrightarrow> protective (wr_headers w) \<and> pred_option (protective \<circ> snd) (wr_sent w)"

lemma guarded_ops:
  "guarded w \<Longrightarrow> k \<in> {''Content-Type'', ''Location'', ''Allow'', ''Connection''} \<Longrightarrow> guarded (set_header k v w)"
  "guarded w \<Longrightarrow> guarded (WriteHeader code w)"
  "guarded w \<Longrightarrow> guarded (write_body b w)"
  "guarded w \<Longrightarrow> guarded (http_error msg code w)"
  "guarded w \<Longrightarrow> guarded (not_found w)"
  by (auto simp: guarded_def set_header_def protective_def WriteHeader_def write_body_def http_error_def not_found_def
      Let_def split: option.splits)

text \<open>The first status that a handler sends stays the status of the response.\<close>

definition status_of :: "writer \<Rightarrow> int option" where
  "status_of w = map_option fst (wr_sent w)"

lemma status_ops [simp]:
  "status_of (set_header k v w) = status_of w"
  "status_of (WriteHeader code w) = Some (case status_of w of None \<Rightarrow> code | Some c \<Rightarrow> c)"
  "status_of (write_body b w) = Some (case status_of w of None \<Rightarrow> 200 | Some c \<Rightarrow> c)"
  "status_of (http_error msg code w) = Some (case status_of w of None \<Rightarrow> code | Some c \<Rightarrow> c)"
  "status_of (not_found w) = Some (case status_of w of None \<Rightarrow> 404 | Some c \<Rightarrow> c)"
  by (simp_all add: status_of_def set_header_def WriteHeader_def write_body_def http_error_def not_found_def Let_def
      split: option.split)

text \<open>The writer as the security middleware hands it on.\<close>

definition ready_writer :: writer where
  "ready_writer = left (SecurityHeadersMiddleware (\<lambda>_ w. Done w) \<lparr>hq_method = [], hq_path = [], hq_query = \<lambda>_. []\<rparr> new_writer)"

lemma ready_writer [simp]: "guarded ready_writer" "wr_sent ready_writer = None" "status_of ready_writer = None"
  "wr_body ready_writer = []"
  by (simp_all add: ready_writer_def SecurityHeadersMiddleware_def Let_def set_header_def new_writer_def guarded_def
      protective_def status_of_def)

lemma server_handler_eq:
  "server_handler serve r new_writer =
    (case mux_handler serve r (ready_writer\<lparr>wr_seen := 200\<rparr>) of
       Done w \<Rightarrow> Done w
     | Panicked w \<Rightarrow> Done (http_error ''Internal Server Error'' 500 w))"
  by (simp add: server_handler_def SecurityHeadersMiddleware_def RecoveryMiddleware_def LoggingMiddleware_def
      ready_writer_def Let_def split: ending.split)

lemma seen_irrelevant [simp]: "guarded (w\<lparr>wr_seen := n\<rparr>) = guarded w" "status_of (w\<lparr>wr_seen := n\<rparr>) = status_of w"
  by (simp_all add: guarded_def status_of_def)

text \<open>Whatever a handler that leaves the security headers alone does, panic included, the response has them, and
  a panic before anything was sent is answered with 500.\<close>

lemma server_safe:
  assumes "\<And>e w. mux r = Serve e \<Longrightarrow> guarded w \<Longrightarrow> guarded (left (serve e r w))"
  shows "\<exists>w. server_handler serve r new_writer = Done w \<and> guarded w"
proof -
  have "guarded (left (mux_handler serve r (ready_writer\<lparr>wr_seen := 200\<rparr>)))"
    using assms by (cases "mux r") (auto simp: mux_handler_def Let_def intro!: guarded_ops)
  then show ?thesis by (auto simp: server_handler_eq intro: guarded_ops split: ending.split)
qed

section \<open>Paths\<close>

text \<open>A clean path: a slash, and segments that are neither empty nor dots.\<close>

definition plain_seg :: "string \<Rightarrow> bool" where
  "plain_seg s \<longleftrightarrow> s \<notin> {[], ''.'', ''..''} \<and> CHR ''/'' \<notin> set s"

lemma clean_plain: "list_all plain_seg ss \<Longrightarrow> clean_segs acc ss = rev acc @ ss"
  by (induction ss arbitrary: acc) (auto simp: plain_seg_def)

lemma split_join_path: "ss \<noteq> [] \<Longrightarrow> list_all plain_seg ss \<Longrightarrow>
    split_on (CHR ''/'') (str_join ''/'' ss) = ss"
  by (rule split_on_join) (auto simp: list_all_iff plain_seg_def)

lemma last_str_join: "ss \<noteq> [] \<Longrightarrow> last ss \<noteq> [] \<Longrightarrow> last (str_join sep ss) = last (last ss) \<and> str_join sep ss \<noteq> []"
  by (induction sep ss rule: str_join.induct) auto

lemma clean_path_plain:
  assumes "ss \<noteq> []" and "list_all plain_seg ss"
  shows "cleanPath (''/'' @ str_join ''/'' ss) = ''/'' @ str_join ''/'' ss"
    and "segments (''/'' @ str_join ''/'' ss) = map segment ss"
proof -
  have l: "plain_seg (last ss)" using assms by (simp add: list_all_iff)
  then have "last ss \<noteq> []" "last (last ss) \<noteq> CHR ''/''" by (auto simp: plain_seg_def dest: last_in_set)
  then have e: "str_join ''/'' ss \<noteq> []" "last (str_join ''/'' ss) \<noteq> CHR ''/''"
    using last_str_join [OF assms(1), of "''/''"] by simp_all
  have "\<not> has_suffix (''/'' @ str_join ''/'' ss) ''/''"
  proof
    assume "has_suffix (''/'' @ str_join ''/'' ss) ''/''"
    then have "drop (length (str_join ''/'' ss)) (CHR ''/'' # str_join ''/'' ss) = ''/''" by (simp add: has_suffix_def)
    then have "last (CHR ''/'' # str_join ''/'' ss) = CHR ''/''" by (metis append_take_drop_id last_snoc)
    with e show False by simp
  qed
  then show "cleanPath (''/'' @ str_join ''/'' ss) = ''/'' @ str_join ''/'' ss"
    using assms by (simp add: cleanPath_def Let_def split_join_path clean_plain)
  show "segments (''/'' @ str_join ''/'' ss) = map segment ss"
    using assms by (simp add: segments_def split_join_path)
qed

lemma encode_plain: "list_all plain_char s \<Longrightarrow> encode_path s = s"
  by (induction s) (simp_all add: encode_path_def)

lemma plain_chars: "list_all plain_char s \<Longrightarrow> CHR ''%'' \<notin> set s"
proof -
  have "\<not> plain_char (CHR ''%'')" by code_simp
  then show "list_all plain_char s \<Longrightarrow> CHR ''%'' \<notin> set s" by (auto simp: list_all_iff)
qed

lemma unescape_plain: "CHR ''%'' \<notin> set s \<Longrightarrow> unescape s = Some s"
  by (induction s rule: unescape.induct) auto

end
