(* ===== verification/Api.thy ===== *)
theory Api
  imports HttpServer Cache Store Helpers
begin

text \<open>
  The handlers of \<open>internal/api/handlers.go\<close>, over a snapshot of the cache and the store. Parameters: the
  clock, whether the database fails a query, the templates (\<open>aw_render\<close>: the HTML of a page, an error or a
  panic), the handlers of other packages (\<open>aw_other\<close>: the static files and the Swagger page) and the
  platform's conversion of an out-of-range \<open>float64\<close>.
\<close>

section \<open>What the handlers depend on\<close>

datatype page = DashboardPage cache_snapshot | NodesPage cache_snapshot | GuestsPage cache_snapshot
  | BackupsPage cache_snapshot | EventsPage cache_snapshot | DisksPage cache_snapshot | DiskPage disk
  | SparklinePage "sparkline_point list" string

datatype rendered = Html string | RenderError | RenderPanic

record api_world =
  aw_clk :: gotime
  aw_since :: "string \<Rightarrow> gotime"
  aw_dberr :: bool
  aw_render :: "page \<Rightarrow> rendered"
  aw_other :: "endpoint \<Rightarrow> handler"
  aw_oor :: "f64 \<Rightarrow> int"

section \<open>Replies\<close>

definition renderHTML :: "api_world \<Rightarrow> page \<Rightarrow> writer \<Rightarrow> ending" where
  "renderHTML aw p w =
     (case aw_render aw p of
        RenderPanic \<Rightarrow> Panicked w
      | RenderError \<Rightarrow> Done (http_error ''Internal Server Error'' 500 w)
      | Html s \<Rightarrow> Done (write_body (Bytes s) (set_header ''Content-Type'' ''text/html; charset=utf-8'' w)))"

text \<open>\<open>json.Marshal\<close> refuses a number that is not finite.\<close>

fun marshallable :: "json_value \<Rightarrow> bool" where
  "marshallable (JvFloat x) \<longleftrightarrow> finite_value x"
| "marshallable (JvArr vs) \<longleftrightarrow> list_all marshallable vs"
| "marshallable (JvObj kvs) \<longleftrightarrow> list_all (\<lambda>(k, v). marshallable v) kvs"
| "marshallable _ \<longleftrightarrow> True"

definition writeJSON :: "json_value \<Rightarrow> writer \<Rightarrow> ending" where
  "writeJSON v w =
     (if \<not> marshallable v then Done (http_error ''Internal Server Error'' 500 w)
      else Done (write_body (Doc v) (set_header ''Content-Type'' ''application/json'' w)))"

section \<open>Pages\<close>

definition handleDashboard :: "api_world \<Rightarrow> cache \<Rightarrow> handler" where
  "handleDashboard aw c r w =
     (if segment (hq_path r) \<noteq> ''/'' then Done (not_found w) else renderHTML aw (DashboardPage (Snapshot c)) w)"

definition handleDiskDetailFragment :: "api_world \<Rightarrow> cache \<Rightarrow> string \<Rightarrow> writer \<Rightarrow> ending" where
  "handleDiskDetailFragment aw c wwn w =
     (case gm_get (c_disks (Snapshot c)) wwn of
        None \<Rightarrow> Done (not_found w)
      | Some d \<Rightarrow> renderHTML aw (DiskPage d) w)"

section \<open>Sparklines\<close>

definition hours_param :: "http_request \<Rightarrow> int" where
  "hours_param r =
     (let h = hq_query r ''hours''
      in if h \<noteq> [] then (case atoi h of Some v \<Rightarrow> if v > 0 \<and> v \<le> 168 then v else 24 | None \<Rightarrow> 24) else 24)"

definition metric_param :: "http_request \<Rightarrow> string" where
  "metric_param r = (let m = hq_query r ''metric'' in if m = [] then ''cpu'' else m)"

definition since_hours :: "api_world \<Rightarrow> int \<Rightarrow> int" where
  "since_hours aw hours = unix_of_time (aw_clk aw - hours * hour)"

text \<open>A slice without elements that was never allocated is \<open>null\<close>.\<close>

definition encode_points :: "sparkline_point list \<Rightarrow> json_value" where
  "encode_points ps =
     (if ps = [] then JvNull
      else JvArr (map (\<lambda>p. JvObj [(''ts'', JvInt (sp_ts p)), (''value'', JvFloat (sp_value p))]) ps))"

definition sparkline_reply :: "store_error + sparkline_point list \<Rightarrow> (sparkline_point list \<Rightarrow> writer \<Rightarrow> ending) \<Rightarrow>
    writer \<Rightarrow> ending" where
  "sparkline_reply q ok w =
     (case q of Inl e \<Rightarrow> Done (http_error ''Internal Server Error'' 500 w) | Inr ps \<Rightarrow> ok ps w)"

definition handleNodeSparkline :: "api_world \<Rightarrow> store \<Rightarrow> string \<Rightarrow> string \<Rightarrow> handler" where
  "handleNodeSparkline aw st inst nd r w =
     sparkline_reply
       (QueryNodeSparkline (aw_dberr aw) inst nd (metric_param r) (since_hours aw (hours_param r)) st)
       (\<lambda>ps. writeJSON (encode_points ps)) w"

definition handleGuestSparkline :: "api_world \<Rightarrow> store \<Rightarrow> string \<Rightarrow> string \<Rightarrow> writer \<Rightarrow> ending" where
  "handleGuestSparkline aw st inst vmidStr w =
     (case atoi vmidStr of
        None \<Rightarrow> Done (http_error ''Invalid VMID'' 400 w)
      | Some vmid \<Rightarrow>
          sparkline_reply (QueryGuestSparkline (aw_dberr aw) inst vmid (since_hours aw 24) st)
            (\<lambda>ps. writeJSON (encode_points ps)) w)"

definition handleNodeSparklineSVG :: "api_world \<Rightarrow> store \<Rightarrow> string \<Rightarrow> string \<Rightarrow> handler" where
  "handleNodeSparklineSVG aw st inst nd r w =
     sparkline_reply
       (QueryNodeSparkline (aw_dberr aw) inst nd (metric_param r) (since_hours aw (hours_param r)) st)
       (\<lambda>ps. renderHTML aw (SparklinePage ps (metric_param r @ '' '' @ itoa (hours_param r) @ ''h''))) w"

definition handleGuestSparklineSVG :: "api_world \<Rightarrow> store \<Rightarrow> string \<Rightarrow> string \<Rightarrow> writer \<Rightarrow> ending" where
  "handleGuestSparklineSVG aw st inst vmidStr w =
     (case atoi vmidStr of
        None \<Rightarrow> Done (http_error ''Invalid VMID'' 400 w)
      | Some vmid \<Rightarrow>
          sparkline_reply (QueryGuestSparkline (aw_dberr aw) inst vmid (since_hours aw 24) st)
            (\<lambda>ps. renderHTML aw (SparklinePage ps ''cpu 24h'')) w)"

section \<open>The widget\<close>

record widget =
  wi_nodes :: int
  wi_online :: int
  wi_offline :: int
  wi_guests :: int
  wi_running :: int
  wi_stopped :: int
  wi_vms :: int
  wi_lxc :: int
  wi_cpupct :: f64
  wi_memused :: int
  wi_memtotal :: int
  wi_mempct :: f64
  wi_disks :: int
  wi_passed :: int
  wi_failed :: int
  wi_warning :: int
  wi_unknown :: int
  wi_backups :: int
  wi_lastbackup :: int

definition zero_widget :: widget where
  "zero_widget = \<lparr>wi_nodes = 0, wi_online = 0, wi_offline = 0, wi_guests = 0, wi_running = 0, wi_stopped = 0,
     wi_vms = 0, wi_lxc = 0, wi_cpupct = Fin 0, wi_memused = 0, wi_memtotal = 0, wi_mempct = Fin 0, wi_disks = 0,
     wi_passed = 0, wi_failed = 0, wi_warning = 0, wi_unknown = 0, wi_backups = 0, wi_lastbackup = 0\<rparr>"

text \<open>The counters are \<open>int\<close>s, and no list has as many elements as they can count; the sums of bytes wrap.\<close>

definition count_node :: "node \<Rightarrow> widget \<times> f64 \<times> int \<Rightarrow> widget \<times> f64 \<times> int" where
  "count_node n = (\<lambda>(wi, cpuSum, cpuCount).
     let wi = wi\<lparr>wi_nodes := wi_nodes wi + 1\<rparr>
     in if n_status n = ''online'' then
          (wi\<lparr>wi_online := wi_online wi + 1, wi_memused := wrap64 (wi_memused wi + us_used (n_memory n)),
             wi_memtotal := wrap64 (wi_memtotal wi + us_total (n_memory n))\<rparr>,
           fadd cpuSum (percent (n_cpu n)), cpuCount + 1)
        else (wi\<lparr>wi_offline := wi_offline wi + 1\<rparr>, cpuSum, cpuCount))"

definition count_nodes :: "(string, (string, node) gomap) gomap \<Rightarrow> widget \<Rightarrow> widget" where
  "count_nodes m wi =
     (let (wi, cpuSum, cpuCount) = fold (\<lambda>(_, nodes). fold (\<lambda>(_, n). count_node n) nodes) m (wi, Fin 0, 0);
          wi = (if cpuCount > 0 then wi\<lparr>wi_cpupct := fdiv cpuSum (f64_of_int cpuCount)\<rparr> else wi)
      in if wi_memtotal wi > 0 then wi\<lparr>wi_mempct := pct_of (wi_memused wi) (wi_memtotal wi)\<rparr> else wi)"

definition count_guest :: "guest \<Rightarrow> widget \<Rightarrow> widget" where
  "count_guest g wi =
     (let wi = wi\<lparr>wi_guests := wi_guests wi + 1\<rparr>;
          wi = (if g_status g = ''running'' then wi\<lparr>wi_running := wi_running wi + 1\<rparr>
                else if g_status g = ''stopped'' then wi\<lparr>wi_stopped := wi_stopped wi + 1\<rparr> else wi)
      in if g_type g = ''qemu'' then wi\<lparr>wi_vms := wi_vms wi + 1\<rparr>
         else if g_type g = ''lxc'' then wi\<lparr>wi_lxc := wi_lxc wi + 1\<rparr> else wi)"

definition count_disk :: "disk \<Rightarrow> widget \<Rightarrow> widget" where
  "count_disk d wi =
     (let wi = wi\<lparr>wi_disks := wi_disks wi + 1\<rparr>
      in if d_status d = StatusPassed then wi\<lparr>wi_passed := wi_passed wi + 1\<rparr>
         else if d_status d AND (StatusFailedSmart OR StatusFailedScrutiny) \<noteq> 0 then wi\<lparr>wi_failed := wi_failed wi + 1\<rparr>
         else if d_status d AND StatusWarnScrutiny \<noteq> 0 then wi\<lparr>wi_warning := wi_warning wi + 1\<rparr>
         else wi\<lparr>wi_unknown := wi_unknown wi + 1\<rparr>)"

definition count_backup :: "backup \<Rightarrow> widget \<Rightarrow> widget" where
  "count_backup b wi =
     (let wi = wi\<lparr>wi_backups := wi_backups wi + 1\<rparr>
      in if b_time b > wi_lastbackup wi then wi\<lparr>wi_lastbackup := b_time b\<rparr> else wi)"

definition widget_of :: "cache_snapshot \<Rightarrow> widget" where
  "widget_of snap =
     (let wi = count_nodes (c_nodes snap) zero_widget;
          wi = fold (\<lambda>(_, guests). fold (\<lambda>(_, g). count_guest g) guests) (c_guests snap) wi;
          wi = fold (\<lambda>(_, d). count_disk d) (c_disks snap) wi
      in fold (\<lambda>(_, backups). fold (\<lambda>(_, b). count_backup b) backups) (c_backups snap) wi)"

definition encode_widget :: "widget \<Rightarrow> json_value" where
  "encode_widget wi = JvObj
     [(''nodes'', JvObj [(''total'', JvInt (wi_nodes wi)), (''online'', JvInt (wi_online wi)),
        (''offline'', JvInt (wi_offline wi))]),
      (''guests'', JvObj [(''total'', JvInt (wi_guests wi)), (''running'', JvInt (wi_running wi)),
        (''stopped'', JvInt (wi_stopped wi)), (''vms'', JvInt (wi_vms wi)), (''lxc'', JvInt (wi_lxc wi))]),
      (''cpu'', JvObj [(''usage_pct'', JvFloat (wi_cpupct wi))]),
      (''memory'', JvObj [(''used_bytes'', JvInt (wi_memused wi)), (''total_bytes'', JvInt (wi_memtotal wi)),
        (''usage_pct'', JvFloat (wi_mempct wi))]),
      (''disks'', JvObj [(''total'', JvInt (wi_disks wi)), (''passed'', JvInt (wi_passed wi)),
        (''failed'', JvInt (wi_failed wi)), (''warning'', JvInt (wi_warning wi)), (''unknown'', JvInt (wi_unknown wi))]),
      (''backups'', JvObj [(''total'', JvInt (wi_backups wi)), (''last_backup_time'', JvInt (wi_lastbackup wi))])]"

definition handleWidget :: "cache \<Rightarrow> writer \<Rightarrow> ending" where
  "handleWidget c w = writeJSON (encode_widget (widget_of (Snapshot c))) w"

section \<open>Health\<close>

text \<open>The keys of a map are written in order.\<close>

definition poll_ages :: "api_world \<Rightarrow> cache_snapshot \<Rightarrow> (string \<times> json_value) list" where
  "poll_ages aw snap = map (\<lambda>(k, v). (k, JvStr (itoa (f64_to_i64 (aw_oor aw)
     (dur_seconds (time_sub (aw_since aw k) v))) @ ''s ago''))) (sort_key fst (c_lastpoll snap))"

definition health_doc :: "api_world \<Rightarrow> cache_snapshot \<Rightarrow> json_value" where
  "health_doc aw snap = JvObj
     [(''collectors'', JvObj (poll_ages aw snap)),
      (''status'', JvStr (if length (c_lastpoll snap) > 0 then ''ok'' else ''no_data'')),
      (''timestamp'', JvInt (unix_of_time (aw_clk aw)))]"

definition handleHealthz :: "api_world \<Rightarrow> cache \<Rightarrow> writer \<Rightarrow> ending" where
  "handleHealthz aw c w = writeJSON (health_doc aw (Snapshot c)) w"

section \<open>The server\<close>

definition serve :: "api_world \<Rightarrow> cache \<Rightarrow> store \<Rightarrow> endpoint \<Rightarrow> handler" where
  "serve aw c st e r w =
     (case e of
        StaticFiles \<Rightarrow> aw_other aw e r w
      | Swagger \<Rightarrow> aw_other aw e r w
      | Dashboard \<Rightarrow> handleDashboard aw c r w
      | Nodes \<Rightarrow> renderHTML aw (NodesPage (Snapshot c)) w
      | Guests \<Rightarrow> renderHTML aw (GuestsPage (Snapshot c)) w
      | Backups \<Rightarrow> renderHTML aw (BackupsPage (Snapshot c)) w
      | Events \<Rightarrow> renderHTML aw (EventsPage (Snapshot c)) w
      | Disks \<Rightarrow> renderHTML aw (DisksPage (Snapshot c)) w
      | DiskDetail wwn \<Rightarrow> handleDiskDetailFragment aw c wwn w
      | NodeSVG i n \<Rightarrow> handleNodeSparklineSVG aw st i n r w
      | GuestSVG i v \<Rightarrow> handleGuestSparklineSVG aw st i v w
      | NodeJSON i n \<Rightarrow> handleNodeSparkline aw st i n r w
      | GuestJSON i v \<Rightarrow> handleGuestSparkline aw st i v w
      | Healthz \<Rightarrow> handleHealthz aw c w
      | Widget \<Rightarrow> handleWidget c w)"

text \<open>The answer to one request.\<close>

definition respond :: "api_world \<Rightarrow> cache \<Rightarrow> store \<Rightarrow> http_request \<Rightarrow> ending" where
  "respond aw c st r = server_handler (serve aw c st) r new_writer"

end
