(* ===== verification/ApiProps.thy ===== *)
theory ApiProps
  imports Api
begin

text \<open>
  What the HTTP server of \<open>internal/api\<close> answers: the security headers and the statuses, the sparklines as JSON, the
  link to a disk's details, and the health check.
\<close>

section \<open>Safe handlers\<close>

text \<open>The contract that the middleware relies on: a handler may write what it likes but leaves the security headers
  alone, and sends one of the listed statuses when it ends without a panic.\<close>

locale page_handler =
  fixes h :: "writer \<Rightarrow> ending" and codes :: "int set"
  assumes keeps: "guarded w \<Longrightarrow> guarded (left (h w))"
    and sends: "h w = Done w' \<Longrightarrow> status_of w = None \<Longrightarrow> \<exists>c \<in> codes. status_of w' = Some c"
    and silent: "h w = Panicked w' \<Longrightarrow> w' = w"
begin

text \<open>The answer of a handler behind the recovery middleware.\<close>

lemma recovered:
  assumes "guarded w" and "status_of w = None"
  shows "\<exists>w' c. RecoveryMiddleware (\<lambda>r. h) r w = Done w' \<and> guarded w' \<and> status_of w' = Some c \<and> c \<in> insert 500 codes"
proof (cases "h w")
  case (Done w')
  with keeps [OF assms(1)] sends [OF Done assms(2)] show ?thesis by (auto simp: RecoveryMiddleware_def)
next
  case (Panicked w')
  with silent [OF Panicked] assms show ?thesis by (auto simp: RecoveryMiddleware_def intro: guarded_ops)
qed

end

text \<open>The three ways in which the handlers of the package answer.\<close>

definition answers :: "int set \<Rightarrow> writer \<Rightarrow> ending \<Rightarrow> bool" where
  "answers codes w e \<longleftrightarrow> e = Panicked w \<or> (\<exists>msg c. c \<in> codes \<and> e = Done (http_error msg c w)) \<or>
     (\<exists>v b. 200 \<in> codes \<and> e = Done (write_body b (set_header ''Content-Type'' v w)))"

lemma page_handler_answers: "(\<And>w. answers codes w (h w)) \<Longrightarrow> page_handler h codes"
proof
  fix w w' assume a: "\<And>w. answers codes w (h w)"
  from a [of w] show "guarded w \<Longrightarrow> guarded (left (h w))" by (auto simp: answers_def intro!: guarded_ops)
  from a [of w] show "h w = Done w' \<Longrightarrow> status_of w = None \<Longrightarrow> \<exists>c \<in> codes. status_of w' = Some c"
    by (auto simp: answers_def)
  from a [of w] show "h w = Panicked w' \<Longrightarrow> w' = w" by (auto simp: answers_def)
qed

definition api_codes :: "int set" where
  "api_codes = {200, 400, 404, 500}"

definition own :: "endpoint \<Rightarrow> bool" where
  "own e \<longleftrightarrow> e \<noteq> StaticFiles \<and> e \<noteq> Swagger"

lemma answers_intros:
  "answers api_codes w (renderHTML aw p w)"
  "answers api_codes w (writeJSON j w)"
  "c \<in> api_codes \<Longrightarrow> answers api_codes w (Done (http_error msg c w))"
  by (cases "aw_render aw p"; force simp: answers_def renderHTML_def api_codes_def)
     (force simp: answers_def writeJSON_def api_codes_def, force simp: answers_def)

lemmas handler_defs = handleDashboard_def handleDiskDetailFragment_def handleNodeSparkline_def
  handleGuestSparkline_def handleNodeSparklineSVG_def handleGuestSparklineSVG_def handleWidget_def handleHealthz_def
  sparkline_reply_def not_found_def

lemma own_answers: "own e \<Longrightarrow> answers api_codes w (serve aw c st e r w)"
  by (cases e)
    (auto simp: own_def serve_def handler_defs api_codes_def intro!: answers_intros [unfolded api_codes_def]
      split: option.split sum.split)

lemma own_handler: "own e \<Longrightarrow> page_handler (serve aw c st e r) api_codes"
  by (intro page_handler_answers own_answers)

interpretation widget_page: page_handler "serve aw c st Widget r" api_codes
  by (rule own_handler) (simp add: own_def)

interpretation health_page: page_handler "serve aw c st Healthz r" api_codes
  by (rule own_handler) (simp add: own_def)

section \<open>Every answer\<close>

lemma mux_answer:
  assumes "\<And>e. mux r = Serve e \<Longrightarrow> own e"
  shows "page_handler (mux_handler (serve aw c st) r) ({307, 400, 405} \<union> api_codes)"
proof (cases "mux r")
  case (Serve e)
  have "page_handler (serve aw c st e r) api_codes" by (rule own_handler [OF assms [OF Serve]])
  then show ?thesis by (auto simp: mux_handler_def Serve page_handler_def)
qed (unfold_locales; auto simp: mux_handler_def Let_def intro!: guarded_ops split: if_splits)+


lemma respond_own: "mux r = Serve e \<Longrightarrow> respond aw c st r =
    (case serve aw c st e r (ready_writer\<lparr>wr_seen := 200\<rparr>) of
       Done w \<Rightarrow> Done w
     | Panicked w \<Rightarrow> Done (http_error ''Internal Server Error'' 500 w))"
  by (simp add: respond_def server_handler_eq mux_handler_def)


section \<open>Sparklines\<close>

lemma error_body: "wr_body (http_error msg code w) = wr_body w @ [Bytes (msg @ [nl])]"
  by (simp add: http_error_def Let_def write_body_def WriteHeader_def set_header_def)

lemma json_answer:
  "writeJSON v w = (if marshallable v then Done (write_body (Doc v) (set_header ''Content-Type'' ''application/json'' w))
     else Done (http_error ''Internal Server Error'' 500 w))"
  by (simp add: writeJSON_def)

lemma marshal_points: "marshallable (encode_points ps) \<longleftrightarrow> list_all (finite_value \<circ> sp_value) ps"
  by (auto simp: encode_points_def list_all_iff)

lemma since_exact: "since_hours aw h = unix_of_time (aw_clk aw) - h * 3600"
proof -
  have "aw_clk aw - h * hour = aw_clk aw + (- h * 3600) * second" by simp
  then show ?thesis unfolding since_hours_def unix_of_time_def by (metis (no_types) div_mult_self1 add.commute
      add_uminus_conv_diff mult_minus_left zero_neq_numeral)
qed

lemma hours_range: "1 \<le> hours_param r \<and> hours_param r \<le> 168"
  by (auto simp: hours_param_def Let_def split: option.split)

lemma hours_given:
  "hours_param r = (case atoi (hq_query r ''hours'') of Some v \<Rightarrow> if 1 \<le> v \<and> v \<le> 168 then v else 24 | None \<Rightarrow> 24)"
proof -
  have "atoi [] = None" by code_simp
  then show ?thesis by (auto simp: hours_param_def Let_def split: option.split)
qed

text \<open>C34: a node's sparkline is asked for at most the last 168 hours, the hours of the request when they are a
  number from 1 to 168 and 24 otherwise; the answer is status 200 with the rows of the store as they are,
  and status 500 exactly when the query fails or a value is not a finite number.\<close>

theorem sparkline_answer:
  assumes "mux r = Serve (NodeJSON i n)"
  shows "\<exists>hours w. 1 \<le> hours \<and> hours \<le> 168 \<and>
    hours = (case atoi (hq_query r ''hours'') of Some v \<Rightarrow> if 1 \<le> v \<and> v \<le> 168 then v else 24 | None \<Rightarrow> 24) \<and>
    respond aw c st r = Done w \<and>
    (case QueryNodeSparkline (aw_dberr aw) i n (metric_param r) (unix_of_time (aw_clk aw) - hours * 3600) st of
       Inl e \<Rightarrow> status_of w = Some 500
     | Inr ps \<Rightarrow> if list_all (finite_value \<circ> sp_value) ps
         then status_of w = Some 200 \<and> wr_body w = [Doc (encode_points ps)] else status_of w = Some 500)"
proof -
  let ?w = "ready_writer\<lparr>wr_seen := 200\<rparr>"
  have b: "wr_body (write_body v (set_header k x ?w)) = [v]" for v k x
    by (simp add: write_body_def set_header_def)
  show ?thesis
    by (intro exI [of _ "hours_param r"])
      (auto simp: hours_range hours_given [symmetric] respond_own [OF assms] serve_def handleNodeSparkline_def sparkline_reply_def
        since_exact json_answer marshal_points b split: sum.split)
qed

lemma plain_path:
  assumes "ss \<noteq> []" and "list_all plain_seg ss" and "list_all (\<lambda>s. CHR ''%'' \<notin> set s) ss"
  shows "cleanPath (''/'' @ str_join ''/'' ss) = ''/'' @ str_join ''/'' ss"
    and "segments (''/'' @ str_join ''/'' ss) = ss"
proof -
  have "map segment ss = ss" using assms(3) by (induction ss) (simp_all add: segment_def unescape_plain)
  then show "cleanPath (''/'' @ str_join ''/'' ss) = ''/'' @ str_join ''/'' ss"
    "segments (''/'' @ str_join ''/'' ss) = ss"
    using clean_path_plain [OF assms(1,2)] by simp_all
qed

text \<open>A GET of a plain path is served by its route.\<close>

lemma mux_plain:
  assumes "2 \<le> length ss" and "list_all plain_seg ss" and "list_all (\<lambda>s. CHR ''%'' \<notin> set s) ss"
  shows "mux \<lparr>hq_method = ''GET'', hq_path = ''/'' @ str_join ''/'' ss, hq_query = q\<rparr> = Serve (route ss)"
proof -
  have "ss \<noteq> []" using assms(1) by auto
  note p = plain_path [OF this assms(2,3)]
  from assms(1) have "ss \<noteq> [''static'']" "ss \<noteq> [''swagger'']" by auto
  with p show ?thesis by (simp add: mux_def Let_def)
qed

theorem sparkline_answer_witness:
  "\<forall>aw c. \<exists>w. respond (aw\<lparr>aw_dberr := False\<rparr>) c empty_store
    \<lparr>hq_method = ''GET'', hq_path = ''/api/sparkline/node/pve/n1'', hq_query = \<lambda>_. []\<rparr> = Done w \<and>
    status_of w = Some 200 \<and> wr_body w = [Doc JvNull]"
proof (intro allI)
  fix aw :: api_world and c :: cache
  let ?aw = "aw\<lparr>aw_dberr := False\<rparr>"
    and ?r = "\<lparr>hq_method = ''GET'', hq_path = ''/api/sparkline/node/pve/n1'', hq_query = \<lambda>_. []\<rparr>"
  have "mux ?r = Serve (NodeJSON ''pve'' ''n1'')"
    using mux_plain [of "[''api'', ''sparkline'', ''node'', ''pve'', ''n1'']" "\<lambda>_. []"]
    by (simp add: plain_seg_def route_def)
  from sparkline_answer [OF this, of ?aw c empty_store]
  show "\<exists>w. respond ?aw c empty_store ?r = Done w \<and> status_of w = Some 200 \<and> wr_body w = [Doc JvNull]"
    by (auto simp: QueryNodeSparkline_def metric_param_def empty_store_def encode_points_def Let_def)
qed

section \<open>The link to a disk\<close>

lemma reply_body: "wr_body (write_body v (set_header k x w)) = wr_body w @ [v]"
  by (simp add: write_body_def set_header_def)

lemma disk_page:
  assumes "wf_cache c" and "plain_seg s" and "CHR ''%'' \<notin> set s"
  shows "\<exists>w. respond aw c st \<lparr>hq_method = ''GET'', hq_path = ''/fragments/disk/'' @ s, hq_query = q\<rparr> = Done w \<and>
      (case gm_get (c_disks c) s of
         None \<Rightarrow> status_of w = Some 404
       | Some d \<Rightarrow> (case aw_render aw (DiskPage d) of Html page \<Rightarrow> status_of w = Some 200 \<and> wr_body w = [Bytes page]
           | _ \<Rightarrow> status_of w = Some 500))"
proof -
  have m: "mux \<lparr>hq_method = ''GET'', hq_path = ''/fragments/disk/'' @ s, hq_query = q\<rparr> = Serve (DiskDetail s)"
    using mux_plain [of "[''fragments'', ''disk'', s]" q] assms(2,3) by (auto simp: plain_seg_def route_def)
  show ?thesis unfolding respond_own [OF m]
    by (cases "gm_get (c_disks c) s"; cases "aw_render aw (DiskPage (the (gm_get (c_disks c) s)))")
      (simp_all add: serve_def handleDiskDetailFragment_def Snapshot_eq [OF assms(1)] renderHTML_def reply_body)
qed

lemma device_path:
  assumes "plain_seg s" and "list_all plain_char s"
  shows "mux \<lparr>hq_method = ''GET'', hq_path = ''/fragments/disk//dev/'' @ s, hq_query = q\<rparr> = Redirect (''/fragments/disk/dev/'' @ s)"
    and "\<exists>w. respond aw c st \<lparr>hq_method = ''GET'', hq_path = ''/fragments/disk/dev/'' @ s, hq_query = q\<rparr> = Done w \<and>
      status_of w = Some 404"
proof -
  let ?ss = "[''fragments'', ''disk'', ''dev'', s]"
  have p: "list_all plain_seg ?ss" "list_all (\<lambda>s. CHR ''%'' \<notin> set s) ?ss"
    using assms plain_chars by (simp_all add: plain_seg_def)
  note c = plain_path [OF _ p, simplified]
  have pc: "CHR ''%'' \<notin> set s" by (rule plain_chars [OF assms(2)])
  have d: "mux \<lparr>hq_method = ''GET'', hq_path = ''/fragments/disk/dev/'' @ s, hq_query = q\<rparr> = Serve Dashboard"
    using mux_plain [OF _ p, of q] by (simp add: route_def)
  show "\<exists>w. respond aw c st \<lparr>hq_method = ''GET'', hq_path = ''/fragments/disk/dev/'' @ s, hq_query = q\<rparr> = Done w \<and>
      status_of w = Some 404"
    unfolding respond_own [OF d] by (simp add: serve_def handleDashboard_def segment_def unescape_plain pc)
  have sl: "split_on (CHR ''/'') s = [s]" using assms(1) by (simp add: plain_seg_def split_on_no_sep)
  have "last s \<noteq> CHR ''/''" "s \<noteq> []" using assms(1) by (auto simp: plain_seg_def dest: last_in_set)
  then have n: "\<not> has_suffix (pre @ s) ''/''" for pre
    by (cases s rule: rev_cases) (auto simp: has_suffix_def)
  have "list_all plain_char ''/fragments/disk/dev/''" by code_simp
  then have e: "encode_path (''/fragments/disk/dev/'' @ s) = ''/fragments/disk/dev/'' @ s"
    using assms(2) by (intro encode_plain) (simp only: list_all_append)
  have "cleanPath (''/fragments/disk//dev/'' @ s) = ''/fragments/disk/dev/'' @ s"
    using n [of "''/fragments/disk//dev/''"] assms(1) by (simp add: cleanPath_def sl plain_seg_def Let_def)
  then show "mux \<lparr>hq_method = ''GET'', hq_path = ''/fragments/disk//dev/'' @ s, hq_query = q\<rparr> = Redirect (''/fragments/disk/dev/'' @ s)"
    using c e by (simp add: mux_def Let_def)
qed

text \<open>The link of a disk, the fixed path and the disk's key, gives the page of that disk (and 404 for an
  unknown one) when the key is one plain path segment (letters, digits and other characters that no URL escapes). For a disk without WWN and serial number, whose key is
  its device path, the link never works: the server redirects it to a path that is answered with 404, even
  though the disk is in the cache.\<close>

theorem disk_link:
  assumes "wf_cache c" and "s \<notin> {[], ''.'', ''..''}" and "CHR ''/'' \<notin> set s" and "list_all plain_char s"
  shows "(\<exists>w. respond aw c st \<lparr>hq_method = ''GET'', hq_path = ''/fragments/disk/'' @ s, hq_query = q\<rparr> = Done w \<and>
      (case gm_get (c_disks c) s of
         None \<Rightarrow> status_of w = Some 404
       | Some d \<Rightarrow> (case aw_render aw (DiskPage d) of Html page \<Rightarrow> status_of w = Some 200 \<and> wr_body w = [Bytes page]
           | _ \<Rightarrow> status_of w = Some 500))) \<and>
    mux \<lparr>hq_method = ''GET'', hq_path = ''/fragments/disk//dev/'' @ s, hq_query = q\<rparr> =
      Redirect (''/fragments/disk/dev/'' @ s) \<and>
    (\<exists>w. respond aw c st \<lparr>hq_method = ''GET'', hq_path = ''/fragments/disk/dev/'' @ s, hq_query = q\<rparr> = Done w \<and>
      status_of w = Some 404)"
proof -
  have "plain_seg s" "CHR ''%'' \<notin> set s" using assms(2-4) by (auto simp: plain_seg_def dest: plain_chars)
  then show ?thesis using disk_page [OF assms(1)] device_path assms(4) by blast
qed

section \<open>The health check\<close>

text \<open>The health endpoint always answers with status 200; it says "ok" exactly when some collector has ever
  completed a poll, however long ago, and "no_data" before.\<close>

theorem health_answer:
  assumes "list_all op_ok ops"
  shows "\<exists>w. respond aw (cache_run ops cache_new) st \<lparr>hq_method = ''GET'', hq_path = ''/healthz'', hq_query = q\<rparr> = Done w \<and>
    status_of w = Some 200 \<and>
    wr_body w = [Doc (JvObj [(''collectors'', JvObj (poll_ages aw (cache_run ops cache_new))),
      (''status'', JvStr (if list_ex (\<lambda>op. \<exists>i t. op = PutLastPoll i t) ops then ''ok'' else ''no_data'')),
      (''timestamp'', JvInt (unix_of_time (aw_clk aw)))])]"
proof -
  let ?r = "\<lparr>hq_method = ''GET'', hq_path = ''/healthz'', hq_query = q\<rparr>"
  have m: "mux ?r = Serve Healthz"
    using plain_path [of "[''healthz'']"] by (simp add: mux_def plain_seg_def route_def Let_def)
  have "c_lastpoll (cache_run ops c) \<noteq> [] \<longleftrightarrow> c_lastpoll c \<noteq> [] \<or> list_ex (\<lambda>op. \<exists>i t. op = PutLastPoll i t) ops" for c
  proof (induction ops arbitrary: c)
    case (Cons op ops)
    have "c_lastpoll (cache_apply op c) \<noteq> [] \<longleftrightarrow> c_lastpoll c \<noteq> [] \<or> (\<exists>i t. op = PutLastPoll i t)"
      by (cases op) (auto simp: cache_ops UpdateNodeTemperature_def gm_put_def split: option.split)
    with Cons.IH [of "cache_apply op c"] show ?case by (simp add: cache_run_def)
  qed (simp add: cache_run_def)
  then have l: "c_lastpoll (cache_run ops cache_new) \<noteq> [] \<longleftrightarrow> list_ex (\<lambda>op. \<exists>i t. op = PutLastPoll i t) ops"
    by (simp add: cache_new_def)
  have s: "Snapshot (cache_run ops cache_new) = cache_run ops cache_new"
    by (intro Snapshot_eq wf_cache_run assms) simp
  have mm: "marshallable (health_doc aw c)" for c
    by (auto simp: health_doc_def poll_ages_def list_all_iff)
  have a: "respond aw (cache_run ops cache_new) st ?r = Done (write_body (Doc (health_doc aw (cache_run ops cache_new)))
      (set_header ''Content-Type'' ''application/json'' (ready_writer\<lparr>wr_seen := 200\<rparr>)))"
    by (simp add: respond_own [OF m] serve_def handleHealthz_def json_answer mm s)
  show ?thesis by (intro exI conjI, rule a) (simp_all add: health_doc_def l write_body_def set_header_def status_of_def)
qed

theorem health_answer_witness:
  "\<forall>aw st q. \<exists>w. respond aw (cache_run [PutNodes ''i'' [], PutLastPoll ''pve:i'' 0] cache_new) st
    \<lparr>hq_method = ''GET'', hq_path = ''/healthz'', hq_query = q\<rparr> = Done w \<and> status_of w = Some 200"
  using health_answer [of "[PutNodes ''i'' [], PutLastPoll ''pve:i'' 0]"] by fastforce

theorem disk_link_witness:
  "\<forall>aw st q. \<exists>w. respond aw cache_new st \<lparr>hq_method = ''GET'', hq_path = ''/fragments/disk/0x5000c500'', hq_query = q\<rparr> = Done w \<and>
    status_of w = Some 404"
proof -
  have "c_disks cache_new = []" by (simp add: cache_new_def)
  moreover have "list_all plain_char ''0x5000c500''" by code_simp
  ultimately show ?thesis using disk_link [of cache_new "''0x5000c500''"] by simp
qed

end
