(* ===== verification/WidgetProps.thy ===== *)
theory WidgetProps
  imports Api
begin

text \<open>
  What the widget of \<open>internal/api/handlers.go\<close> counts: the loops over the maps of a snapshot are folds over
  the lists of their values, each counter is the number of values with a property, and the percentages
  stay between 0 and 100 in spite of the roundings. Nothing but the average of the CPU depends on the order
  in which Go ranges over the maps.
\<close>

section \<open>Loops over nested maps\<close>

definition values2 :: "('a, ('b, 'c) gomap) gomap \<Rightarrow> 'c list" where
  "values2 m = concat (map (map snd \<circ> snd) m)"

lemma fold_inner: "fold (\<lambda>(_, x). f x) m s = fold f (map snd m) s"
  by (induction m arbitrary: s) auto

lemma fold_values2: "fold (\<lambda>(_, inner). fold (\<lambda>(_, x). f x) inner) m s = fold f (values2 m) s"
  by (induction m arbitrary: s) (auto simp: values2_def fold_inner)

lemma fold_count:
  assumes "\<And>x s. g (f x s) = g s + (if P x then 1 else (0 :: int))"
  shows "g (fold f xs s) = g s + int (length (filter P xs))"
  by (induction xs arbitrary: s) (simp_all add: assms)

definition howmany :: "('a \<Rightarrow> bool) \<Rightarrow> 'a list \<Rightarrow> int" where
  "howmany P xs = int (length (filter P xs))"

lemma howmany_all: "howmany (\<lambda>_. True) xs = int (length xs)"
  by (simp add: howmany_def)

section \<open>The loops of the widget\<close>

definition online :: "node \<Rightarrow> bool" where
  "online n \<longleftrightarrow> n_status n = ''online''"

definition failed_disk :: "disk \<Rightarrow> bool" where
  "failed_disk d \<longleftrightarrow> d_status d \<noteq> StatusPassed \<and> d_status d AND (StatusFailedSmart OR StatusFailedScrutiny) \<noteq> 0"

definition warned_disk :: "disk \<Rightarrow> bool" where
  "warned_disk d \<longleftrightarrow> d_status d \<noteq> StatusPassed \<and> \<not> failed_disk d \<and> d_status d AND StatusWarnScrutiny \<noteq> 0"

text \<open>The part of the widget that no loop but the one over the nodes writes.\<close>

definition node_part :: "widget \<Rightarrow> int \<times> int \<times> int \<times> f64 \<times> int \<times> int \<times> f64" where
  "node_part wi = (wi_nodes wi, wi_online wi, wi_offline wi, wi_cpupct wi, wi_memused wi, wi_memtotal wi, wi_mempct wi)"

definition guest_part :: "widget \<Rightarrow> int \<times> int \<times> int \<times> int \<times> int" where
  "guest_part wi = (wi_guests wi, wi_running wi, wi_stopped wi, wi_vms wi, wi_lxc wi)"

definition disk_part :: "widget \<Rightarrow> int \<times> int \<times> int \<times> int \<times> int" where
  "disk_part wi = (wi_disks wi, wi_passed wi, wi_failed wi, wi_warning wi, wi_unknown wi)"

lemmas part_defs = node_part_def guest_part_def disk_part_def

lemma guest_step: "node_part (count_guest g wi) = node_part wi" "disk_part (count_guest g wi) = disk_part wi"
  "wi_guests (count_guest g wi) = wi_guests wi + 1"
  "wi_running (count_guest g wi) = wi_running wi + (if g_status g = ''running'' then 1 else 0)"
  "wi_stopped (count_guest g wi) = wi_stopped wi + (if g_status g = ''stopped'' then 1 else 0)"
  "wi_vms (count_guest g wi) = wi_vms wi + (if g_type g = ''qemu'' then 1 else 0)"
  "wi_lxc (count_guest g wi) = wi_lxc wi + (if g_type g = ''lxc'' then 1 else 0)"
  "wi_backups (count_guest g wi) = wi_backups wi" "wi_lastbackup (count_guest g wi) = wi_lastbackup wi"
  by (simp_all add: count_guest_def Let_def part_defs)

lemma disk_step: "node_part (count_disk d wi) = node_part wi" "guest_part (count_disk d wi) = guest_part wi"
  "wi_disks (count_disk d wi) = wi_disks wi + 1"
  "wi_passed (count_disk d wi) = wi_passed wi + (if d_status d = StatusPassed then 1 else 0)"
  "wi_failed (count_disk d wi) = wi_failed wi + (if failed_disk d then 1 else 0)"
  "wi_warning (count_disk d wi) = wi_warning wi + (if warned_disk d then 1 else 0)"
  "wi_unknown (count_disk d wi) = wi_unknown wi +
     (if d_status d \<noteq> StatusPassed \<and> \<not> failed_disk d \<and> \<not> warned_disk d then 1 else 0)"
  "wi_backups (count_disk d wi) = wi_backups wi" "wi_lastbackup (count_disk d wi) = wi_lastbackup wi"
  by (simp_all add: count_disk_def Let_def part_defs failed_disk_def warned_disk_def)

lemma backup_step: "node_part (count_backup b wi) = node_part wi" "guest_part (count_backup b wi) = guest_part wi"
  "disk_part (count_backup b wi) = disk_part wi" "wi_backups (count_backup b wi) = wi_backups wi + 1"
  "wi_lastbackup (count_backup b wi) = max (wi_lastbackup wi) (b_time b)"
  by (simp_all add: count_backup_def Let_def part_defs)

lemma node_step:
  "case count_node n (wi, s, k) of (wi', s', k') \<Rightarrow>
     guest_part wi' = guest_part wi \<and> disk_part wi' = disk_part wi \<and> wi_backups wi' = wi_backups wi \<and>
     wi_lastbackup wi' = wi_lastbackup wi \<and> wi_cpupct wi' = wi_cpupct wi \<and> wi_mempct wi' = wi_mempct wi \<and>
     wi_nodes wi' = wi_nodes wi + 1 \<and> wi_online wi' = wi_online wi + (if online n then 1 else 0) \<and>
     wi_offline wi' = wi_offline wi + (if online n then 0 else 1) \<and> k' = k + (if online n then 1 else 0) \<and>
     s' = (if online n then fadd s (percent (n_cpu n)) else s) \<and>
     wi_memused wi' = (if online n then wrap64 (wi_memused wi + us_used (n_memory n)) else wi_memused wi) \<and>
     wi_memtotal wi' = (if online n then wrap64 (wi_memtotal wi + us_total (n_memory n)) else wi_memtotal wi)"
  by (simp add: count_node_def Let_def part_defs online_def)

text \<open>The sums of the loop over the nodes.\<close>

definition cpu_sum :: "node list \<Rightarrow> f64" where
  "cpu_sum ns = fold (\<lambda>n s. fadd s (percent (n_cpu n))) (filter online ns) (Fin 0)"

definition mem_sum :: "(usage \<Rightarrow> int) \<Rightarrow> node list \<Rightarrow> int" where
  "mem_sum f ns = sum_list (map (f \<circ> n_memory) (filter online ns))"

lemma node_loop:
  "case fold count_node ns (wi, s, k) of (wi', s', k') \<Rightarrow>
     guest_part wi' = guest_part wi \<and> disk_part wi' = disk_part wi \<and> wi_backups wi' = wi_backups wi \<and>
     wi_lastbackup wi' = wi_lastbackup wi \<and> wi_cpupct wi' = wi_cpupct wi \<and> wi_mempct wi' = wi_mempct wi \<and>
     wi_nodes wi' = wi_nodes wi + int (length ns) \<and> wi_online wi' = wi_online wi + howmany online ns \<and>
     wi_offline wi' = wi_offline wi + howmany (Not \<circ> online) ns \<and> k' = k + howmany online ns \<and>
     s' = fold (\<lambda>n s. fadd s (percent (n_cpu n))) (filter online ns) s \<and>
     (in_i64 (wi_memused wi) \<longrightarrow> wi_memused wi' = wrap64 (wi_memused wi + mem_sum us_used ns)) \<and>
     (in_i64 (wi_memtotal wi) \<longrightarrow> wi_memtotal wi' = wrap64 (wi_memtotal wi + mem_sum us_total ns))"
proof (induction ns arbitrary: wi s k)
  case (Cons n ns)
  obtain wi1 s1 k1 where e: "count_node n (wi, s, k) = (wi1, s1, k1)" by (metis prod_cases3)
  note st = node_step [where n = n and wi = wi and s = s and k = k, unfolded e prod.case]
  have w: "wrap64 (a + b) = wrap64 (wrap64 a + b)" for a b by simp
  from Cons.IH [where wi = wi1 and s = s1 and k = k1] st show ?case
    by (cases "online n") (auto simp: e howmany_def mem_sum_def split_beta add.assoc)
qed (simp add: howmany_def mem_sum_def)

section \<open>The counts\<close>

text \<open>The widget after each of the four loops.\<close>

lemma guest_loop: "node_part (fold count_guest gs wi) = node_part wi" "disk_part (fold count_guest gs wi) = disk_part wi"
  "wi_backups (fold count_guest gs wi) = wi_backups wi" "wi_lastbackup (fold count_guest gs wi) = wi_lastbackup wi"
  "guest_part (fold count_guest gs wi) = (wi_guests wi + int (length gs),
     wi_running wi + howmany (\<lambda>g. g_status g = ''running'') gs, wi_stopped wi + howmany (\<lambda>g. g_status g = ''stopped'') gs,
     wi_vms wi + howmany (\<lambda>g. g_type g = ''qemu'') gs, wi_lxc wi + howmany (\<lambda>g. g_type g = ''lxc'') gs)"
  by (induction gs arbitrary: wi) (simp_all add: guest_step howmany_def guest_part_def)

lemma disk_loop: "node_part (fold count_disk ds wi) = node_part wi" "guest_part (fold count_disk ds wi) = guest_part wi"
  "wi_backups (fold count_disk ds wi) = wi_backups wi" "wi_lastbackup (fold count_disk ds wi) = wi_lastbackup wi"
  "disk_part (fold count_disk ds wi) = (wi_disks wi + int (length ds),
     wi_passed wi + howmany (\<lambda>d. d_status d = StatusPassed) ds, wi_failed wi + howmany failed_disk ds,
     wi_warning wi + howmany warned_disk ds,
     wi_unknown wi + howmany (\<lambda>d. d_status d \<noteq> StatusPassed \<and> \<not> failed_disk d \<and> \<not> warned_disk d) ds)"
  by (induction ds arbitrary: wi) (simp_all add: disk_step howmany_def disk_part_def)

lemma backup_loop: "node_part (fold count_backup bs wi) = node_part wi" "guest_part (fold count_backup bs wi) = guest_part wi"
  "disk_part (fold count_backup bs wi) = disk_part wi" "wi_backups (fold count_backup bs wi) = wi_backups wi + int (length bs)"
  "wi_lastbackup (fold count_backup bs wi) = fold max (map b_time bs) (wi_lastbackup wi)"
  by (induction bs arbitrary: wi) (simp_all add: backup_step max.commute)

definition backup_part :: "widget \<Rightarrow> int \<times> int" where
  "backup_part wi = (wi_backups wi, wi_lastbackup wi)"

definition cpu_average :: "node list \<Rightarrow> f64" where
  "cpu_average ns = (if howmany online ns > 0 then fdiv (cpu_sum ns) (f64_of_int (howmany online ns)) else Fin 0)"

lemma count_nodes_parts:
  "guest_part (count_nodes m zero_widget) = (0, 0, 0, 0, 0)" "disk_part (count_nodes m zero_widget) = (0, 0, 0, 0, 0)"
  "wi_backups (count_nodes m zero_widget) = 0" "wi_lastbackup (count_nodes m zero_widget) = 0"
  "node_part (count_nodes m zero_widget) =
    (let ns = values2 m; used = wrap64 (mem_sum us_used ns); tot = wrap64 (mem_sum us_total ns)
     in (int (length ns), howmany online ns, howmany (Not \<circ> online) ns, cpu_average ns, used, tot,
         if tot > 0 then pct_of used tot else Fin 0))"
proof -
  obtain wi s k where e: "fold count_node (values2 m) (zero_widget, Fin 0, 0) = (wi, s, k)" by (metis prod_cases3)
  note st = node_loop [where ns = "values2 m" and wi = zero_widget and s = "Fin 0" and k = 0, unfolded e prod.case]
  have z: "wi_memused zero_widget = 0" "wi_memtotal zero_widget = 0" by (simp_all add: zero_widget_def)
  have c: "count_nodes m zero_widget =
      (let wi = (if k > 0 then wi\<lparr>wi_cpupct := fdiv s (f64_of_int k)\<rparr> else wi)
       in if wi_memtotal wi > 0 then wi\<lparr>wi_mempct := pct_of (wi_memused wi) (wi_memtotal wi)\<rparr> else wi)"
    by (simp add: count_nodes_def fold_values2 e)
  show "guest_part (count_nodes m zero_widget) = (0, 0, 0, 0, 0)" "disk_part (count_nodes m zero_widget) = (0, 0, 0, 0, 0)"
    "wi_backups (count_nodes m zero_widget) = 0" "wi_lastbackup (count_nodes m zero_widget) = 0"
    using st unfolding c by (simp_all add: Let_def part_defs zero_widget_def)
  show "node_part (count_nodes m zero_widget) =
    (let ns = values2 m; used = wrap64 (mem_sum us_used ns); tot = wrap64 (mem_sum us_total ns)
     in (int (length ns), howmany online ns, howmany (Not \<circ> online) ns, cpu_average ns, used, tot,
         if tot > 0 then pct_of used tot else Fin 0))"
    using st unfolding c
    by (simp add: Let_def node_part_def zero_widget_def cpu_average_def cpu_sum_def in_i64_def)
qed

lemma widget_parts:
  "node_part (widget_of snap) = node_part (count_nodes (c_nodes snap) zero_widget)"
  "guest_part (widget_of snap) =
    (let gs = values2 (c_guests snap)
     in (int (length gs), howmany (\<lambda>g. g_status g = ''running'') gs, howmany (\<lambda>g. g_status g = ''stopped'') gs,
         howmany (\<lambda>g. g_type g = ''qemu'') gs, howmany (\<lambda>g. g_type g = ''lxc'') gs))"
  "disk_part (widget_of snap) =
    (let ds = map snd (c_disks snap)
     in (int (length ds), howmany (\<lambda>d. d_status d = StatusPassed) ds, howmany failed_disk ds, howmany warned_disk ds,
         howmany (\<lambda>d. d_status d \<noteq> StatusPassed \<and> \<not> failed_disk d \<and> \<not> warned_disk d) ds))"
  "backup_part (widget_of snap) =
    (int (length (values2 (c_backups snap))), fold max (map b_time (values2 (c_backups snap))) 0)"
proof -
  let ?n = "count_nodes (c_nodes snap) zero_widget"
  have w: "widget_of snap = fold count_backup (values2 (c_backups snap)) (fold count_disk (map snd (c_disks snap))
      (fold count_guest (values2 (c_guests snap)) ?n))"
    by (simp add: widget_of_def Let_def fold_values2 fold_inner)
  have g: "wi_guests ?n = 0" "wi_running ?n = 0" "wi_stopped ?n = 0" "wi_vms ?n = 0" "wi_lxc ?n = 0"
    using count_nodes_parts(1) [of "c_nodes snap"] by (simp_all add: guest_part_def)
  have d: "disk_part (fold count_guest gs ?n) = (0, 0, 0, 0, 0)" for gs
    by (simp add: guest_loop count_nodes_parts)
  then have d: "wi_disks (fold count_guest gs ?n) = 0" "wi_passed (fold count_guest gs ?n) = 0"
      "wi_failed (fold count_guest gs ?n) = 0" "wi_warning (fold count_guest gs ?n) = 0"
      "wi_unknown (fold count_guest gs ?n) = 0" for gs
    unfolding disk_part_def by simp_all
  show "node_part (widget_of snap) = node_part ?n"
    "guest_part (widget_of snap) =
    (let gs = values2 (c_guests snap)
     in (int (length gs), howmany (\<lambda>g. g_status g = ''running'') gs, howmany (\<lambda>g. g_status g = ''stopped'') gs,
         howmany (\<lambda>g. g_type g = ''qemu'') gs, howmany (\<lambda>g. g_type g = ''lxc'') gs))"
    "disk_part (widget_of snap) =
    (let ds = map snd (c_disks snap)
     in (int (length ds), howmany (\<lambda>d. d_status d = StatusPassed) ds, howmany failed_disk ds, howmany warned_disk ds,
         howmany (\<lambda>d. d_status d \<noteq> StatusPassed \<and> \<not> failed_disk d \<and> \<not> warned_disk d) ds))"
    "backup_part (widget_of snap) =
    (int (length (values2 (c_backups snap))), fold max (map b_time (values2 (c_backups snap))) 0)"
    unfolding w by (simp_all add: Let_def backup_loop disk_loop guest_loop g d backup_part_def count_nodes_parts(3,4))
qed

lemma howmany_split: "howmany P xs + howmany (Not \<circ> P) xs = int (length xs)"
  by (induction xs) (simp_all add: howmany_def)

lemma howmany_disjoint: "(\<And>x. P x \<Longrightarrow> \<not> Q x) \<Longrightarrow> howmany P xs + howmany Q xs \<le> int (length xs)"
  by (induction xs) (auto simp: howmany_def)

lemma howmany_disks:
  "howmany (\<lambda>d. d_status d = StatusPassed) ds + howmany failed_disk ds + howmany warned_disk ds +
   howmany (\<lambda>d. d_status d \<noteq> StatusPassed \<and> \<not> failed_disk d \<and> \<not> warned_disk d) ds = int (length ds)"
  by (induction ds) (auto simp: howmany_def failed_disk_def warned_disk_def)

lemma fold_max: "fold max xs (a :: int) = Max (insert a (set xs))"
proof (induction xs arbitrary: a)
  case (Cons x xs)
  have "Max (insert (max x a) (set xs)) = Max (insert a (insert x (set xs)))"
    by (cases "set xs = {}") (auto simp: max.commute max.left_commute)
  with Cons.IH [of "max x a"] show ?case by simp
qed simp

text \<open>What the widget shows is what the snapshot holds, in whatever order Go ranges over its maps: each
  counter is the number of nodes, guests, disks or backups with that property, every node is online or
  offline, every disk is in exactly one class (failed before warning), and the last backup is the latest
  of all.\<close>

theorem widget_counts:
  "let wi = widget_of snap; ns = values2 (c_nodes snap); gs = values2 (c_guests snap); ds = map snd (c_disks snap);
       bs = values2 (c_backups snap)
   in wi_nodes wi = int (length ns) \<and> wi_online wi = howmany online ns \<and> wi_online wi + wi_offline wi = wi_nodes wi \<and>
      wi_guests wi = int (length gs) \<and> wi_running wi = howmany (\<lambda>g. g_status g = ''running'') gs \<and>
      wi_stopped wi = howmany (\<lambda>g. g_status g = ''stopped'') gs \<and> wi_running wi + wi_stopped wi \<le> wi_guests wi \<and>
      wi_vms wi + wi_lxc wi \<le> wi_guests wi \<and>
      wi_disks wi = int (length ds) \<and> wi_failed wi = howmany failed_disk ds \<and> wi_warning wi = howmany warned_disk ds \<and>
      wi_passed wi + wi_failed wi + wi_warning wi + wi_unknown wi = wi_disks wi \<and>
      wi_backups wi = int (length bs) \<and> wi_lastbackup wi = Max (insert 0 (b_time ` set bs))"
proof -
  have n: "wi_nodes (widget_of snap) = int (length (values2 (c_nodes snap)))"
    "wi_online (widget_of snap) = howmany online (values2 (c_nodes snap))"
    "wi_offline (widget_of snap) = howmany (Not \<circ> online) (values2 (c_nodes snap))"
    using widget_parts(1) [of snap] count_nodes_parts(5) [of "c_nodes snap"] by (simp_all add: node_part_def Let_def)
  note o = widget_parts(2-4) [of snap, unfolded guest_part_def disk_part_def backup_part_def Let_def prod.inject]
  show ?thesis
    using o howmany_split [of online "values2 (c_nodes snap)"] howmany_disks [of "map snd (c_disks snap)"]
      howmany_disjoint [of "\<lambda>g. g_status g = ''running''" "\<lambda>g. g_status g = ''stopped''" "values2 (c_guests snap)"]
      howmany_disjoint [of "\<lambda>g. g_type g = ''qemu''" "\<lambda>g. g_type g = ''lxc''" "values2 (c_guests snap)"]
    by (simp add: Let_def n fold_max)
qed

section \<open>The percentages\<close>

text \<open>A usage between 0 and 1, as a float.\<close>

definition unit_value :: "f64 \<Rightarrow> bool" where
  "unit_value x \<longleftrightarrow> finite_value x \<and> 0 \<le> val x \<and> val x \<le> 1"

lemma percent_range: "unit_value x \<Longrightarrow> \<exists>y. percent x = Fin y \<and> 0 \<le> y \<and> y \<le> 100"
proof -
  assume u: "unit_value x"
  then have x: "x = Fin (val x)" by (auto simp: unit_value_def intro: finite_val)
  have "\<exists>y. rnd (val x * 100) = Fin y \<and> 0 \<le> y \<and> y \<le> 100"
    using u by (intro rnd_between) (simp_all add: rnd_numeral unit_value_def)
  then show ?thesis by (subst x) (simp add: percent_def)
qed

lemma cpu_sum_range:
  "list_all (unit_value \<circ> n_cpu) ns \<Longrightarrow> \<exists>q. s = Fin q \<and> 0 \<le> q \<and> q \<le> of_int (100 * k) \<Longrightarrow> 0 \<le> k \<Longrightarrow>
    k + int (length ns) \<le> 2 ^ 46 \<Longrightarrow>
    \<exists>q. fold (\<lambda>n s. fadd s (percent (n_cpu n))) ns s = Fin q \<and> 0 \<le> q \<and> q \<le> of_int (100 * (k + int (length ns)))"
proof (induction ns arbitrary: s k)
  case (Cons n ns)
  from Cons.prems obtain q where q: "s = Fin q" "0 \<le> q" "q \<le> of_int (100 * k)" by blast
  from Cons.prems percent_range obtain y where y: "percent (n_cpu n) = Fin y" "0 \<le> y" "y \<le> 100" by fastforce
  have "rnd (of_int (100 * (k + 1))) = Fin (of_int (100 * (k + 1)))" using Cons.prems by (intro rnd_int_exact) simp
  then have "\<exists>c. rnd (q + y) = Fin c \<and> 0 \<le> c \<and> c \<le> of_int (100 * (k + 1))"
    using q y by (intro rnd_between) simp_all
  then have "\<exists>c. fadd s (percent (n_cpu n)) = Fin c \<and> 0 \<le> c \<and> c \<le> of_int (100 * (k + 1))" by (simp add: q y)
  from Cons.IH [OF _ this] Cons.prems show ?case by (simp add: algebra_simps)
qed simp

lemma cpu_average_range:
  assumes "list_all (\<lambda>n. online n \<longrightarrow> unit_value (n_cpu n)) ns" and "length ns \<le> 2 ^ 46"
  shows "\<exists>q. cpu_average ns = Fin q \<and> 0 \<le> q \<and> q \<le> 100"
proof (cases "howmany online ns > 0")
  case True
  let ?k = "howmany online ns"
  have l: "int (length ns) \<le> 2 ^ 46" using assms(2) by (metis of_nat_le_iff of_nat_numeral of_nat_power)
  have kl: "?k \<le> int (length ns)" by (simp add: howmany_def)
  have "list_all (unit_value \<circ> n_cpu) (filter online ns)" using assms(1) by (simp add: list_all_iff)
  then obtain q where q: "cpu_sum ns = Fin q" "0 \<le> q" "q \<le> of_int (100 * ?k)"
    using cpu_sum_range [of "filter online ns" "Fin 0" 0] order_trans [OF length_filter_le assms(2), of online]
    by (auto simp: cpu_sum_def howmany_def)
  have f: "f64_of_int ?k = Fin (of_int ?k)" using l kl True by (intro rnd_int_exact) simp
  have "q \<le> 100 * of_int ?k" using q(3) by simp
  then have "q / of_int ?k \<le> 100" using True by (simp add: divide_le_eq)
  then have "\<exists>c. rnd (q / of_int ?k) = Fin c \<and> 0 \<le> c \<and> c \<le> 100"
    using q True by (intro rnd_between) (simp_all add: rnd_numeral)
  then show ?thesis using True by (simp add: cpu_average_def q f)
qed (simp add: cpu_average_def)

text \<open>The memory of a node as the API reports it: no negative number, and no more used than there is.\<close>

definition plausible :: "usage \<Rightarrow> bool" where
  "plausible u \<longleftrightarrow> 0 \<le> us_used u \<and> us_used u \<le> us_total u"

lemma mem_sums: "list_all (\<lambda>n. online n \<longrightarrow> plausible (n_memory n)) ns \<Longrightarrow>
    0 \<le> mem_sum us_used ns \<and> mem_sum us_used ns \<le> mem_sum us_total ns"
  by (induction ns) (auto simp: mem_sum_def plausible_def)

text \<open>C31: the percentages of the widget are between 0 and 100, in spite of the roundings: the CPU average when
  every online node reports a usage between 0 and 1, the memory when every online node uses no more than it
  has and the sum of the memories is below 2^63 bytes; without an online node both are 0.\<close>

theorem widget_percentages:
  assumes "list_all (\<lambda>n. online n \<longrightarrow> unit_value (n_cpu n) \<and> plausible (n_memory n)) (values2 (c_nodes snap))"
    and "length (values2 (c_nodes snap)) \<le> 2 ^ 46" and "mem_sum us_total (values2 (c_nodes snap)) < 2 ^ 63"
  shows "\<exists>c m. wi_cpupct (widget_of snap) = Fin c \<and> 0 \<le> c \<and> c \<le> 100 \<and>
    wi_mempct (widget_of snap) = Fin m \<and> 0 \<le> m \<and> m \<le> 100 \<and>
    wi_memused (widget_of snap) = mem_sum us_used (values2 (c_nodes snap)) \<and>
    wi_memtotal (widget_of snap) = mem_sum us_total (values2 (c_nodes snap))"
proof -
  let ?ns = "values2 (c_nodes snap)"
  have a: "list_all (\<lambda>n. online n \<longrightarrow> unit_value (n_cpu n)) ?ns" "list_all (\<lambda>n. online n \<longrightarrow> plausible (n_memory n)) ?ns"
    using assms(1) by (simp_all add: list_all_iff)
  note m = mem_sums [OF a(2)]
  have w: "wrap64 (mem_sum us_used ?ns) = mem_sum us_used ?ns" "wrap64 (mem_sum us_total ?ns) = mem_sum us_total ?ns"
    and i: "in_i64 (mem_sum us_total ?ns)"
    using m assms(3) by (simp_all add: in_i64_def)
  have p: "wi_cpupct (widget_of snap) = cpu_average ?ns" "wi_memused (widget_of snap) = mem_sum us_used ?ns"
    "wi_memtotal (widget_of snap) = mem_sum us_total ?ns"
    "wi_mempct (widget_of snap) = (if mem_sum us_total ?ns > 0 then pct_of (mem_sum us_used ?ns) (mem_sum us_total ?ns) else Fin 0)"
    using widget_parts(1) [of snap] count_nodes_parts(5) [of "c_nodes snap"] by (simp_all add: node_part_def Let_def w)
  have "\<exists>q. wi_mempct (widget_of snap) = Fin q \<and> 0 \<le> q \<and> q \<le> 100"
    using m pct_of_range [of "mem_sum us_used ?ns" "mem_sum us_total ?ns"] i by (auto simp: p)
  with cpu_average_range [OF a(1) assms(2)] show ?thesis by (auto simp: p)
qed

definition sample_node :: node where
  "sample_node = \<lparr>n_instance = ''i'', n_name = ''n'', n_status = ''online'', n_cpu = Fin 1,
     n_cpuinfo = \<lparr>ci_model = [], ci_cores = 0, ci_threads = 0, ci_sockets = 0\<rparr>,
     n_memory = \<lparr>us_used = 1, us_total = 2\<rparr>, n_swap = \<lparr>us_used = 0, us_total = 0\<rparr>,
     n_rootfs = \<lparr>us_used = 0, us_total = 0\<rparr>, n_load = (Fin 0, Fin 0, Fin 0), n_uptime = 0, n_iowait = Fin 0,
     n_pveversion = [], n_kernel = [], n_temperature = None\<rparr>"

theorem widget_percentages_witness:
  "\<exists>c m. wi_cpupct (widget_of (cache_new\<lparr>c_nodes := [(''i'', [(''n'', sample_node)])]\<rparr>)) = Fin c \<and> c \<le> 100 \<and>
     wi_mempct (widget_of (cache_new\<lparr>c_nodes := [(''i'', [(''n'', sample_node)])]\<rparr>)) = Fin m \<and> m \<le> 100"
  using widget_percentages [of "cache_new\<lparr>c_nodes := [(''i'', [(''n'', sample_node)])]\<rparr>"]
  by (auto simp: values2_def sample_node_def unit_value_def finite_value_def val_def plausible_def mem_sum_def online_def)

end
