(* ===== verification/DevTools.thy ===== *)
theory DevTools
  imports GoJson GoDuration
begin

text \<open>
  The developer tools under \<open>scripts/\<close>: the coverage gate, which keeps a required percentage in a file and raises it
  when the coverage improves, the fuzz report and the benchmark report. A path is the list of its components, and the
  files are a partial map from paths to contents. What the \<open>go\<close> command does and prints, whether a
  write reaches the disk, \<open>os.Stat\<close>, and the conversion \<open>oor\<close> of an out-of-range \<open>float64\<close> are arguments.
\<close>

section \<open>Paths and files\<close>

type_synonym path = "string list"
type_synonym files = "path \<Rightarrow> string option"

text \<open>\<open>findProjectRoot\<close>: upwards from a directory to the one with the file \<open>go.mod\<close>. \<open>filepath.Dir\<close> of the proj is
  the root itself.\<close>

function project_root :: "(path \<Rightarrow> bool) \<Rightarrow> path \<Rightarrow> path option" where
  "project_root stat dir =
     (if stat (dir @ [''go.mod'']) then Some dir
      else if dir = [] then None
      else project_root stat (butlast dir))"
  by pat_completeness auto
termination
  by (relation "measure (\<lambda>(stat, dir). length dir)") auto

declare project_root.simps [simp del]

datatype write_outcome = Written | NotOpened | Partial string

fun after_write :: "write_outcome \<Rightarrow> path \<Rightarrow> string \<Rightarrow> files \<Rightarrow> files" where
  "after_write Written p s fs = fs(p \<mapsto> s)"
| "after_write NotOpened p s fs = fs"
| "after_write (Partial t) p s fs = fs(p \<mapsto> t)"

definition contains :: "string \<Rightarrow> string \<Rightarrow> bool" where
  "contains s t \<longleftrightarrow> (\<exists>i \<in> set [0..<Suc (length s)]. has_prefix (drop i s) t)"

section \<open>The coverage gate\<close>

definition keep_line :: "string \<Rightarrow> bool" where
  "keep_line line \<longleftrightarrow> has_prefix line ''mode:'' \<or> \<not> contains line ''_templ.go:''"

definition filter_profile :: "string \<Rightarrow> string" where
  "filter_profile s = str_join [nl] (filter keep_line (split_on nl s))"

datatype no_total = BadTotalLine string | BadPercentage string | TotalMissing

fun total_in_lines :: "(f64 \<Rightarrow> int) \<Rightarrow> string list \<Rightarrow> no_total + int" where
  "total_in_lines oor [] = Inl TotalMissing"
| "total_in_lines oor (line # ls) =
     (if has_prefix line ''total:'' then
        (let parts = str_fields line
         in if length parts < 3 then Inl (BadTotalLine line)
            else (let t = parts ! 2; c = (if has_suffix t ''%'' then butlast t else t)
                  in case ParseFloat c of Parsed f \<Rightarrow> Inr (f64_to_i64 oor f) | _ \<Rightarrow> Inl (BadPercentage c)))
      else total_in_lines oor ls)"

definition extractTotalCoverage :: "(f64 \<Rightarrow> int) \<Rightarrow> string \<Rightarrow> no_total + int" where
  "extractTotalCoverage oor out = total_in_lines oor (split_on nl out)"

record cover_env =
  ce_caller :: "path option"
  ce_stat :: "path \<Rightarrow> bool"
  ce_mkdir :: bool
  ce_read :: "path \<Rightarrow> bool"
  ce_write :: "path \<Rightarrow> write_outcome"
  ce_test :: "files \<Rightarrow> files \<times> bool"
  ce_func :: "files \<Rightarrow> string option"
  ce_html :: "files \<Rightarrow> files \<times> bool"
  ce_oor :: "f64 \<Rightarrow> int"

definition read_file :: "cover_env \<Rightarrow> files \<Rightarrow> path \<Rightarrow> string option" where
  "read_file e fs p = (if ce_read e p then fs p else None)"

definition readCoverageRequired :: "cover_env \<Rightarrow> files \<Rightarrow> path \<Rightarrow> int option" where
  "readCoverageRequired e fs p = (case read_file e fs p of None \<Rightarrow> None | Some s \<Rightarrow> atoi (trim_space s))"

definition required_text :: "int \<Rightarrow> string" where
  "required_text coverage = itoa coverage @ [nl]"

definition updateCoverageRequired :: "cover_env \<Rightarrow> path \<Rightarrow> int \<Rightarrow> files \<Rightarrow> files \<times> bool" where
  "updateCoverageRequired e p coverage fs =
     (after_write (ce_write e p) p (required_text coverage) fs, ce_write e p = Written)"

definition filterCoverageProfile :: "cover_env \<Rightarrow> path \<Rightarrow> path \<Rightarrow> files \<Rightarrow> files \<times> bool" where
  "filterCoverageProfile e src dst fs =
     (case read_file e fs src of
        None \<Rightarrow> (fs, False)
      | Some s \<Rightarrow> (after_write (ce_write e dst) dst (filter_profile s) fs, ce_write e dst = Written))"

datatype cover_exit = Passed | NoScriptDir | NoProjectRoot | NoReportDir | NoRequired | TestsFailed | NotFiltered
  | NoReport | NoTotal no_total | NotUpdated | TooLow int int

text \<open>\<open>main\<close>, and the paths it uses.\<close>

definition required_path :: "path \<Rightarrow> path" where
  "required_path scriptDir = scriptDir @ [''coverage_required.txt'']"

definition profile_path :: "path \<Rightarrow> path" where
  "profile_path proj = proj @ [''target'', ''reports'', ''coverage.out'']"

definition filtered_path :: "path \<Rightarrow> path" where
  "filtered_path proj = proj @ [''target'', ''reports'', ''coverage-filtered.out'']"

definition coverage_main :: "cover_env \<Rightarrow> files \<Rightarrow> files \<times> cover_exit" where
  "coverage_main e fs =
     (case ce_caller e of None \<Rightarrow> (fs, NoScriptDir) | Some file \<Rightarrow>
      let scriptDir = butlast file; req = required_path scriptDir in
      case project_root (ce_stat e) scriptDir of None \<Rightarrow> (fs, NoProjectRoot) | Some proj \<Rightarrow>
      if \<not> ce_mkdir e then (fs, NoReportDir) else
      case readCoverageRequired e fs req of None \<Rightarrow> (fs, NoRequired) | Some required \<Rightarrow>
      case ce_test e fs of (fs1, ok1) \<Rightarrow>
      if \<not> ok1 then (fs1, TestsFailed) else
      case filterCoverageProfile e (profile_path proj) (filtered_path proj) fs1 of (fs2, ok2) \<Rightarrow>
      if \<not> ok2 then (fs2, NotFiltered) else
      case ce_func e fs2 of None \<Rightarrow> (fs2, NoReport) | Some out \<Rightarrow>
      case extractTotalCoverage (ce_oor e) out of Inl x \<Rightarrow> (fs2, NoTotal x) | Inr total_cov \<Rightarrow>
      case (if total_cov > required then updateCoverageRequired e req total_cov fs2 else (fs2, True)) of (fs3, ok3) \<Rightarrow>
      if \<not> ok3 then (fs3, NotUpdated)
      else if total_cov < required then (fs3, TooLow total_cov required)
      else (fst (ce_html e fs3), Passed))"

section \<open>The fuzz report\<close>

record fuzz_target =
  ft_function :: string
  ft_package :: string

definition fuzzTargets :: "fuzz_target list" where
  "fuzzTargets = map (\<lambda>(f, p). \<lparr>ft_function = f, ft_package = p\<rparr>)
     [(''FuzzFormatBytes'', ''./templates/''), (''FuzzBackupIDMatchesVMID'', ''./templates/''),
      (''FuzzParseATAAttributes'', ''./internal/smart/''), (''FuzzParseSCSIText'', ''./internal/smart/''),
      (''FuzzParseNVMeText'', ''./internal/smart/''), (''FuzzParseSensorsJSON'', ''./internal/collector/''),
      (''FuzzExpandEnvVars'', ''./internal/config/''), (''FuzzParseNodeStatus'', ''./internal/collector/''),
      (''FuzzParseLoadAvg'', ''./internal/collector/''), (''FuzzParseSMARTResponse'', ''./internal/collector/''),
      (''FuzzParseGuestList'', ''./internal/collector/''), (''FuzzParsePBSDatastoreUsage'', ''./internal/collector/''),
      (''FuzzParsePBSSnapshots'', ''./internal/collector/''), (''FuzzParsePBSTasks'', ''./internal/collector/'')]"

record fuzz_result =
  fr_target :: fuzz_target
  fr_duration :: duration
  fr_execs :: int
  fr_rate :: int
  fr_new :: int
  fr_passed :: bool
  fr_output :: string

text \<open>The two regular expressions: \<open>\s\<close> is one of five bytes and \<open>\d\<close> a digit, so that a match at a position is
  the longest one; the first position that matches counts.\<close>

definition re_space :: "char \<Rightarrow> bool" where
  "re_space c \<longleftrightarrow> c \<in> {CHR 0x09, CHR 0x0A, CHR 0x0C, CHR 0x0D, CHR 0x20}"

definition re_lit :: "string \<Rightarrow> string \<Rightarrow> string option" where
  "re_lit l s = (if has_prefix s l then Some (drop (length l) s) else None)"

definition re_many :: "(char \<Rightarrow> bool) \<Rightarrow> string \<Rightarrow> (string \<times> string) option" where
  "re_many P s = (let m = takeWhile P s in if m = [] then None else Some (m, dropWhile P s))"

definition match_execs :: "string \<Rightarrow> (string \<times> string) option" where
  "match_execs s = do {
     s1 \<leftarrow> re_lit ''execs:'' s; (_, s2) \<leftarrow> re_many re_space s1; (m, s3) \<leftarrow> re_many is_digit s2;
     (_, s4) \<leftarrow> re_many re_space s3; s5 \<leftarrow> re_lit ''('' s4; (r, s6) \<leftarrow> re_many is_digit s5;
     _ \<leftarrow> re_lit ''/sec)'' s6; Some (m, r) }"

definition match_new :: "string \<Rightarrow> string option" where
  "match_new s = do {
     s1 \<leftarrow> re_lit ''new interesting:'' s; (_, s2) \<leftarrow> re_many re_space s1; (m, _) \<leftarrow> re_many is_digit s2; Some m }"

fun search :: "(string \<Rightarrow> 'a option) \<Rightarrow> string \<Rightarrow> 'a option" where
  "search m [] = m []"
| "search m (c # cs) = (case m (c # cs) of Some x \<Rightarrow> Some x | None \<Rightarrow> search m cs)"

text \<open>\<open>ParseInt\<close> with the error ignored: of digits that do not fit it returns the largest number.\<close>

definition int_or_max :: "string \<Rightarrow> int" where
  "int_or_max ds = (case atoi ds of Some i \<Rightarrow> i | None \<Rightarrow> max_i64)"

definition fuzz_stats :: "string \<Rightarrow> int \<times> int \<times> int" where
  "fuzz_stats output =
     (case find (\<lambda>line. has_prefix line ''fuzz: elapsed:'') (rev (split_on nl output)) of
        None \<Rightarrow> (0, 0, 0)
      | Some line \<Rightarrow>
          (let (execs, rate) = (case search match_execs line of
                 Some (m, r) \<Rightarrow> (int_or_max m, int_or_max r) | None \<Rightarrow> (0, 0));
               newi = (case search match_new line of Some m \<Rightarrow> int_or_max m | None \<Rightarrow> 0)
           in (execs, rate, newi)))"

definition fuzz_passed :: "bool \<Rightarrow> string \<Rightarrow> bool" where
  "fuzz_passed ok output \<longleftrightarrow> ok \<or>
     contains output ''context deadline exceeded'' \<and> \<not> contains output ''Failing input written to''"

record cmd_result =
  cr_output :: string
  cr_ok :: bool
  cr_took :: duration

definition fuzz_args :: "fuzz_target \<Rightarrow> string \<Rightarrow> string list" where
  "fuzz_args t fuzzTime = [''test'', ''-fuzz='' @ ft_function t, ''-fuzztime='' @ fuzzTime, ft_package t]"

definition runFuzz :: "(string list \<Rightarrow> cmd_result) \<Rightarrow> string \<Rightarrow> fuzz_target \<Rightarrow> fuzz_result" where
  "runFuzz go fuzzTime t =
     (let r = go (fuzz_args t fuzzTime); (execs, rate, newi) = fuzz_stats (cr_output r)
      in \<lparr>fr_target = t, fr_duration = cr_took r, fr_execs = execs, fr_rate = rate, fr_new = newi,
          fr_passed = fuzz_passed (cr_ok r) (cr_output r), fr_output = cr_output r\<rparr>)"

text \<open>\<open>%-Nd\<close> and \<open>%Nd\<close> of \<open>fmt\<close>, for ASCII text, and \<open>Duration.Round\<close>.\<close>

definition rpad :: "nat \<Rightarrow> string \<Rightarrow> string" where
  "rpad w s = s @ replicate (w - length s) CHR 0x20"

definition lpad :: "nat \<Rightarrow> string \<Rightarrow> string" where
  "lpad w s = replicate (w - length s) CHR 0x20 @ s"

definition round_ms :: "duration \<Rightarrow> duration" where
  "round_ms d =
     (let m = 1000000; r = \<bar>d\<bar> mod m
      in if d < 0 then (if r + r < m then d + r else if in_i64 (d - m + r) then d - m + r else min_i64)
         else (if r + r < m then d - r else if in_i64 (d + m - r) then d + m - r else max_i64))"

definition verdict :: "fuzz_result \<Rightarrow> string" where
  "verdict r = (if fr_passed r then ''PASS'' else ''FAIL'')"

definition out_line :: "string \<Rightarrow> string" where
  "out_line s = s @ [nl]"

definition summary_line :: "fuzz_result \<Rightarrow> string" where
  "summary_line r = out_line (''  '' @ rpad 40 (ft_function (fr_target r)) @ ''  '' @ rpad 4 (verdict r) @ ''  '' @
     lpad 12 (itoa (fr_execs r)) @ ''  '' @ itoa (fr_new r))"

definition detail :: "fuzz_result \<Rightarrow> string" where
  "detail r =
     out_line (''['' @ verdict r @ ''] '' @ ft_function (fr_target r)) @
     out_line (''  Package:         '' @ ft_package (fr_target r)) @
     out_line (''  Duration:        '' @ duration_string (round_ms (fr_duration r))) @
     out_line (''  Total Execs:     '' @ itoa (fr_execs r)) @
     out_line (''  Execs/sec:       '' @ itoa (fr_rate r)) @
     out_line (''  New Interesting: '' @ itoa (fr_new r)) @
     out_line [] @ out_line ''  Output:'' @
     concat (map (\<lambda>l. out_line (''    '' @ l)) (split_on nl (trim_right_byte nl (fr_output r)))) @ out_line []"

definition count_failures :: "fuzz_result list \<Rightarrow> int" where
  "count_failures rs = fold (\<lambda>r n. if fr_passed r then n else n + 1) rs 0"

definition total_execs :: "fuzz_result list \<Rightarrow> int" where
  "total_execs rs = fold (\<lambda>r n. wrap64 (n + fr_execs r)) rs 0"

record report_head =
  rh_stamp :: string
  rh_gover :: string
  rh_os :: string
  rh_arch :: string

definition buildReport :: "report_head \<Rightarrow> string \<Rightarrow> fuzz_result list \<Rightarrow> string" where
  "buildReport h fuzzTime results =
     (let sep = out_line (replicate 72 (CHR ''='')); thin = out_line (replicate 72 (CHR ''-''))
      in out_line ''Glint Fuzz Testing Report'' @ sep @
         out_line (''Generated:   '' @ rh_stamp h) @ out_line (''Go Version:  '' @ rh_gover h) @
         out_line (''OS/Arch:     '' @ rh_os h @ ''/'' @ rh_arch h) @
         out_line (''Fuzz Time:   '' @ fuzzTime @ '' per target'') @ sep @ out_line [] @
         out_line ''Summary'' @ thin @
         out_line (''  '' @ rpad 40 ''Target'' @ ''  '' @ rpad 4 ''Status'' @ ''  '' @ lpad 12 ''Execs'' @ ''  New Corpus'') @ thin @
         concat (map summary_line results) @ thin @
         out_line (''  Total executions: '' @ itoa (total_execs results)) @
         (if count_failures results > 0 then out_line (''  FAILED targets:   '' @ itoa (count_failures results))
          else out_line ''  All targets passed.'') @ out_line [] @
         out_line ''Detailed Output'' @ sep @ out_line [] @ concat (map detail results))"

record tool_env =
  te_caller :: "path option"
  te_stat :: "path \<Rightarrow> bool"
  te_mkdir :: bool
  te_env :: "string \<Rightarrow> string"
  te_go :: "string list \<Rightarrow> cmd_result"
  te_write :: "path \<Rightarrow> write_outcome"
  te_stamp :: string
  te_os :: string
  te_arch :: string

datatype tool_exit = ToolPassed | ToolFailed | ToolNoRoot | ToolNoReportDir | ToolNotWritten

definition captureGoVersion :: "tool_env \<Rightarrow> string" where
  "captureGoVersion e = (let r = te_go e [''version''] in if cr_ok r then trim_space (cr_output r) else ''unknown'')"

definition tool_root :: "tool_env \<Rightarrow> path option" where
  "tool_root e = (case te_caller e of None \<Rightarrow> None | Some file \<Rightarrow> project_root (te_stat e) (butlast file))"

definition report_path :: "path \<Rightarrow> string \<Rightarrow> path" where
  "report_path proj name = proj @ [''target'', ''reports'', name]"

definition report_head_of :: "tool_env \<Rightarrow> report_head" where
  "report_head_of e = \<lparr>rh_stamp = te_stamp e, rh_gover = captureGoVersion e, rh_os = te_os e, rh_arch = te_arch e\<rparr>"

definition setting :: "tool_env \<Rightarrow> string \<Rightarrow> string \<Rightarrow> string" where
  "setting e var dflt = (if te_env e var = [] then dflt else te_env e var)"

definition fuzz_main :: "tool_env \<Rightarrow> files \<Rightarrow> files \<times> tool_exit" where
  "fuzz_main e fs =
     (case tool_root e of None \<Rightarrow> (fs, ToolNoRoot) | Some proj \<Rightarrow>
      if \<not> te_mkdir e then (fs, ToolNoReportDir) else
      let fuzzTime = setting e ''FUZZ_TIME'' ''30s'';
          results = map (runFuzz (te_go e) fuzzTime) fuzzTargets;
          p = report_path proj ''fuzz.txt'';
          fs1 = after_write (te_write e p) p (buildReport (report_head_of e) fuzzTime results) fs
      in if te_write e p \<noteq> Written then (fs1, ToolNotWritten)
         else if count_failures results > 0 then (fs1, ToolFailed) else (fs1, ToolPassed))"

section \<open>The benchmark report\<close>

definition bench_args :: "string \<Rightarrow> string list" where
  "bench_args benchTime = [''test'', ''-bench=.'', ''-benchmem'', ''-benchtime='' @ benchTime, ''-run=^$'', ''./...'']"

definition bench_report :: "report_head \<Rightarrow> string \<Rightarrow> string \<Rightarrow> string option \<Rightarrow> string" where
  "bench_report h benchTime output err =
     (let sep = out_line (replicate 72 (CHR ''=''))
      in out_line ''Glint Benchmark Report'' @ sep @
         out_line (''Generated:      '' @ rh_stamp h) @ out_line (''Go Version:     '' @ rh_gover h) @
         out_line (''OS/Arch:        '' @ rh_os h @ ''/'' @ rh_arch h) @
         out_line (''Benchmark Time: '' @ benchTime @ '' per benchmark'') @ sep @ out_line [] @ output @
         (case err of None \<Rightarrow> [] | Some x \<Rightarrow> nl # out_line (''[ERROR] '' @ x)))"

definition bench_main :: "tool_env \<Rightarrow> (string list \<Rightarrow> string) \<Rightarrow> files \<Rightarrow> files \<times> tool_exit" where
  "bench_main e errtext fs =
     (case tool_root e of None \<Rightarrow> (fs, ToolNoRoot) | Some proj \<Rightarrow>
      if \<not> te_mkdir e then (fs, ToolNoReportDir) else
      let benchTime = setting e ''BENCH_TIME'' ''3s'';
          r = te_go e (bench_args benchTime);
          err = (if cr_ok r then None else Some (errtext (bench_args benchTime)));
          p = report_path proj ''bench.txt'';
          fs1 = after_write (te_write e p) p (bench_report (report_head_of e) benchTime (cr_output r) err) fs
      in if te_write e p \<noteq> Written then (fs1, ToolNotWritten)
         else if \<not> cr_ok r then (fs1, ToolFailed) else (fs1, ToolPassed))"

section \<open>The required percentage\<close>

lemma project_root_nearest:
  "project_root stat dir = Some proj \<Longrightarrow>
    stat (proj @ [''go.mod'']) \<and> (\<exists>rest. dir = proj @ rest \<and>
      (\<forall>a b. rest = a @ b \<longrightarrow> a \<noteq> [] \<longrightarrow> \<not> stat (proj @ a @ [''go.mod''])))"
proof (induction stat dir rule: project_root.induct)
  case (1 stat dir)
  show ?case
  proof (cases "stat (dir @ [''go.mod''])")
    case True
    with 1(2) show ?thesis by (simp add: project_root.simps [of stat dir])
  next
    case False
    with 1(2) have ne: "dir \<noteq> []" and r: "project_root stat (butlast dir) = Some proj"
      by (auto simp: project_root.simps [of stat dir] split: if_splits)
    from 1(1) [OF False ne r] obtain rest where s: "stat (proj @ [''go.mod''])" and d: "butlast dir = proj @ rest"
      and n: "\<And>a b. rest = a @ b \<Longrightarrow> a \<noteq> [] \<Longrightarrow> \<not> stat (proj @ a @ [''go.mod''])" by blast
    have dir: "dir = proj @ rest @ [last dir]" using append_butlast_last_id [OF ne] d by simp
    have "\<not> stat (proj @ a @ [''go.mod''])" if "rest @ [last dir] = a @ b" "a \<noteq> []" for a b
    proof (cases b rule: rev_exhaust)
      case Nil
      with that False dir show ?thesis by simp
    next
      case (snoc c x)
      with that n [of a c] show ?thesis by simp
    qed
    with s dir show ?thesis by blast
  qed
qed

lemma atoi_required_text: "in_i64 n \<Longrightarrow> atoi (trim_space (required_text n)) = Some n"
proof -
  assume n: "in_i64 n"
  have ne: "itoa n \<noteq> []" by (simp add: itoa_def)
  have p: "printable x" if "x \<in> set (itoa n)" for x
    using that digits10_digits printable_digit by (auto simp: itoa_def printable_def split: if_splits)
  have "trim_left spaces (itoa n @ [nl]) = itoa n @ [nl]"
    using ne p by (cases "itoa n") (simp_all add: trim_left_printable)
  moreover have "trim_left (map rev spaces) (nl # s) = trim_left (map rev spaces) s" for s
  proof -
    have "space_len (map rev spaces) (nl # s) = 1"
      by (simp add: space_len_def spaces_def has_prefix_def nl_def)
    then show ?thesis by (subst trim_left.simps) simp
  qed
  moreover have "trim_left (map rev spaces) (rev (itoa n)) = rev (itoa n)"
    using ne p [of "last (itoa n)"] by (cases "itoa n" rule: rev_cases) (simp_all add: trim_left_printable)
  ultimately have "trim_space (required_text n) = itoa n"
    by (simp add: trim_space_def required_text_def)
  with n show ?thesis by (simp add: atoi_itoa)
qed

lemma total_in_range: "(\<And>f. in_i64 (oor f)) \<Longrightarrow> extractTotalCoverage oor out = Inr n \<Longrightarrow> in_i64 n"
proof -
  assume o: "\<And>f. in_i64 (oor f)"
  then have "in_i64 (f64_to_i64 oor f)" for f by (cases f) (simp_all add: f64_to_i64_def)
  then have "total_in_lines oor ls = Inr n \<Longrightarrow> in_i64 n" for ls
    by (induction ls) (auto simp: Let_def split: if_splits float_result.splits)
  then show "extractTotalCoverage oor out = Inr n \<Longrightarrow> in_i64 n" by (simp add: extractTotalCoverage_def)
qed

text \<open>What a run does to the file of the required percentage, when the \<open>go\<close> command leaves it alone.\<close>

definition leaves_alone :: "cover_env \<Rightarrow> path \<Rightarrow> bool" where
  "leaves_alone e p \<longleftrightarrow> (\<forall>fs. fst (ce_test e fs) p = fs p \<and> fst (ce_html e fs) p = fs p)"

lemma filtered_elsewhere: "required_path d \<noteq> filtered_path proj" and required_no_profile: "required_path d \<noteq> profile_path proj"
  by (simp_all add: required_path_def filtered_path_def profile_path_def append_eq_append_conv2 Cons_eq_append_conv)

lemma after_write_other [simp]: "p \<noteq> q \<Longrightarrow> after_write w q s fs p = fs p"
  by (cases w) simp_all

lemma filter_leaves: "fst (filterCoverageProfile e src (filtered_path proj) fs) (required_path d) = fs (required_path d)"
  using filtered_elsewhere [of d proj] by (simp add: filterCoverageProfile_def split: option.split)

text \<open>A run either stops before the coverage is known, and the file is as before, or compares the two numbers.\<close>

lemma coverage_run:
  assumes main: "coverage_main e fs = (fs', r)" and caller: "ce_caller e = Some src"
    and p: "p = required_path (butlast src)" and alone: "leaves_alone e p"
  obtains (stopped) "fs' p = fs p" and "r \<noteq> Passed" and "r \<noteq> NotUpdated" and "\<And>t q. r \<noteq> TooLow t q"
  | (compared) q t fs2 out where "readCoverageRequired e fs p = Some q" and "ce_func e fs2 = Some out"
      and "extractTotalCoverage (ce_oor e) out = Inr t"
      and "(fs' p, r) = (if t > q then (after_write (ce_write e p) p (required_text t) fs p,
          if ce_write e p = Written then Passed else NotUpdated)
        else (fs p, if t < q then TooLow t q else Passed))"
proof -
  have l: "fst (ce_test e x) p = x p" "fst (ce_html e x) p = x p" for x using alone by (simp_all add: leaves_alone_def)
  define filt where "filt = (\<lambda>proj. filterCoverageProfile e (profile_path proj) (filtered_path proj) (fst (ce_test e fs)))"
  then have fd: "filterCoverageProfile e (profile_path proj) (filtered_path proj) (fst (ce_test e fs)) = filt proj" for proj
    by simp
  have k: "fst (filt proj) p = fs p" for proj
    using filter_leaves [of e "profile_path proj" proj "fst (ce_test e fs)" "butlast src"] l by (simp add: p fd)
  have w: "after_write o1 p s (fst (filt proj)) p = after_write o1 p s fs p" for o1 s proj
    using k by (cases o1) simp_all
  note m = main [unfolded coverage_main_def caller option.case Let_def p [symmetric] case_prod_unfold fd]
  show thesis
  proof (cases "\<exists>proj q out t. project_root (ce_stat e) (butlast src) = Some proj \<and> ce_mkdir e \<and>
      readCoverageRequired e fs p = Some q \<and> snd (ce_test e fs) \<and> snd (filt proj) \<and>
      ce_func e (fst (filt proj)) = Some out \<and> extractTotalCoverage (ce_oor e) out = Inr t")
    case True
    then obtain proj q out t where c: "project_root (ce_stat e) (butlast src) = Some proj" "ce_mkdir e"
      "readCoverageRequired e fs p = Some q" "snd (ce_test e fs)" "snd (filt proj)"
      "ce_func e (fst (filt proj)) = Some out" "extractTotalCoverage (ce_oor e) out = Inr t" by blast
    have "(fs' p, r) = (if t > q then (after_write (ce_write e p) p (required_text t) fs p,
          if ce_write e p = Written then Passed else NotUpdated)
        else (fs p, if t < q then TooLow t q else Passed))"
      using m by (auto simp: c updateCoverageRequired_def l k w split: if_splits)
    with c show thesis by (intro compared)
  next
    case False
    with m show thesis by (intro stopped) (auto simp: l k split: option.splits if_splits sum.splits)
  qed
qed

section \<open>Reading the percentage\<close>

definition tab :: char where
  "tab = CHR 0x09"

lemma fields_word: "list_all printable w \<Longrightarrow> fields_aux acc (w @ s) = fields_aux (rev w @ acc) s"
  by (induction w arbitrary: acc) (simp_all add: space_len_printable)

lemma fields_tab: "fields_aux acc (tab # s) = (if acc = [] then [] else [rev acc]) @ fields_aux [] s"
proof -
  have "space_len spaces (tab # s) = 1" by (simp add: space_len_def spaces_def has_prefix_def tab_def)
  then show ?thesis by simp
qed

lemma fields_three:
  assumes "list_all printable a" "list_all printable b" "list_all printable c" "a \<noteq> []" "b \<noteq> []" "c \<noteq> []"
  shows "str_fields (a @ tab # b @ tab # c) = [a, b, c]"
  using assms fields_word [OF assms(3), of "[]" "[]"]
  unfolding str_fields_def by (simp add: fields_word fields_tab del: fields_aux.simps(2))

text \<open>A percentage with one decimal, as \<open>go tool cover\<close> prints it.\<close>

definition percent_text :: "nat \<Rightarrow> nat \<Rightarrow> string" where
  "percent_text n d = digits10 n @ CHR ''.'' # [digit_char d]"

lemma percent_value:
  assumes "n \<le> 1000" and "d < 10"
  shows "\<exists>c. ParseFloat (percent_text n d) = Parsed (Fin c) \<and> of_nat n \<le> c \<and> c < of_nat n + 1"
proof -
  have "digits_val 10 0 (digits10 n @ [digit_char d]) = Some (10 * n + d)"
    using assms by (simp add: digits_val_append digits_val_digits10 digit_val_digit_char mult.commute)
  then have f: "ParseFloat (percent_text n d) =
      (let f = rnd (of_nat (10 * n + d) * pow10 (- 1)) in if f = PInf \<or> f = NInf then OutOfRange f else Parsed f)"
    unfolding percent_text_def using assms(2)
    by (subst ParseFloat_decimal [OF digits10_all]) (simp_all del: of_nat_add of_nat_mult)
  have q: "of_nat (10 * n + d) * pow10 (- 1) = of_nat n + of_nat d / (10 :: rat)" by (simp add: pow10_def field_simps)
  have lo: "rnd (of_nat n) = Fin (of_nat n)" using rnd_int_exact [of "int n"] assms(1) by simp
  have e: "of_nat n + 15 / 16 = (of_int (16 * int n + 15) :: rat) * p2 (- 4)" by (simp add: p2_def field_simps)
  have "representable (of_nat n + 15 / 16)"
    unfolding representable_def e by (rule exI [of _ "16 * int n + 15"], rule exI [of _ "- 4"]) (use assms(1) in simp)
  moreover have "\<bar>of_nat n + 15 / 16 :: rat\<bar> \<le> 2 ^ 64"
  proof -
    have "(of_nat n :: rat) \<le> 1000" using assms(1) by (metis of_nat_le_iff of_nat_numeral)
    then show ?thesis by simp
  qed
  ultimately have hi: "rnd (of_nat n + 15 / 16) = Fin (of_nat n + 15 / 16)" by (intro rnd_exact small_bound)
  have "(of_nat d :: rat) \<le> 9" using assms(2) using of_nat_le_iff [of d 9, where 'a = rat] by simp
  then obtain c where "rnd (of_nat n + of_nat d / 10) = Fin c" "of_nat n \<le> c" "c \<le> of_nat n + 15 / 16"
    using rnd_between [OF lo hi, of "of_nat n + of_nat d / 10"] by auto
  then show ?thesis unfolding f q Let_def by auto
qed

lemma total_after: "list_all (\<lambda>l. \<not> has_prefix l ''total:'') ls \<Longrightarrow> total_in_lines oor (ls @ rest) = total_in_lines oor rest"
  by (induction ls) simp_all

lemma percent_no: "c \<in> set (percent_text n d) \<Longrightarrow> d < 10 \<Longrightarrow> printable c"
  using digits10_digits printable_digit by (auto simp: percent_text_def printable_digit printable_def)

lemma total_line:
  assumes "n \<le> 1000" and "d < 10"
  shows "total_in_lines oor ((''total:'' @ tab # ''(statements)'' @ tab # percent_text n d @ ''%'') # rest) = Inr (int n)"
proof -
  have "list_all printable (percent_text n d @ ''%'')"
    using percent_no [OF _ assms(2)] by (auto simp: list_all_iff printable_def)
  then have fs: "str_fields (''total:'' @ tab # ''(statements)'' @ tab # percent_text n d @ ''%'') =
      [''total:'', ''(statements)'', percent_text n d @ ''%'']"
    by (intro fields_three) (simp_all add: printable_def)
  from percent_value [OF assms] obtain c where c: "ParseFloat (percent_text n d) = Parsed (Fin c)"
    "of_nat n \<le> c" "c < of_nat n + 1" by blast
  have "\<lfloor>c\<rfloor> = int n" using c(2,3) by (intro floor_unique) simp_all
  moreover have "0 \<le> c" using c(2) order_trans [OF of_nat_0_le_iff] by blast
  ultimately have "f64_to_i64 oor (Fin c) = int n"
    using assms(1) by (simp add: f64_to_i64_def trunc_rat_def in_i64_def)
  moreover have "has_suffix (percent_text n d @ ''%'') ''%''" by (simp add: has_suffix_def)
  ultimately show ?thesis
    unfolding total_in_lines.simps fs Let_def has_prefix_append by (simp add: c(1) has_prefix_def)
qed

text \<open>What the coverage gate reads from the report of \<open>go tool cover\<close>: whatever lines come before, the total
  of the line that starts with \<open>total:\<close>, with the decimal cut off (93.9 counts as 93), through the text, the parser
  of floating-point numbers and the conversion to an integer.\<close>

theorem coverage_reading:
  assumes "n \<le> 1000" and "d < 10" and "\<forall>l \<in> set ls. nl \<notin> set l \<and> \<not> has_prefix l ''total:''"
  shows "extractTotalCoverage oor (str_join [nl] (ls @
      [''total:'' @ tab # ''(statements)'' @ tab # percent_text n d @ ''%'', []])) = Inr (int n)"
proof -
  let ?t = "''total:'' @ tab # ''(statements)'' @ tab # percent_text n d @ ''%''"
  have "nl \<notin> set (percent_text n d)" using percent_no [OF _ assms(2), of nl n] by (auto simp: printable_def nl_def)
  then have "nl \<notin> set ?t" by (simp add: nl_def tab_def)
  then have "split_on nl (str_join [nl] (ls @ [?t, []])) = ls @ [?t, []]"
    using assms(3) by (intro split_on_join) auto
  moreover have "total_in_lines oor (ls @ [?t, []]) = Inr (int n)"
    using assms(3) total_after [of ls oor "[?t, []]"] total_line [OF assms(1,2)] by (simp add: list_all_iff)
  ultimately show ?thesis unfolding extractTotalCoverage_def by simp
qed

theorem coverage_reading_witness:
  "extractTotalCoverage (\<lambda>_. 0) (str_join [nl] [''m.go:3:'' @ tab # ''F'', ''total:'' @ tab # ''(statements)'' @ tab # ''93.9%'', []])
    = Inr 93"
proof -
  have "percent_text 93 9 = ''93.9''" by code_simp
  then show ?thesis
    using coverage_reading [of 93 9 "[''m.go:3:'' @ tab # ''F'']" "\<lambda>_. 0"]
    by (simp add: tab_def nl_def has_prefix_def)
qed

section \<open>The gate and its ratchet\<close>

definition required_of :: "files \<Rightarrow> path \<Rightarrow> int option" where
  "required_of fs p = (case fs p of None \<Rightarrow> None | Some s \<Rightarrow> atoi (trim_space s))"

text \<open>A run from the script of this path in which no write stops half way.\<close>

definition sound_run :: "path \<Rightarrow> cover_env \<Rightarrow> bool" where
  "sound_run p e \<longleftrightarrow> (case ce_caller e of None \<Rightarrow> True | Some src \<Rightarrow> required_path (butlast src) = p) \<and> leaves_alone e p \<and>
     (case ce_write e p of Partial s \<Rightarrow> False | _ \<Rightarrow> True) \<and> (\<forall>f. in_i64 (ce_oor e f))"

lemma ratchet_step:
  assumes "sound_run p e" and "required_of fs p = Some n"
  shows "\<exists>n'. n \<le> n' \<and> required_of (fst (coverage_main e fs)) p = Some n'"
proof (cases "ce_caller e")
  case None
  with assms(2) show ?thesis by (simp add: coverage_main_def)
next
  case (Some src)
  obtain fs' r where m: "coverage_main e fs = (fs', r)" by (cases "coverage_main e fs")
  have p: "p = required_path (butlast src)" and a: "leaves_alone e p" using assms(1) Some by (simp_all add: sound_run_def)
  from m Some p a show ?thesis
  proof (cases rule: coverage_run)
    case stopped
    with assms(2) m show ?thesis by (simp add: required_of_def)
  next
    case (compared q t fs2 out)
    have "q = n" using compared(1) assms(2)
      by (auto simp: readCoverageRequired_def read_file_def required_of_def split: if_splits option.splits)
    moreover have "in_i64 t" using assms(1) compared(3) total_in_range by (auto simp: sound_run_def)
    ultimately show ?thesis using compared(4) assms m
      by (cases "ce_write e p") (auto simp: sound_run_def required_of_def atoi_required_text split: if_splits)
  qed
qed

text \<open>A sample: 90 percent are required and the tests reach 93.4.\<close>

definition sample_cover :: cover_env where
  "sample_cover = \<lparr>ce_caller = Some [''g'', ''main.go''], ce_stat = (\<lambda>p. p = [''go.mod'']), ce_mkdir = True,
     ce_read = \<lambda>_. True, ce_write = \<lambda>_. Written, ce_test = (\<lambda>fs. (fs(profile_path [] \<mapsto> ''mode: set''), True)),
     ce_func = \<lambda>_. Some (str_join [nl] [''total:'' @ tab # ''(statements)'' @ tab # percent_text 93 4 @ ''%'', []]),
     ce_html = (\<lambda>fs. (fs, True)), ce_oor = \<lambda>_. 0\<rparr>"

definition sample_required :: path where
  "sample_required = [''g'', ''coverage_required.txt'']"

definition sample_files :: files where
  "sample_files = [sample_required \<mapsto> required_text 90]"

lemma sample_facts:
  "ce_caller sample_cover = Some [''g'', ''main.go'']" "required_path (butlast [''g'', ''main.go'']) = sample_required"
  "leaves_alone sample_cover sample_required" "sound_run sample_required sample_cover"
  "required_of sample_files sample_required = Some 90"
  by (simp_all add: sample_cover_def required_path_def sample_required_def leaves_alone_def profile_path_def sound_run_def
      required_of_def sample_files_def atoi_required_text in_i64_def)

lemma sample_read: "extractTotalCoverage oor (str_join [nl] [''total:'' @ tab # ''(statements)'' @ tab # percent_text 93 4 @ ''%'', []])
    = Inr 93"
proof -
  let ?t = "''total:'' @ tab # ''(statements)'' @ tab # percent_text 93 4 @ ''%''"
  have "nl \<notin> set ?t" using percent_no [of nl 93 4] by (auto simp: printable_def nl_def tab_def)
  then have "split_on nl (str_join [nl] [?t, []]) = [?t, []]" by (intro split_on_join) auto
  then show ?thesis unfolding extractTotalCoverage_def using total_line [of 93 4 oor "[[]]"] by simp
qed

lemma sample_run: "\<exists>fs'. coverage_main sample_cover sample_files = (fs', Passed)"
proof -
  have r: "project_root (ce_stat sample_cover) [''g''] = Some []"
    by (simp add: project_root.simps [of _ "[''g'']"] project_root.simps [of _ "[]"] sample_cover_def)
  have q: "readCoverageRequired sample_cover sample_files sample_required = Some 90"
    using sample_facts(5) by (simp add: readCoverageRequired_def read_file_def required_of_def sample_cover_def)
  have t: "ce_func sample_cover x =
      Some (str_join [nl] [''total:'' @ tab # ''(statements)'' @ tab # percent_text 93 4 @ ''%'', []])" for x
    by (simp add: sample_cover_def)
  have f: "snd (filterCoverageProfile sample_cover (profile_path []) d (x(profile_path [] \<mapsto> s)))" for d x s
    by (simp add: filterCoverageProfile_def read_file_def sample_cover_def)
  show ?thesis
    unfolding coverage_main_def sample_facts(1) option.case Let_def sample_facts(2)
    using r q f
    by (simp add: t sample_read [simplified] case_prod_unfold updateCoverageRequired_def)
      (simp add: sample_cover_def)
qed

text \<open>C37: the ratchet. Over any sequence of runs of the coverage tool, passing or failing at any point, the
  required percentage in its file is always a number and never becomes smaller, as long as the \<open>go\<close> command does not touch
  the file and a write either happens or does not.\<close>

theorem coverage_ratchet:
  assumes "\<forall>e \<in> set es. sound_run p e" and "required_of fs p = Some n"
  shows "\<exists>n'. n \<le> n' \<and> required_of (fold (\<lambda>e fs. fst (coverage_main e fs)) es fs) p = Some n'"
  using assms
proof (induction es arbitrary: fs n)
  case (Cons e es)
  from Cons.prems ratchet_step obtain k where k: "n \<le> k" "required_of (fst (coverage_main e fs)) p = Some k"
    by (metis list.set_intros(1))
  from Cons.IH [OF _ k(2)] Cons.prems(1) k(1) show ?case by fastforce
qed simp

theorem coverage_ratchet_witness:
  "\<exists>n'. 90 \<le> n' \<and> required_of (fold (\<lambda>e fs. fst (coverage_main e fs)) [sample_cover, sample_cover] sample_files) sample_required = Some n'"
  using coverage_ratchet [of "[sample_cover, sample_cover]" sample_required sample_files 90] sample_facts by simp

text \<open>The gate. A run that ends well has read a required percentage and a total from the filtered profile that is at
  least as high, and leaves in the file the higher of the two.\<close>

theorem coverage_gate:
  assumes "coverage_main e fs = (fs', Passed)" and "ce_caller e = Some src" and "leaves_alone e (required_path (butlast src))"
  shows "\<exists>q t fs2 out. readCoverageRequired e fs (required_path (butlast src)) = Some q \<and> ce_func e fs2 = Some out \<and>
      extractTotalCoverage (ce_oor e) out = Inr t \<and> q \<le> t \<and>
      fs' (required_path (butlast src)) = (if q < t then Some (required_text t) else fs (required_path (butlast src)))"
  using assms(1,2) refl assms(3)
proof (cases rule: coverage_run)
  case (compared q t fs2 out)
  then show ?thesis by (auto split: if_splits intro!: exI [of _ q] exI [of _ t])
qed simp_all

theorem coverage_gate_witness:
  "\<exists>fs'. coverage_main sample_cover sample_files = (fs', Passed) \<and> fs' sample_required = Some (required_text 93)"
proof -
  obtain fs' where r: "coverage_main sample_cover sample_files = (fs', Passed)" using sample_run by blast
  have q: "readCoverageRequired sample_cover sample_files sample_required = Some 90"
    using sample_facts(5) by (simp add: readCoverageRequired_def read_file_def required_of_def sample_cover_def)
  have t: "ce_func sample_cover x =
      Some (str_join [nl] [''total:'' @ tab # ''(statements)'' @ tab # percent_text 93 4 @ ''%'', []])" for x
    by (simp add: sample_cover_def)
  have "fs' sample_required = Some (required_text 93)"
    using coverage_gate [OF r sample_facts(1), unfolded sample_facts(2), OF sample_facts(3)] q
    by (auto simp: t sample_read [simplified])
  with r show ?thesis by blast
qed

section \<open>The filtered profile\<close>

text \<open>The filter of the coverage profile keeps exactly the lines that do not come from a generated template
  file, in their order, and filtering twice is filtering once.\<close>

theorem filtered_lines:
  "split_on nl (filter_profile s) = (case filter keep_line (split_on nl s) of [] \<Rightarrow> [[]] | kept \<Rightarrow> kept) \<and>
   filter_profile (filter_profile s) = filter_profile s"
proof -
  let ?k = "filter keep_line (split_on nl s)"
  have "\<forall>l \<in> set ?k. nl \<notin> set l" using split_on_parts [of _ nl s] by auto
  then have l: "split_on nl (filter_profile s) = (case ?k of [] \<Rightarrow> [[]] | kept \<Rightarrow> kept)"
    unfolding filter_profile_def by (cases ?k) (simp, simp only: list.case, rule split_on_join, simp_all)
  have "keep_line []" by (simp add: keep_line_def contains_def has_prefix_def)
  then have "filter keep_line (case ?k of [] \<Rightarrow> [[]] | kept \<Rightarrow> kept) = (case ?k of [] \<Rightarrow> [[]] | kept \<Rightarrow> kept)"
  proof -
    have "filter keep_line ?k = ?k" by simp
    with \<open>keep_line []\<close> show ?thesis by (cases ?k) (simp_all only: list.case filter.simps if_True)
  qed
  then have "filter_profile (filter_profile s) = str_join [nl] (case ?k of [] \<Rightarrow> [[]] | kept \<Rightarrow> kept)"
    by (simp add: filter_profile_def [of "filter_profile s"] l)
  also have "\<dots> = filter_profile s" by (cases ?k) (simp_all add: filter_profile_def)
  finally show ?thesis using l by blast
qed

section \<open>The fuzz report\<close>

lemma failures_count: "count_failures rs = int (length (filter (\<lambda>r. \<not> fr_passed r) rs))"
proof -
  have "fold (\<lambda>r n. if fr_passed r then n else n + 1) rs k = k + int (length (filter (\<lambda>r. \<not> fr_passed r) rs))" for k
    by (induction rs arbitrary: k) simp_all
  then show ?thesis by (simp add: count_failures_def)
qed

text \<open>The verdict of the fuzz tool. It ends well exactly when every target's command succeeded or printed that a
  deadline passed without a failing input; otherwise it fails, and in both cases the report is on the disk.\<close>

theorem fuzz_gate:
  "case fuzz_main e fs of (fs', r) \<Rightarrow>
     let runs = map (\<lambda>t. te_go e (fuzz_args t (setting e ''FUZZ_TIME'' ''30s''))) fuzzTargets in
     case r of
       ToolPassed \<Rightarrow> list_all (\<lambda>c. fuzz_passed (cr_ok c) (cr_output c)) runs \<and> (\<exists>p report. fs' = fs(p \<mapsto> report))
     | ToolFailed \<Rightarrow> list_ex (\<lambda>c. \<not> fuzz_passed (cr_ok c) (cr_output c)) runs \<and> (\<exists>p report. fs' = fs(p \<mapsto> report))
     | ToolNoRoot \<Rightarrow> tool_root e = None \<and> fs' = fs
     | ToolNoReportDir \<Rightarrow> \<not> te_mkdir e \<and> fs' = fs
     | ToolNotWritten \<Rightarrow> True"
proof -
  let ?t = "setting e ''FUZZ_TIME'' ''30s''"
  have p: "fr_passed (runFuzz (te_go e) ?t t) \<longleftrightarrow> (let c = te_go e (fuzz_args t ?t) in fuzz_passed (cr_ok c) (cr_output c))" for t
    by (simp add: runFuzz_def Let_def case_prod_unfold)
  have "count_failures (map (runFuzz (te_go e) ?t) fuzzTargets) > 0 \<longleftrightarrow>
      list_ex (\<lambda>c. \<not> fuzz_passed (cr_ok c) (cr_output c)) (map (\<lambda>t. te_go e (fuzz_args t ?t)) fuzzTargets)"
    unfolding failures_count by (auto simp: p Let_def list_ex_iff filter_empty_conv)
  moreover define bad where "bad = (count_failures (map (runFuzz (te_go e) ?t) fuzzTargets) > 0)"
  ultimately have b: "bad \<longleftrightarrow> list_ex (\<lambda>c. \<not> fuzz_passed (cr_ok c) (cr_output c))
      (map (\<lambda>t. te_go e (fuzz_args t ?t)) fuzzTargets)" by simp
  then have g: "\<not> bad \<longleftrightarrow> list_all (\<lambda>c. fuzz_passed (cr_ok c) (cr_output c))
      (map (\<lambda>t. te_go e (fuzz_args t ?t)) fuzzTargets)" by (simp add: list_all_iff list_ex_iff)
  have w: "\<exists>p report. fs(q \<mapsto> x) = fs(p \<mapsto> report)" for q x by blast
  show ?thesis
    unfolding fuzz_main_def Let_def bad_def [symmetric] b [symmetric] g [symmetric]
    by (cases "tool_root e"; cases "te_mkdir e"; cases bad) (simp_all add: w split: if_split)
qed

end
