(* ===== verification/Lifecycle.thy ===== *)
theory Lifecycle
  imports Wiring
begin

text \<open>
  Starting and stopping: the last part of \<open>main\<close> in \<open>cmd/glint/main.go\<close>, the loops of the goroutines it starts
  (\<open>Run\<close> of the collectors, the pruner, the alerter and the HTTP server) and their group. A loop is in a round or
  waits for its ticker and for the context; the context of the group ends with the first signal or with the first error
  that a goroutine returns, and main waits for the signal, then for the group. What a round does to the shared state is
  the subject of \<open>Concurrent\<close>. From outside come the ticks, the signals, whether listening fails, and whether
  \<open>Shutdown\<close> reports an error within its five seconds; the group is the documented behaviour of \<open>errgroup\<close>.
  A program with a negative interval, which validation lets pass (\<open>running_intervals\<close> in \<open>Wiring\<close>), is out of scope here:
  \<open>time.NewTicker\<close> panics on it after the first poll, and a panic outside the HTTP handlers ends the process at once.
\<close>

datatype life_error = Canceled | ServeFailed | ShutdownFailed

text \<open>Where a goroutine is; \<open>ServeEnded\<close> is a server whose error lies in the channel.\<close>

datatype member = Polling | Idle | Serving | ServeEnded | Draining | Returned "life_error option"

text \<open>Where main is: at \<open><-sigCtx.Done()\<close>, at \<open>g.Wait()\<close>, or at its end, with the fatal error it has logged.\<close>

datatype main_at = AwaitSignal | AwaitGroup | Ended "life_error option" | Killed

record life =
  lf_signal :: bool
  lf_cancelled :: bool
  lf_members :: "member list"
  lf_err :: "life_error option"
  lf_main :: main_at

text \<open>A collector and the pruner start with a round, the alerter waits for its first tick.\<close>

definition members_of :: "program \<Rightarrow> member list" where
  "members_of g = replicate (length (pg_pve g) + length (pg_temps g) + length (pg_pbs g)) Polling @ [Polling, Idle, Serving]"

definition up :: "program \<Rightarrow> life" where
  "up g = \<lparr>lf_signal = False, lf_cancelled = False, lf_members = members_of g, lf_err = None, lf_main = AwaitSignal\<rparr>"

definition ctx_done :: "life \<Rightarrow> bool" where
  "ctx_done s \<longleftrightarrow> lf_signal s \<or> lf_cancelled s"

definition alive :: "life \<Rightarrow> bool" where
  "alive s \<longleftrightarrow> lf_main s = AwaitSignal \<or> lf_main s = AwaitGroup"

definition move :: "nat \<Rightarrow> member \<Rightarrow> life \<Rightarrow> life" where
  "move i m s = s\<lparr>lf_members := (lf_members s)[i := m]\<rparr>"

text \<open>A goroutine of the group returns: its error counts and cancels the context when it is the first one.\<close>

definition leave :: "nat \<Rightarrow> life_error option \<Rightarrow> life \<Rightarrow> life" where
  "leave i e s = s\<lparr>lf_members := (lf_members s)[i := Returned e],
     lf_err := (if lf_err s = None then e else lf_err s), lf_cancelled := lf_cancelled s \<or> e \<noteq> None\<rparr>"

definition stands :: "life \<Rightarrow> nat \<Rightarrow> member \<Rightarrow> bool" where
  "stands s i m \<longleftrightarrow> i < length (lf_members s) \<and> lf_members s ! i = m"

fun returned :: "member \<Rightarrow> bool" where
  "returned (Returned e) = True"
| "returned m = False"

definition fatal :: "life_error option \<Rightarrow> life_error option" where
  "fatal e = (if e = Some Canceled then None else e)"

text \<open>The ticks are a relation of their own, since only they can go on for ever. A ready ticker may win against a
  context that is done.\<close>

inductive tick :: "life \<Rightarrow> life \<Rightarrow> bool" where
  tick: "alive s \<Longrightarrow> stands s i Idle \<Longrightarrow> tick s (move i Polling s)"

inductive signal :: "life \<Rightarrow> life \<Rightarrow> bool" where
  first_signal: "alive s \<Longrightarrow> \<not> lf_signal s \<Longrightarrow> signal s (s\<lparr>lf_signal := True\<rparr>)"
| early_signal: "lf_main s = AwaitSignal \<Longrightarrow> lf_signal s \<Longrightarrow> signal s s"
| second_signal: "lf_main s = AwaitGroup \<Longrightarrow> signal s (s\<lparr>lf_main := Killed\<rparr>)"

inductive work :: "life \<Rightarrow> life \<Rightarrow> bool" where
  round_end: "alive s \<Longrightarrow> stands s i Polling \<Longrightarrow> work s (move i Idle s)"
| loop_stop: "alive s \<Longrightarrow> stands s i Idle \<Longrightarrow> ctx_done s \<Longrightarrow> work s (leave i (Some Canceled) s)"
| serve_end: "alive s \<Longrightarrow> stands s i Serving \<Longrightarrow> work s (move i ServeEnded s)"
| serve_error: "alive s \<Longrightarrow> stands s i ServeEnded \<Longrightarrow> work s (leave i (Some ServeFailed) s)"
| drain: "alive s \<Longrightarrow> stands s i m \<Longrightarrow> m = Serving \<or> m = ServeEnded \<Longrightarrow> ctx_done s \<Longrightarrow> work s (move i Draining s)"
| drained: "alive s \<Longrightarrow> stands s i Draining \<Longrightarrow> e = None \<or> e = Some ShutdownFailed \<Longrightarrow> work s (leave i e s)"
| main_wakes: "lf_main s = AwaitSignal \<Longrightarrow> lf_signal s \<Longrightarrow> work s (s\<lparr>lf_main := AwaitGroup\<rparr>)"
| main_ends: "lf_main s = AwaitGroup \<Longrightarrow> list_all returned (lf_members s) \<Longrightarrow>
    work s (s\<lparr>lf_main := Ended (fatal (lf_err s))\<rparr>)"

definition life_step :: "life \<Rightarrow> life \<Rightarrow> bool" where
  "life_step s s' \<longleftrightarrow> tick s s' \<or> signal s s' \<or> work s s'"

definition life_reach :: "program \<Rightarrow> life \<Rightarrow> bool" where
  "life_reach g s \<longleftrightarrow> life_step\<^sup>*\<^sup>* (up g) s"

inductive_simps tick_iff: "tick s s'"
inductive_simps signal_iff: "signal s s'"
inductive_cases workE: "work s s'"

section \<open>The invariant\<close>

text \<open>Main leaves its first wait only after a signal; the context of the group is cancelled exactly when there is a first
  error; nobody has returned while the context is not done; without a signal the first error is the server's; and main
  has ended only when all have returned.\<close>

definition life_inv :: "life \<Rightarrow> bool" where
  "life_inv s \<longleftrightarrow> (lf_main s \<noteq> AwaitSignal \<longrightarrow> lf_signal s) \<and> (lf_cancelled s \<longleftrightarrow> lf_err s \<noteq> None) \<and>
     (list_ex (\<lambda>m. returned m \<or> m = Draining) (lf_members s) \<longrightarrow> ctx_done s) \<and>
     (\<not> lf_signal s \<longrightarrow> lf_err s = None \<or> lf_err s = Some ServeFailed) \<and>
     (\<forall>r. lf_main s = Ended r \<longrightarrow> list_all returned (lf_members s) \<and> r = fatal (lf_err s))"

lemma list_ex_update: "list_ex P (xs[i := x]) \<Longrightarrow> list_ex P xs \<or> P x"
  by (auto simp: list_ex_iff dest!: set_update_subset_insert [THEN subsetD])

lemma life_invI:
  assumes "lf_main s \<noteq> AwaitSignal \<Longrightarrow> lf_signal s" and "lf_cancelled s \<longleftrightarrow> lf_err s \<noteq> None"
    and "list_ex (\<lambda>m. returned m \<or> m = Draining) (lf_members s) \<Longrightarrow> ctx_done s"
    and "\<not> lf_signal s \<Longrightarrow> lf_err s = None \<or> lf_err s = Some ServeFailed"
    and "\<And>r. lf_main s = Ended r \<Longrightarrow> list_all returned (lf_members s) \<and> r = fatal (lf_err s)"
  shows "life_inv s"
  using assms unfolding life_inv_def by blast

lemma life_invD:
  assumes "life_inv s"
  shows "lf_main s \<noteq> AwaitSignal \<Longrightarrow> lf_signal s" and "lf_cancelled s \<longleftrightarrow> lf_err s \<noteq> None"
    and "list_ex (\<lambda>m. returned m \<or> m = Draining) (lf_members s) \<Longrightarrow> ctx_done s"
    and "\<not> lf_signal s \<Longrightarrow> lf_err s = None \<or> lf_err s = Some ServeFailed"
    and "lf_main s = Ended r \<Longrightarrow> list_all returned (lf_members s) \<and> r = fatal (lf_err s)"
  using assms unfolding life_inv_def by blast+

lemma leave_sel [simp]:
  "lf_signal (leave i e s) = lf_signal s" "lf_main (leave i e s) = lf_main s"
  "lf_cancelled (leave i e s) \<longleftrightarrow> lf_cancelled s \<or> e \<noteq> None" "lf_err (leave i e s) = (if lf_err s = None then e else lf_err s)"
  "lf_members (leave i e s) = (lf_members s)[i := Returned e]"
  by (simp_all add: leave_def)

lemma move_sel [simp]:
  "lf_signal (move i m s) = lf_signal s" "lf_main (move i m s) = lf_main s" "lf_cancelled (move i m s) = lf_cancelled s"
  "lf_err (move i m s) = lf_err s" "lf_members (move i m s) = (lf_members s)[i := m]"
  by (simp_all add: move_def)

lemma leave_inv: "life_inv s \<Longrightarrow> alive s \<Longrightarrow> ctx_done s \<or> e = Some ServeFailed \<Longrightarrow> life_inv (leave i e s)"
  by (rule life_invI) (auto simp: ctx_done_def alive_def dest: life_invD)

lemma move_inv: "life_inv s \<Longrightarrow> alive s \<Longrightarrow> returned m \<or> m = Draining \<longrightarrow> ctx_done s \<Longrightarrow> life_inv (move i m s)"
  by (rule life_invI) (auto simp: ctx_done_def alive_def dest: life_invD list_ex_update)

lemma signal_inv: "life_inv s \<Longrightarrow> signal s s' \<Longrightarrow> life_inv s'"
  by (erule signal.cases; hypsubst) (auto intro!: life_invI simp: ctx_done_def dest: life_invD)

lemma main_inv: "life_inv s \<Longrightarrow> lf_signal s \<Longrightarrow> life_inv (s\<lparr>lf_main := AwaitGroup\<rparr>)"
  "life_inv s \<Longrightarrow> lf_signal s \<Longrightarrow> list_all returned (lf_members s) \<Longrightarrow> life_inv (s\<lparr>lf_main := Ended (fatal (lf_err s))\<rparr>)"
  by (auto intro!: life_invI simp: ctx_done_def dest: life_invD)

lemma draining_done: "life_inv s \<Longrightarrow> stands s i Draining \<Longrightarrow> ctx_done s"
  by (metis (mono_tags, lifting) life_inv_def list_ex_iff nth_mem stands_def)

lemma life_step_inv: "life_step s s' \<Longrightarrow> life_inv s \<Longrightarrow> life_inv s'"
  unfolding life_step_def
proof (elim disjE)
  assume "work s s'" and "life_inv s"
  then show "life_inv s'"
  proof (induction rule: work.induct)
    case (drained s i e)
    then show ?case by (intro leave_inv) (simp_all add: draining_done)
  next
    case (main_ends s)
    then show ?case by (intro main_inv(2)) (simp_all add: life_invD(1))
  qed (simp_all add: leave_inv move_inv main_inv)
next
  assume "tick s s'" and "life_inv s"
  then show "life_inv s'" by (cases rule: tick.cases) (simp add: move_inv)
qed (rule signal_inv)

lemma life_reach_inv: "life_reach g s \<Longrightarrow> life_inv s"
  unfolding life_reach_def
proof (induction rule: rtranclp_induct)
  case base
  show ?case by (simp add: life_inv_def up_def members_of_def list_ex_iff)
qed (rule life_step_inv)

section \<open>How much work is left\<close>

fun effort :: "member \<Rightarrow> nat" where
  "effort Polling = 2"
| "effort Idle = 1"
| "effort Serving = 3"
| "effort ServeEnded = 2"
| "effort Draining = 1"
| "effort (Returned e) = 0"

definition effort_left :: "life \<Rightarrow> nat" where
  "effort_left s = sum_list (map effort (lf_members s)) +
     (case lf_main s of AwaitSignal \<Rightarrow> 2 | AwaitGroup \<Rightarrow> 1 | _ \<Rightarrow> 0)"

lemma effort_update: "i < length ms \<Longrightarrow> effort m < effort (ms ! i) \<Longrightarrow>
    sum_list (map effort (ms[i := m])) < sum_list (map effort ms)"
proof (induction ms arbitrary: i)
  case (Cons x ms)
  then show ?case by (cases i) auto
qed simp

lemma work_shrinks: "work s s' \<Longrightarrow> effort_left s' < effort_left s"
  by (induction rule: work.induct) (auto simp: effort_left_def stands_def effort_update)

lemma work_keeps: "work s s' \<Longrightarrow> life_inv s \<Longrightarrow> life_inv s' \<and> lf_signal s' = lf_signal s \<and> (ctx_done s \<longrightarrow> ctx_done s')"
proof -
  assume w: "work s s'" and i: "life_inv s"
  from w have "lf_signal s' = lf_signal s \<and> (ctx_done s \<longrightarrow> ctx_done s')"
    by (induction rule: work.induct) (auto simp: ctx_done_def)
  with w i show ?thesis by (simp add: life_step_inv [of s s'] life_step_def)
qed

text \<open>Once the context is done, whoever has not returned can go on.\<close>

lemma member_works:
  assumes "alive s" and "ctx_done s" and "\<not> list_all returned (lf_members s)"
  shows "\<exists>s'. work s s'"
proof -
  obtain i where i: "i < length (lf_members s)" "\<not> returned (lf_members s ! i)"
    using assms(3) by (auto simp: list_all_length)
  then have a: "stands s i (lf_members s ! i)" by (simp add: stands_def)
  show ?thesis
  proof (cases "lf_members s ! i")
    case Polling
    with a show ?thesis using work.round_end assms(1) by metis
  next
    case Idle
    with a show ?thesis using work.loop_stop assms(1,2) by metis
  next
    case Draining
    with a show ?thesis using work.drained assms(1) by metis
  qed (use a i assms(1,2) work.drain in \<open>auto; metis\<close>)+
qed

lemma works_until:
  assumes "life_inv s" and "alive s" and "ctx_done s"
  shows "\<exists>z. work\<^sup>*\<^sup>* s z \<and> life_inv z \<and> lf_signal z = lf_signal s \<and> list_all returned (lf_members z) \<and>
    (if lf_signal s then \<exists>r. lf_main z = Ended r else lf_main z = AwaitSignal)"
  using assms
proof (induction "effort_left s" arbitrary: s rule: less_induct)
  case less
  have go: ?case if w: "work s s'" and a: "alive s'" for s'
    using less.hyps [OF work_shrinks [OF w] _ a] work_keeps [OF w less.prems(1)] less.prems(3) w
    by (metis converse_rtranclp_into_rtranclp)
  consider (member) "\<not> list_all returned (lf_members s)" | (stuck) "list_all returned (lf_members s)" "\<not> lf_signal s"
    | (wake) "list_all returned (lf_members s)" "lf_signal s" "lf_main s = AwaitSignal"
    | (over) "list_all returned (lf_members s)" "lf_signal s" "lf_main s = AwaitGroup"
    using less.prems(2) by (auto simp: alive_def)
  then show ?case
  proof cases
    case member
    from member_works [OF less.prems(2,3) member] obtain s' where w: "work s s'" by blast
    have "alive s'" using w member by (cases rule: work.cases) (auto simp: alive_def)
    with go w show ?thesis by blast
  next
    case stuck
    then have "lf_main s = AwaitSignal" using life_invD(1) [OF less.prems(1)] by blast
    with stuck less.prems(1) show ?thesis by (intro exI [of _ s]) simp
  next
    case wake
    then have "work s (s\<lparr>lf_main := AwaitGroup\<rparr>)" by (intro work.main_wakes)
    then show ?thesis by (rule go) (simp add: alive_def)
  next
    case over
    let ?z = "s\<lparr>lf_main := Ended (fatal (lf_err s))\<rparr>"
    have w: "work s ?z" using over by (intro work.main_ends)
    have "life_inv ?z" using over less.prems(1) by (intro main_inv(2))
    with w over show ?thesis by (intro exI [of _ ?z]) auto
  qed
qed

lemma work_step: "work\<^sup>*\<^sup>* s z \<Longrightarrow> life_step\<^sup>*\<^sup>* s z"
  by (erule rtranclp_mono [THEN predicate2D, rotated]) (simp add: life_step_def le_fun_def)

lemma work_bound: "(work ^^ k) s s' \<Longrightarrow> effort_left s' + k \<le> effort_left s"
proof (induction k arbitrary: s')
  case (Suc k)
  then obtain y where "(work ^^ k) s y" "work y s'" by auto
  with Suc.IH [of y] work_shrinks [of y s'] show ?case by simp
qed simp

lemma first_error_stays: "work\<^sup>*\<^sup>* s z \<Longrightarrow> lf_err s \<noteq> None \<Longrightarrow> lf_err z \<noteq> None"
  by (induction rule: rtranclp_induct) (auto elim!: work.cases)

lemma signalled:
  assumes "main_run m fl = Running g out"
  shows "life_reach g ((up g)\<lparr>lf_signal := True\<rparr>)" and "alive ((up g)\<lparr>lf_signal := True\<rparr>)"
proof -
  show "alive ((up g)\<lparr>lf_signal := True\<rparr>)" by (simp add: alive_def up_def)
  have "life_step (up g) ((up g)\<lparr>lf_signal := True\<rparr>)" by (simp add: life_step_def signal_iff up_def alive_def)
  then show "life_reach g ((up g)\<lparr>lf_signal := True\<rparr>)" by (auto simp: life_reach_def)
qed

section \<open>Stopping\<close>

text \<open>C32: after a signal the program stops, from wherever it is: by steps of its own, without another tick or signal, every
  goroutine returns and main ends; and there is no endless run of such steps, their number is bounded by
  two per loop and three for the server and main.\<close>

theorem shutdown_completes:
  assumes "life_reach g s" and "lf_signal s" and "alive s"
  shows "(\<exists>z r. work\<^sup>*\<^sup>* s z \<and> lf_main z = Ended r \<and> list_all returned (lf_members z)) \<and>
    (\<forall>k z. (work ^^ k) s z \<longrightarrow> k \<le> effort_left s)"
proof -
  have "ctx_done s" using assms(2) by (simp add: ctx_done_def)
  from works_until [OF life_reach_inv [OF assms(1)] assms(3) this] assms(2)
  have "\<exists>z r. work\<^sup>*\<^sup>* s z \<and> lf_main z = Ended r \<and> list_all returned (lf_members z)" by auto
  moreover have "k \<le> effort_left s" if "(work ^^ k) s z" for k z
    using work_bound [OF that] by simp
  ultimately show ?thesis by blast
qed

theorem shutdown_completes_witness:
  "\<exists>g out z r. main_run sample_main sample_flags = Running g out \<and> work\<^sup>*\<^sup>* ((up g)\<lparr>lf_signal := True\<rparr>) z \<and> lf_main z = Ended r"
proof -
  obtain g out where r: "main_run sample_main sample_flags = Running g out" by (rule sample_runs)
  from shutdown_completes [OF signalled(1) [OF r] _ signalled(2) [OF r]] r show ?thesis by auto
qed

text \<open>Main ends only after a signal, when every goroutine has returned, and what it then logs as fatal is the first error
  that a goroutine returned, unless that is the cancellation.\<close>

theorem orderly_end:
  assumes "life_reach g s" and "lf_main s = Ended r"
  shows "lf_signal s \<and> list_all returned (lf_members s) \<and> r = (case lf_err s of Some Canceled \<Rightarrow> None | e \<Rightarrow> e)"
  using life_invD(1,5) [OF life_reach_inv [OF assms(1)]] assms(2)
  by (auto simp: fatal_def split: option.split life_error.split)

theorem orderly_end_witness:
  "\<exists>g out z r. main_run sample_main sample_flags = Running g out \<and> life_reach g z \<and> lf_main z = Ended r \<and>
    lf_signal z \<and> list_all returned (lf_members z)"
proof -
  obtain g out where r: "main_run sample_main sample_flags = Running g out" by (rule sample_runs)
  note s = signalled [OF r]
  have "ctx_done ((up g)\<lparr>lf_signal := True\<rparr>)" by (simp add: ctx_done_def)
  from works_until [OF life_reach_inv [OF s(1)] s(2) this] obtain z x where
    z: "work\<^sup>*\<^sup>* ((up g)\<lparr>lf_signal := True\<rparr>) z" "lf_main z = Ended x" by auto
  have "life_reach g z" using s(1) work_step [OF z(1)] unfolding life_reach_def by (rule rtranclp_trans)
  with orderly_end [OF this z(2)] z(2) r show ?thesis by blast
qed

text \<open>C26: when the HTTP server cannot listen and nobody sends a signal, the program neither serves nor ends: every goroutine
  stops, pollers and alerter included, while main goes on waiting for a signal, and nothing else
  can ever happen.\<close>

theorem serve_failure_hangs:
  assumes "life_reach g s" and "\<not> lf_signal s" and "ServeEnded \<in> set (lf_members s) \<or> lf_err s \<noteq> None"
  shows "\<exists>z. work\<^sup>*\<^sup>* s z \<and> lf_main z = AwaitSignal \<and> list_all returned (lf_members z) \<and> lf_err z = Some ServeFailed \<and>
    (\<forall>z'. life_step z z' \<longleftrightarrow> z' = z\<lparr>lf_signal := True\<rparr>)"
proof -
  have i: "life_inv s" by (rule life_reach_inv [OF assms(1)])
  have m: "lf_main s = AwaitSignal" using life_invD(1) [OF i] assms(2) by blast
  then have a: "alive s" by (simp add: alive_def)
  have "\<exists>y. work\<^sup>*\<^sup>* s y \<and> life_inv y \<and> alive y \<and> lf_err y \<noteq> None \<and> \<not> lf_signal y"
  proof (cases "lf_err s")
    case None
    then obtain k where "stands s k ServeEnded" using assms(3) by (auto simp: in_set_conv_nth stands_def)
    then have w: "work s (leave k (Some ServeFailed) s)" by (intro work.serve_error a)
    have "life_inv (leave k (Some ServeFailed) s)" using i a by (simp add: leave_inv)
    with w show ?thesis using None a assms(2) by (intro exI [of _ "leave k (Some ServeFailed) s"]) (auto simp: alive_def)
  next
    case (Some e)
    with i a assms(2) show ?thesis by blast
  qed
  then obtain y where y: "work\<^sup>*\<^sup>* s y" "life_inv y" "alive y" "lf_err y \<noteq> None" "\<not> lf_signal y" by blast
  then have "ctx_done y" using life_invD(2) [OF y(2)] by (simp add: ctx_done_def)
  from works_until [OF y(2,3) this] y(5) obtain z where
    z: "work\<^sup>*\<^sup>* y z" "life_inv z" "\<not> lf_signal z" "list_all returned (lf_members z)" "lf_main z = AwaitSignal" by auto
  have e: "lf_err z = Some ServeFailed"
    using first_error_stays [OF z(1) y(4)] life_invD(4) [OF z(2) z(3)] by auto
  have n: "\<not> stands z k x" if "\<not> returned x" for k x using z(4) that by (auto simp: list_all_length stands_def)
  have "\<not> tick z z'" for z' using n [of Idle] by (auto simp: tick_iff)
  moreover have "\<not> work z z'" for z' using n z(3,5) by (auto elim!: workE)
  moreover have "signal z z' \<longleftrightarrow> z' = z\<lparr>lf_signal := True\<rparr>" for z' using z(3,5) by (auto simp: signal_iff alive_def)
  ultimately show ?thesis using z y(1) e by (auto simp: life_step_def intro!: exI [of _ z])
qed

theorem serve_failure_hangs_witness:
  "\<exists>g out z. main_run sample_main sample_flags = Running g out \<and> life_step\<^sup>*\<^sup>* (up g) z \<and> lf_main z = AwaitSignal \<and>
    list_all returned (lf_members z)"
proof -
  obtain g out where r: "main_run sample_main sample_flags = Running g out" by (rule sample_runs)
  let ?k = "length (pg_pve g) + length (pg_temps g) + length (pg_pbs g) + 2"
  have "stands (up g) ?k Serving" by (simp add: stands_def up_def members_of_def nth_append)
  then have w: "work (up g) (move ?k ServeEnded (up g))" by (intro work.serve_end) (simp add: alive_def up_def)
  then have "life_step (up g) (move ?k ServeEnded (up g))" by (simp add: life_step_def)
  then have s: "life_reach g (move ?k ServeEnded (up g))" by (auto simp: life_reach_def)
  have "ServeEnded \<in> set (lf_members (move ?k ServeEnded (up g)))"
    by (simp add: up_def members_of_def set_update_memI)
  with serve_failure_hangs [OF s] obtain z where "work\<^sup>*\<^sup>* (move ?k ServeEnded (up g)) z" "lf_main z = AwaitSignal"
    "list_all returned (lf_members z)" by (auto simp: up_def)
  moreover have "life_step\<^sup>*\<^sup>* (up g) z" using s work_step [OF calculation(1)] unfolding life_reach_def by (rule rtranclp_trans)
  ultimately show ?thesis using r by blast
qed

end
