(* ===== verification/Spec2Isabelle.thy ===== *)
theory Spec2Isabelle
  imports SmartParse CacheHeap EndToEnd ApiProps WidgetProps DevTools Lifecycle
begin

text \<open>
  Glint is a monitor for Proxmox VE and Proxmox Backup Server: collectors poll the servers at intervals, put what
  they find into a cache in memory and as rows into a SQLite store; an alerter evaluates rules against the cache and
  notifies; an HTTP server shows the cache and sparklines of the store. This development models the program and
  proves what makes its parts correct, alone and together.

  How the parts interact. \<open>main\<close> (\<open>cmd/glint/main.go\<close>) loads the configuration, opens the store, and starts one
  goroutine per collector, the pruner, the alerter and the HTTP server. They share the cache, whose calls
  are atomic by its mutex, and the store, whose statements are atomic; nothing else. The alerter and the HTTP
  handlers work on a snapshot, a copy of the cache.

  The theories, each for one part of the code:
  \<^item> \<open>Prelude\<close>, \<open>GoFloat\<close>, \<open>GoString\<close>, \<open>GoNumber\<close>, \<open>GoTime\<close>, \<open>GoDuration\<close>, \<open>GoJson\<close>: what the program uses of Go. An \<open>int\<close> or
    \<open>int64\<close> is an \<open>int\<close> with \<open>wrap64\<close> where it can overflow; a \<open>float64\<close> is a rational, an infinity or a NaN,
    rounded to the 53 bits of the format after each operation (\<open>rnd\<close>), so that bounds hold for the computed
    numbers; a map is an association list, whose order is the order in which Go ranges over it, so a
    statement about every list is one about every order; a string is its bytes; an instant is its
    nanoseconds; JSON is a tree whose numbers are still text, read by \<open>strconv.ParseFloat\<close> as it is. Loops over maps whose result does not depend on the
    order are instances of the locale \<open>range_loop\<close>, and sorting of the locale \<open>slice_sort\<close>.
  \<^item> \<open>Domain\<close>: \<open>internal/model\<close>, one record per struct.
  \<^item> \<open>SmartTable\<close>, \<open>SmartParse\<close>: \<open>internal/smart\<close>: the failure-rate table and the verdicts; the three parsers.
  \<^item> \<open>Cache\<close>, \<open>CacheHeap\<close>: \<open>internal/cache\<close>, as values, and with the pointers to the nodes, which a temperature poll
    writes through: the second implements all of the first, and a snapshot shows the contents of its moment however
    late it is read.
  \<^item> \<open>Alerter\<close>, \<open>AlertRules\<close>, \<open>AlertProps\<close>: \<open>internal/alerter\<close>. One evaluation is a list of rules applied in order;
    an invariant of one rule lifts to every run. From this: no alert without its condition (held without a break
    for its duration), no repetition within the cooldown, no condition missed, and a hold above six hours
    disables an alert.
  \<^item> \<open>Notify\<close>: \<open>internal/notify\<close>, the requests of both providers; the locale \<open>provider\<close> is their contract.
  \<^item> \<open>Store\<close>, \<open>Pruner\<close>: \<open>internal/store\<close>: each table by its primary key (locale \<open>snapshot_table\<close>), each
    statement, the retention.
  \<^item> \<open>Collector\<close>: \<open>internal/collector/collector.go\<close>, the worker pool as a step relation, the polling loop.
  \<^item> \<open>PveApi\<close>, \<open>PveCollect\<close>, \<open>Pbs\<close>, \<open>Temperature\<close>: the three pollers, from the requests and the decoding of the
    answers to what a poll does to the collector, the cache and the store. The jobs of the nodes of one
    poll run at the same time; \<open>weave\<close> gives exactly the interleavings of their critical sections.
  \<^item> \<open>Config\<close>: \<open>internal/config\<close>: durations, placeholders, environment, validation, loading.
  \<^item> \<open>Helpers\<close>: \<open>templates/helpers.go\<close>, what the pages print and in which order.
  \<^item> \<open>HttpServer\<close>, \<open>Api\<close>, \<open>ApiProps\<close>, \<open>WidgetProps\<close>: \<open>internal/api\<close>: the response writer, the middleware, the routes as
    \<open>http.ServeMux\<close> resolves them, the handlers; the contract of a handler is the locale \<open>page_handler\<close>.
  \<^item> \<open>Startup\<close>, \<open>Wiring\<close>: \<open>cmd/glint/main.go\<close>: flags, build information, addresses, the health check, and the
    components with the configuration they are given.
  \<^item> \<open>SharedNodes\<close>: the nodes a poll has put into the cache and still reads, while temperatures are written
    through the same pointers: what a row then holds.
  \<^item> \<open>Concurrent\<close>: the running program as a step relation: each round of a goroutine is the list of its calls on
    the cache and the store, and the calls of all goroutines interleave in any order.
  \<^item> \<open>EndToEnd\<close>: from a poll through the cache and an evaluation to a row of the alert log.
  \<^item> \<open>Lifecycle\<close>: the end of \<open>main\<close>, the loops of the goroutines and their group as a step relation: signals, the first error,
    the cancellation, the waiting. The measure \<open>effort_left\<close> bounds every shutdown.
  \<^item> \<open>DevTools\<close>: \<open>scripts/\<close>: the coverage gate with its ratchet, the fuzz runner and the benchmark report.

  What the code relies on and cannot be read here is an argument of the definitions: the answers of the
  servers (\<open>ae_get\<close>), of SSH, of the \<open>go\<close> command, of the network for notifications, the YAML package, \<open>url.Parse\<close>, whether
  the database fails a statement, the clock, the interleaving, the environment, the HTML of the templates and
  the handlers of other packages, the number a \<open>float64\<close> outside the range of an integer is converted
  to (Go leaves it to the platform). None of them is assumed to be well-behaved, except where a theorem
  says so. SQLite is its documented behaviour on the statements the program uses (keys, NOT NULL, upserts, division by
  zero is NULL). No definition needs fuel: every loop of the program that is modelled ends, and the two
  that run until the shutdown (the polling loop and the tickers) are functions of the list of events they see.

  Theorems that cross parts: \<open>stale_chip_alerts\<close> (dashboard, alerter and configuration), \<open>cluster_is_instance\<close>
  and \<open>temperature_needs_namesake\<close> (what the configuration makes the collectors do),
  \<open>system_invariant\<close> (all goroutines over the shared state; the lemma \<open>plans_are_rounds\<close> ties their calls to the
  rounds of the other theories), \<open>failed_disk_alert\<close> (collectors, cache,
  alerter and log), \<open>row_temperature\<close> (a poll and the temperature poller), \<open>serve_failure_hangs\<close> and \<open>shutdown_completes\<close> (all goroutines and main),
  \<open>healthcheck_probes_server\<close>.

  Not modelled: logging and the text of errors; the TLS settings; the HTML templates; the static files and the Swagger
  page; the ordering of a message to a provider with calls of other goroutines; a panic outside the
  HTTP handlers, which ends the process; what the developer scripts print on the terminal; the generated Swagger document
  (one constant).
\<close>

end
